(* ===== verification/Prelude.thy ===== *)
theory Prelude
  imports Main "HOL-Library.Multiset" "HOL-Library.Sublist" "HOL-Library.List_Lexorder"
    "HOL-Library.Char_ord" "HOL-Library.AList"
begin

text \<open>
  Shared ground of the development: Go's byte strings and the functions of package
  \<open>strings\<close> the program calls, errors as values (package \<open>errors\<close> and
  \<open>fmt.Errorf\<close>), the sequencing of fallible steps, 64-bit signed wrap-around, and
  the contract of the comparators handed to package \<open>sort\<close>.

  A Go string is a sequence of bytes, so it is a \<^typ>\<open>string\<close> here (a list of
  8-bit characters): \<open>len\<close> is \<^const>\<open>length\<close> and \<open><\<close> is the bytewise
  lexicographic order of the imported list order.
\<close>

named_theorems go_defs \<open>definitions that unfold to plain list and option operations\<close>
named_theorems res_simps \<open>inversion of sequenced fallible steps\<close>

section \<open>Errors as values\<close>

text \<open>
  An error is one of the sentinel values of the program and of package \<open>os\<close>, an
  error built by \<open>errors.New\<close> or \<open>fmt.Errorf\<close> (its fragments: literal text,
  a string shown with \<open>%q\<close>, a wrapped error \<open>%w\<close>, an error shown with
  \<open>%v\<close>), or a pair made by \<open>errors.Join\<close>. A run-time panic is the value
  \<open>GoPanic\<close>, so that it is a branch like any other.
\<close>

datatype err =
    ErrAccessDenied
  | ErrScopeTooBroad
  | ErrUnsafePath
  | ErrOverlappingRoots
  | ErrExist
  | ErrNotExist
  | ErrOS string
  | GoPanic string
  | Errorf "efrag list"
  | ErrJoin err err
and efrag =
    Lit string
  | Quoted string
  | Wrapped err
  | Shown err

type_synonym 'a res = "err + 'a"

abbreviation errors_new :: "string \<Rightarrow> err" where
  "errors_new s \<equiv> Errorf [Lit s]"

text \<open>\<open>errors.Is\<close>: the error itself or one it wraps.\<close>

fun err_is :: "err \<Rightarrow> err \<Rightarrow> bool" and frag_is :: "err \<Rightarrow> efrag \<Rightarrow> bool" where
  "err_is t (Errorf fs) \<longleftrightarrow> t = Errorf fs \<or> (\<exists>f \<in> set fs. frag_is t f)"
| "err_is t (ErrJoin a b) \<longleftrightarrow> t = ErrJoin a b \<or> err_is t a \<or> err_is t b"
| "err_is t e \<longleftrightarrow> t = e"
| "frag_is t (Wrapped e) \<longleftrightarrow> err_is t e"
| "frag_is t f \<longleftrightarrow> False"

text \<open>
  The text of an error. The quoting of \<open>%q\<close> is \<open>strconv.Quote\<close>, passed in.
\<close>

fun err_text :: "(string \<Rightarrow> string) \<Rightarrow> err \<Rightarrow> string"
  and frag_text :: "(string \<Rightarrow> string) \<Rightarrow> efrag \<Rightarrow> string" where
  "err_text q ErrAccessDenied = ''access denied''"
| "err_text q ErrScopeTooBroad = ''task scope is too broad''"
| "err_text q ErrUnsafePath = ''task scope path is unsafe''"
| "err_text q ErrOverlappingRoots = ''task scope roots overlap''"
| "err_text q ErrExist = ''file already exists''"
| "err_text q ErrNotExist = ''file does not exist''"
| "err_text q (ErrOS s) = s"
| "err_text q (GoPanic s) = s"
| "err_text q (Errorf fs) = concat (map (frag_text q) fs)"
| "err_text q (ErrJoin a b) = err_text q a @ [CHR 0x0A] @ err_text q b"
| "frag_text q (Lit s) = s"
| "frag_text q (Quoted s) = q s"
| "frag_text q (Wrapped e) = err_text q e"
| "frag_text q (Shown e) = err_text q e"

section \<open>Sequencing fallible steps\<close>

text \<open>
  \<open>and_then m f\<close> is the shape \<open>v, err := m; if err != nil { return err }; f(v)\<close>.
\<close>

definition and_then :: "'e + 'a \<Rightarrow> ('a \<Rightarrow> 'e + 'b) \<Rightarrow> 'e + 'b" where
  "and_then m f = (case m of Inl e \<Rightarrow> Inl e | Inr v \<Rightarrow> f v)"

definition orelse_err :: "'e + 'a \<Rightarrow> 'e \<Rightarrow> 'e + 'a" where
  "orelse_err m e = (case m of Inl _ \<Rightarrow> Inl e | Inr v \<Rightarrow> Inr v)"

definition is_ok :: "'e + 'a \<Rightarrow> bool" where
  "is_ok m = (case m of Inl _ \<Rightarrow> False | Inr _ \<Rightarrow> True)"

lemma and_then_Inl [simp]: "and_then (Inl e) f = Inl e"
  by (simp add: and_then_def)

lemma and_then_Inr [simp]: "and_then (Inr v) f = f v"
  by (simp add: and_then_def)

lemma and_then_eq_Inr [res_simps]:
  "and_then m f = Inr y \<longleftrightarrow> (\<exists>x. m = Inr x \<and> f x = Inr y)"
  by (cases m) auto

lemma and_then_cong [fundef_cong]:
  "m = m' \<Longrightarrow> (\<And>v. m' = Inr v \<Longrightarrow> f v = g v) \<Longrightarrow> and_then m f = and_then m' g"
  by (cases m') auto

lemma orelse_err_eq_Inr [res_simps]: "orelse_err m e = Inr y \<longleftrightarrow> m = Inr y"
  by (cases m) (auto simp: orelse_err_def)

lemma orelse_err_simps [simp]:
  "orelse_err (Inl e') e = Inl e" "orelse_err (Inr v) e = Inr v"
  by (simp_all add: orelse_err_def)

lemma if_Inl_eq_Inr [res_simps]:
  "(if c then Inl e else m) = Inr y \<longleftrightarrow> \<not> c \<and> m = Inr y"
  by simp

lemma case_sum_eq_Inr [res_simps]:
  "(case m of Inl e \<Rightarrow> Inl (f e) | Inr v \<Rightarrow> g v) = Inr y \<longleftrightarrow> (\<exists>v. m = Inr v \<and> g v = Inr y)"
  by (cases m) auto

lemma is_ok_simps [simp]: "is_ok (Inr v)" "\<not> is_ok (Inl e)"
  by (simp_all add: is_ok_def)

lemma is_okE: assumes "is_ok m" obtains v where "m = Inr v"
  using assms by (cases m) auto

text \<open>A loop over a list that stops at the first error and collects the results.\<close>

fun map_res :: "('a \<Rightarrow> 'e + 'b) \<Rightarrow> 'a list \<Rightarrow> 'e + 'b list" where
  "map_res f [] = Inr []"
| "map_res f (x # xs) = and_then (f x) (\<lambda>y. and_then (map_res f xs) (\<lambda>ys. Inr (y # ys)))"

lemma map_res_eq_Inr:
  "map_res f xs = Inr ys \<longleftrightarrow> list_all2 (\<lambda>x y. f x = Inr y) xs ys"
proof (induction xs arbitrary: ys)
  case Nil
  then show ?case by auto
next
  case (Cons x xs)
  then show ?case by (cases ys) (auto simp: res_simps)
qed

lemma map_res_length: "map_res f xs = Inr ys \<Longrightarrow> length ys = length xs"
  by (auto simp: map_res_eq_Inr dest: list_all2_lengthD)

lemma map_res_cong [fundef_cong]:
  "xs = ys \<Longrightarrow> (\<And>x. x \<in> set ys \<Longrightarrow> f x = g x) \<Longrightarrow> map_res f xs = map_res g ys"
  by (induction xs arbitrary: ys) auto

section \<open>Byte strings\<close>

definition has_prefix :: "string \<Rightarrow> string \<Rightarrow> bool" where
  "has_prefix s p \<longleftrightarrow> prefix p s"

definition has_suffix :: "string \<Rightarrow> string \<Rightarrow> bool" where
  "has_suffix s p \<longleftrightarrow> suffix p s"

definition trim_prefix :: "string \<Rightarrow> string \<Rightarrow> string" where
  "trim_prefix s p = (if has_prefix s p then drop (length p) s else s)"

definition trim_suffix :: "string \<Rightarrow> string \<Rightarrow> string" where
  "trim_suffix s p = (if has_suffix s p then take (length s - length p) s else s)"

definition str_contains :: "string \<Rightarrow> string \<Rightarrow> bool" where
  "str_contains s sub \<longleftrightarrow> sublist sub s"

lemmas [go_defs] = has_prefix_def has_suffix_def trim_prefix_def trim_suffix_def str_contains_def

text \<open>
  \<open>strings.Split\<close> on a one-byte separator (never empty), and
  \<open>strings.FieldsFunc\<close>, which drops the empty fields. The program splits on ASCII
  separators only, so splitting bytes and splitting runes agree.
\<close>

fun split_on :: "(char \<Rightarrow> bool) \<Rightarrow> string \<Rightarrow> string list" where
  "split_on p [] = [[]]"
| "split_on p (c # cs) =
     (if p c then [] # split_on p cs
      else case split_on p cs of [] \<Rightarrow> [[c]] | w # ws \<Rightarrow> (c # w) # ws)"

definition fields_func :: "(char \<Rightarrow> bool) \<Rightarrow> string \<Rightarrow> string list" where
  "fields_func p s = filter (\<lambda>w. w \<noteq> []) (split_on p s)"

fun join_with :: "char \<Rightarrow> string list \<Rightarrow> string" where
  "join_with c [] = []"
| "join_with c [w] = w"
| "join_with c (w # ws) = w @ c # join_with c ws"

lemma split_on_not_Nil [simp]: "split_on p s \<noteq> []"
  by (induction s) (auto split: list.splits)

lemma split_on_no_sep [simp]: "\<forall>c \<in> set w. \<not> p c \<Longrightarrow> split_on p w = [w]"
  by (induction w) auto

lemma split_on_append_sep:
  "\<forall>c \<in> set w. \<not> p c \<Longrightarrow> p c \<Longrightarrow> split_on p (w @ c # s) = w # split_on p s"
  by (induction w) auto

lemma split_on_append: "p c \<Longrightarrow> split_on p (u @ c # v) = split_on p u @ split_on p v"
  by (induction u) (auto split: list.splits)

lemma fields_func_append: "p c \<Longrightarrow> fields_func p (u @ c # v) = fields_func p u @ fields_func p v"
  by (simp add: fields_func_def split_on_append)

lemma split_on_parts: "w \<in> set (split_on p s) \<Longrightarrow> c \<in> set w \<Longrightarrow> \<not> p c"
proof (induction s arbitrary: w)
  case Nil
  then show ?case by simp
next
  case (Cons a s)
  then show ?case by (cases "split_on p s") (force split: if_splits)+
qed

lemma split_on_chars: "w \<in> set (split_on p s) \<Longrightarrow> set w \<subseteq> set s"
proof (induction s arbitrary: w)
  case Nil
  then show ?case by simp
next
  case (Cons a s)
  then show ?case by (cases "split_on p s") (force split: if_splits)+
qed

lemma split_on_join_with:
  "ws \<noteq> [] \<Longrightarrow> \<forall>w \<in> set ws. c \<notin> set w \<Longrightarrow> split_on (\<lambda>x. x = c) (join_with c ws) = ws"
proof (induction ws rule: join_with.induct)
  case (2 c w)
  then show ?case by (intro trans [OF split_on_no_sep]) auto
next
  case (3 c w v ws)
  then have "\<forall>x \<in> set w. \<not> x = c" by auto
  then have "split_on (\<lambda>x. x = c) (w @ c # join_with c (v # ws)) =
      w # split_on (\<lambda>x. x = c) (join_with c (v # ws))"
    by (rule split_on_append_sep) simp
  with 3 show ?case by simp
qed auto

lemma join_with_split_on: "join_with c (split_on (\<lambda>x. x = c) s) = s"
proof (induction s)
  case (Cons a s)
  obtain w ws where "split_on (\<lambda>x. x = c) s = w # ws"
    by (cases "split_on (\<lambda>x. x = c) s") auto
  with Cons show ?case by (cases ws) auto
qed simp

lemma join_with_Cons: "ws \<noteq> [] \<Longrightarrow> join_with c (w # ws) = w @ c # join_with c ws"
  by (cases ws) auto

lemma join_with_append:
  "us \<noteq> [] \<Longrightarrow> ws \<noteq> [] \<Longrightarrow> join_with c (us @ ws) = join_with c us @ c # join_with c ws"
  by (induction us rule: join_with.induct) (auto simp: join_with_Cons)

text \<open>
  Two texts joined by a separator the first cannot contain determine both parts: the
  fact behind every \<open>fmt.Sprintf("%d:%s", \<dots>)\<close> key of the program.
\<close>

lemma sep_append_inject:
  "c \<notin> set u \<Longrightarrow> c \<notin> set u' \<Longrightarrow> u @ c # v = u' @ c # v' \<longleftrightarrow> u = u' \<and> v = v'"
proof (induction u arbitrary: u')
  case Nil
  then show ?case by (cases u') auto
next
  case (Cons a u)
  then show ?case by (cases u') auto
qed

section \<open>Signed 64-bit arithmetic\<close>

text \<open>Go's \<open>int\<close> and \<open>int64\<close> wrap around; sums are written with \<open>wrap64\<close>.\<close>

definition wrap64 :: "int \<Rightarrow> int" where
  "wrap64 x = (x + 2 ^ 63) mod 2 ^ 64 - 2 ^ 63"

definition in_i64 :: "int \<Rightarrow> bool" where
  "in_i64 x \<longleftrightarrow> - (2 ^ 63) \<le> x \<and> x < 2 ^ 63"

lemma wrap64_id [simp]: "in_i64 x \<Longrightarrow> wrap64 x = x"
  by (simp add: wrap64_def in_i64_def)

lemma wrap64_in_i64 [simp]: "in_i64 (wrap64 x)"
proof -
  have "0 \<le> (x + 2 ^ 63) mod 2 ^ 64" "(x + 2 ^ 63) mod 2 ^ 64 < 2 ^ 64" by simp_all
  then show ?thesis by (simp add: wrap64_def in_i64_def)
qed

lemma wrap64_cong: "wrap64 x mod 2 ^ 64 = x mod 2 ^ 64"
proof -
  have "((x + 2 ^ 63) mod 2 ^ 64 - 2 ^ 63) mod 2 ^ 64 = ((x + 2 ^ 63) - 2 ^ 63) mod 2 ^ 64"
    by (rule mod_diff_left_eq)
  then show ?thesis by (simp add: wrap64_def)
qed

lemma wrap64_add_left [simp]: "wrap64 (wrap64 a + b) = wrap64 (a + b)"
proof -
  have "(wrap64 a + b + 2 ^ 63) mod 2 ^ 64 = (a + b + 2 ^ 63) mod 2 ^ 64"
    using wrap64_cong [of a] by (metis add.assoc mod_add_left_eq)
  then show ?thesis by (simp add: wrap64_def)
qed

section \<open>Package sort\<close>

text \<open>
  \<open>sort.SliceStable\<close> is a stable sort by the comparator; \<open>sort.Slice\<close> and
  \<open>sort.Strings\<close> are modelled by the same stable insertion sort. Where a comparator
  leaves no ties the result is the only sorted permutation
  (\<open>comparator.sort_by_unique\<close>), so there the choice of algorithm is immaterial.
\<close>

fun insert_by :: "('a \<Rightarrow> 'a \<Rightarrow> bool) \<Rightarrow> 'a \<Rightarrow> 'a list \<Rightarrow> 'a list" where
  "insert_by lt x [] = [x]"
| "insert_by lt x (y # ys) = (if lt y x then y # insert_by lt x ys else x # y # ys)"

fun sort_by :: "('a \<Rightarrow> 'a \<Rightarrow> bool) \<Rightarrow> 'a list \<Rightarrow> 'a list" where
  "sort_by lt [] = []"
| "sort_by lt (x # xs) = insert_by lt x (sort_by lt xs)"

definition sort_strings :: "string list \<Rightarrow> string list" where
  "sort_strings = sort_by (<)"

lemma mset_insert_by [simp]: "mset (insert_by lt x xs) = add_mset x (mset xs)"
  by (induction xs) auto

lemma mset_sort_by [simp]: "mset (sort_by lt xs) = mset xs"
  by (induction xs) auto

lemma set_sort_by [simp]: "set (sort_by lt xs) = set xs"
  by (metis mset_sort_by set_mset_mset)

lemma length_sort_by [simp]: "length (sort_by lt xs) = length xs"
  by (metis mset_sort_by size_mset)

lemma distinct_sort_by [simp]: "distinct (sort_by lt xs) = distinct xs"
  by (metis mset_sort_by mset_eq_imp_distinct_iff)

lemma sort_by_Nil_iff [simp]: "sort_by lt xs = [] \<longleftrightarrow> xs = []"
  by (metis length_0_conv length_sort_by)

text \<open>
  The contract of a comparator: a strict weak order, which is what the documentation of
  \<open>sort.Slice\<close> requires of its \<open>less\<close>.
\<close>

locale comparator =
  fixes lt :: "'a \<Rightarrow> 'a \<Rightarrow> bool"
  assumes less_asym: "lt a b \<Longrightarrow> \<not> lt b a"
    and less_negtrans: "lt a c \<Longrightarrow> lt a b \<or> lt b c"
begin

lemma insert_by_sorted:
  "sorted_wrt (\<lambda>a b. \<not> lt b a) xs \<Longrightarrow> sorted_wrt (\<lambda>a b. \<not> lt b a) (insert_by lt x xs)"
proof (induction xs)
  case Nil
  then show ?case by simp
next
  case (Cons y ys)
  have "set (insert_by lt x ys) = insert x (set ys)"
    by (metis mset_insert_by set_mset_add_mset_insert set_mset_mset)
  with Cons show ?case
    using less_asym less_negtrans by (auto split: if_splits) blast+
qed

lemma sort_by_sorted: "sorted_wrt (\<lambda>a b. \<not> lt b a) (sort_by lt xs)"
  by (induction xs) (auto intro: insert_by_sorted)

lemma sorted_perm_unique:
  assumes "mset xs = mset ys"
    and "sorted_wrt (\<lambda>a b. \<not> lt b a) xs" "sorted_wrt (\<lambda>a b. \<not> lt b a) ys"
    and "\<And>a b. a \<in> set xs \<Longrightarrow> b \<in> set xs \<Longrightarrow> a \<noteq> b \<Longrightarrow> lt a b \<or> lt b a"
  shows "xs = ys"
  using assms
proof (induction xs arbitrary: ys)
  case Nil
  then show ?case by simp
next
  case (Cons x xs)
  then obtain y ys' where ys: "ys = y # ys'" by (cases ys) auto
  have "x \<in> set ys" "y \<in> set (x # xs)"
    using Cons.prems(1) ys by (metis list.set_intros(1) set_mset_mset)+
  then have "x = y"
    using Cons.prems ys by auto
  moreover have "xs = ys'"
    using Cons.prems ys \<open>x = y\<close> by (intro Cons.IH) auto
  ultimately show ?case using ys by simp
qed

text \<open>Any other sorting algorithm gives the same list when the comparator has no ties.\<close>

lemma sort_by_unique:
  assumes "mset ys = mset xs" and "sorted_wrt (\<lambda>a b. \<not> lt b a) ys"
    and "\<And>a b. a \<in> set xs \<Longrightarrow> b \<in> set xs \<Longrightarrow> a \<noteq> b \<Longrightarrow> lt a b \<or> lt b a"
  shows "ys = sort_by lt xs"
  using assms sort_by_sorted [of xs] mset_eq_setD [OF assms(1)]
  by (intro sorted_perm_unique) auto

lemma sort_by_mset_cong:
  assumes "mset xs = mset ys"
    and "\<And>a b. a \<in> set xs \<Longrightarrow> b \<in> set xs \<Longrightarrow> a \<noteq> b \<Longrightarrow> lt a b \<or> lt b a"
  shows "sort_by lt xs = sort_by lt ys"
  using assms sort_by_sorted [of xs] sort_by_sorted [of ys]
  by (intro sorted_perm_unique) auto

end

text \<open>Comparators on a key, and the two-level comparators the program writes.\<close>

lemma comparator_key: "comparator (\<lambda>a b. (f a :: 'k::linorder) < f b)"
  by unfold_locales auto

lemma comparator_lex:
  "comparator (\<lambda>a b. if (f a :: 'k::linorder) = f b then (g a :: 'l::linorder) < g b else f a < f b)"
  by unfold_locales (auto split: if_splits)

interpretation str_order: comparator "(<) :: string \<Rightarrow> string \<Rightarrow> bool"
  by unfold_locales auto

lemma sorted_sort_strings: "sorted (sort_strings xs)"
  using str_order.sort_by_sorted [of xs]
  by (simp add: sort_strings_def sorted_wrt_iff_nth_less sorted_iff_nth_mono_less not_less)

lemma set_sort_strings [simp]: "set (sort_strings xs) = set xs"
  by (simp add: sort_strings_def)

lemma distinct_sort_strings [simp]: "distinct (sort_strings xs) = distinct xs"
  by (simp add: sort_strings_def)

lemma length_sort_strings [simp]: "length (sort_strings xs) = length xs"
  by (simp add: sort_strings_def)

end
