(* ===== verification/Go_Text.thy ===== *)
theory Go_Text
  imports Prelude
begin

text \<open>
  The text encodings of Go's standard library the program uses: decimal integers
  (\<open>strconv.Itoa\<close>, \<open>strconv.Atoi\<close>, \<open>%d\<close>), lower-case hexadecimal
  (\<open>%x\<close>, \<open>hex.EncodeToString\<close>) and unpadded URL-safe base64
  (\<open>base64.RawURLEncoding\<close>), with their round trips as interpretations of one codec
  contract.
\<close>

section \<open>The contract of a text encoding\<close>

locale codec =
  fixes enc :: "'a \<Rightarrow> string" and dec :: "string \<Rightarrow> 'a option" and valid :: "'a \<Rightarrow> bool"
  assumes dec_enc: "valid x \<Longrightarrow> dec (enc x) = Some x"
begin

lemma enc_inject: "valid x \<Longrightarrow> valid y \<Longrightarrow> enc x = enc y \<longleftrightarrow> x = y"
  by (metis dec_enc option.inject)

end

text \<open>Two codecs in sequence are a codec.\<close>

lemma codec_compose:
  assumes "codec enc1 dec1 valid1" and "codec enc2 dec2 valid2"
    and "\<And>x. valid1 x \<Longrightarrow> valid2 (enc1 x)"
  shows "codec (\<lambda>x. enc2 (enc1 x)) (\<lambda>s. Option.bind (dec2 s) dec1) valid1"
  using assms by (simp add: codec_def)

section \<open>Decimal integers\<close>

definition digit_char :: "nat \<Rightarrow> char" where
  "digit_char d = char_of (48 + d)"

definition is_digit :: "char \<Rightarrow> bool" where
  "is_digit c \<longleftrightarrow> 48 \<le> (of_char c :: nat) \<and> (of_char c :: nat) \<le> 57"

text \<open>The digits of a non-negative integer.\<close>

function dec_digits :: "int \<Rightarrow> string" where
  "dec_digits n =
     (if n < 10 then [digit_char (nat n)]
      else dec_digits (n div 10) @ [digit_char (nat (n mod 10))])"
  by pat_completeness auto
termination
  by (relation "measure nat") auto

declare dec_digits.simps [simp del]

definition itoa :: "int \<Rightarrow> string" where
  "itoa i = (if i < 0 then CHR ''-'' # dec_digits (- i) else dec_digits i)"

fun read_dec :: "int \<Rightarrow> string \<Rightarrow> int option" where
  "read_dec acc [] = Some acc"
| "read_dec acc (c # cs) =
     (if is_digit c then read_dec (10 * acc + (int (of_char c) - 48)) cs else None)"

text \<open>\<open>strconv.Atoi\<close>: an optional sign, at least one digit, and a value of 64 bits.\<close>

definition atoi :: "string \<Rightarrow> int option" where
  "atoi s =
     (let (neg, ds) = (case s of [] \<Rightarrow> (False, [])
                       | c # cs \<Rightarrow> if c = CHR ''-'' then (True, cs)
                                   else if c = CHR ''+'' then (False, cs) else (False, s))
      in if ds = [] then None
         else case read_dec 0 ds of
                None \<Rightarrow> None
              | Some n \<Rightarrow> (let v = (if neg then - n else n)
                           in if in_i64 v then Some v else None))"

lemma of_char_digit_char: "d < 10 \<Longrightarrow> of_char (digit_char d) = (48 + d :: nat)"
  by (simp add: digit_char_def)

lemma of_char_digit_int: "0 \<le> d \<Longrightarrow> d < 10 \<Longrightarrow> int (of_char (digit_char (nat d))) = 48 + d"
  by (subst of_char_digit_char) auto

lemma is_digit_digit_char: "d < 10 \<Longrightarrow> is_digit (digit_char d)"
  by (simp add: is_digit_def of_char_digit_char)

lemma dec_digits_not_Nil [simp]: "dec_digits n \<noteq> []"
  by (subst dec_digits.simps) simp

lemma dec_digits_digits: "c \<in> set (dec_digits n) \<Longrightarrow> is_digit c"
proof (induction n rule: dec_digits.induct)
  case (1 n)
  then show ?case
    by (subst (asm) dec_digits.simps) (auto simp: is_digit_digit_char nat_less_iff split: if_splits)
qed

lemma read_dec_append:
  "read_dec acc (u @ v) = (case read_dec acc u of None \<Rightarrow> None | Some a \<Rightarrow> read_dec a v)"
  by (induction u arbitrary: acc) auto

lemma read_dec_digits: "0 \<le> n \<Longrightarrow> read_dec 0 (dec_digits n) = Some n"
proof (induction n rule: dec_digits.induct)
  case (1 n)
  show ?case
  proof (cases "n < 10")
    case True
    with 1 show ?thesis
      by (subst dec_digits.simps) (simp add: is_digit_digit_char of_char_digit_int)
  next
    case False
    with 1 have "read_dec 0 (dec_digits (n div 10)) = Some (n div 10)" by simp
    with False show ?thesis
      by (subst dec_digits.simps)
        (simp add: read_dec_append is_digit_digit_char of_char_digit_int nat_less_iff)
  qed
qed

lemma not_digit_sign: "\<not> is_digit CHR ''-''" "\<not> is_digit CHR ''+''" "\<not> is_digit CHR '':''"
  by (simp_all add: is_digit_def)

lemma atoi_itoa: "in_i64 i \<Longrightarrow> atoi (itoa i) = Some i"
proof -
  assume i: "in_i64 i"
  obtain c cs where c: "dec_digits i = c # cs" by (cases "dec_digits i") auto
  with dec_digits_digits [of c i] have "c \<noteq> CHR ''-''" "c \<noteq> CHR ''+''"
    using not_digit_sign by auto
  then have "0 \<le> i \<Longrightarrow> atoi (dec_digits i) = Some i"
    using i read_dec_digits [of i] by (simp add: atoi_def c del: read_dec.simps)
  with i show ?thesis
    by (simp add: itoa_def atoi_def [of "CHR ''-'' # _"] read_dec_digits)
qed

interpretation decimal: codec itoa atoi in_i64
  by unfold_locales (rule atoi_itoa)

lemma itoa_inject [simp]: "itoa i = itoa j \<longleftrightarrow> i = j"
proof -
  have inj: "dec_digits m = dec_digits n \<longleftrightarrow> m = n" if "0 \<le> m" "0 \<le> n" for m n
    using that by (metis read_dec_digits option.inject)
  have "hd (dec_digits n) \<noteq> CHR ''-''" for n
    using dec_digits_digits [of "hd (dec_digits n)" n] not_digit_sign(1) by auto
  then have "dec_digits n \<noteq> CHR ''-'' # u" for n u
    by (metis list.sel(1))
  then show ?thesis
    by (auto simp: itoa_def inj) (metis)+
qed

lemma colon_notin_itoa [simp]: "CHR '':'' \<notin> set (itoa i)"
  using dec_digits_digits [of "CHR '':''"] not_digit_sign(3) by (auto simp: itoa_def)

lemma itoa_not_Nil [simp]: "itoa i \<noteq> []"
  by (simp add: itoa_def)

lemma slash_notin_itoa [simp]: "CHR ''/'' \<notin> set (itoa i)"
  using dec_digits_digits [of "CHR ''/''"] by (auto simp: itoa_def is_digit_def)

section \<open>Hexadecimal\<close>

definition hex_digit :: "nat \<Rightarrow> char" where
  "hex_digit d = ''0123456789abcdef'' ! d"

definition to_hex :: "string \<Rightarrow> string" where
  "to_hex s = concat (map (\<lambda>c. [hex_digit (of_char c div 16), hex_digit (of_char c mod 16)]) s)"

lemma length_to_hex [simp]: "length (to_hex s) = 2 * length s"
  by (induction s) (auto simp: to_hex_def)

section \<open>Unpadded URL-safe base64\<close>

definition b64_alphabet :: string where
  "b64_alphabet = ''ABCDEFGHIJKLMNOPQRSTUVWXYZabcdefghijklmnopqrstuvwxyz0123456789-_''"

definition b64_char :: "nat \<Rightarrow> char" where
  "b64_char n = b64_alphabet ! n"

definition b64_val :: "char \<Rightarrow> nat option" where
  "b64_val c = map_of (zip b64_alphabet [0..<64]) c"

fun b64_encode :: "string \<Rightarrow> string" where
  "b64_encode [] = []"
| "b64_encode [a] =
     (let x = of_char a in [b64_char (x div 4), b64_char (x mod 4 * 16)])"
| "b64_encode [a, b] =
     (let x = of_char a; y = of_char b
      in [b64_char (x div 4), b64_char (x mod 4 * 16 + y div 16), b64_char (y mod 16 * 4)])"
| "b64_encode (a # b # c # r) =
     (let x = of_char a; y = of_char b; z = of_char c
      in [b64_char (x div 4), b64_char (x mod 4 * 16 + y div 16),
          b64_char (y mod 16 * 4 + z div 64), b64_char (z mod 64)] @ b64_encode r)"

fun b64_groups :: "nat list \<Rightarrow> string option" where
  "b64_groups [] = Some []"
| "b64_groups [v] = None"
| "b64_groups [v, w] = Some [char_of (v * 4 + w div 16)]"
| "b64_groups [v, w, x] = Some [char_of (v * 4 + w div 16), char_of (w mod 16 * 16 + x div 4)]"
| "b64_groups (v # w # x # y # r) =
     map_option ((@) [char_of (v * 4 + w div 16), char_of (w mod 16 * 16 + x div 4),
                      char_of (x mod 4 * 64 + y)]) (b64_groups r)"

text \<open>
  \<open>DecodeString\<close> skips carriage returns and newlines, rejects every other byte outside
  the alphabet and a final group of one character, and (not being strict) ignores the
  unused low bits of a final group.
\<close>

definition b64_decode :: "string \<Rightarrow> string option" where
  "b64_decode s =
     Option.bind (those (map b64_val (filter (\<lambda>c. c \<noteq> CHR 0x0A \<and> c \<noteq> CHR 0x0D) s))) b64_groups"

lemma length_b64_alphabet [simp]: "length b64_alphabet = 64"
  by (simp add: b64_alphabet_def)

lemma distinct_b64_alphabet: "distinct b64_alphabet"
  by (simp add: b64_alphabet_def)

lemma b64_val_char [simp]: "n < 64 \<Longrightarrow> b64_val (b64_char n) = Some n"
  using map_of_zip_nth [of b64_alphabet "[0..<64]" n] distinct_b64_alphabet
  by (simp add: b64_val_def b64_char_def)

lemma b64_char_in: "n < 64 \<Longrightarrow> b64_char n \<in> set b64_alphabet"
  by (simp add: b64_char_def)

lemma b64_bounds:
  fixes x y z :: nat
  assumes "x < 256" "y < 256" "z < 256"
  shows "x div 4 < 64" "x mod 4 * 16 < 64" "x mod 4 * 16 + y div 16 < 64"
    "y mod 16 * 4 < 64" "y mod 16 * 4 + z div 64 < 64" "z mod 64 < 64"
  using assms by linarith+

lemma b64_encode_chars: "set (b64_encode s) \<subseteq> set b64_alphabet"
  by (induction s rule: b64_encode.induct)
    (simp_all add: Let_def b64_char_in b64_bounds [OF nat_of_char_less_256 nat_of_char_less_256 nat_of_char_less_256])

lemma b64_encode_filter:
  "filter (\<lambda>c. c \<noteq> CHR 0x0A \<and> c \<noteq> CHR 0x0D) (b64_encode s) = b64_encode s"
proof -
  have "CHR 0x0A \<notin> set b64_alphabet" "CHR 0x0D \<notin> set b64_alphabet"
    by (simp_all add: b64_alphabet_def)
  then show ?thesis using b64_encode_chars [of s] by (intro filter_True) blast
qed

lemma b64_bytes:
  fixes y z :: nat
  assumes "y < 256" "z < 256"
  shows "y div 16 div 16 = 0" "y div 16 mod 16 = y div 16"
    "z div 64 div 4 = 0" "z div 64 mod 4 = z div 64"
  using assms by simp_all

lemmas b64_char_facts =
  b64_bounds [OF nat_of_char_less_256 nat_of_char_less_256 nat_of_char_less_256]
  b64_bytes [OF nat_of_char_less_256 nat_of_char_less_256]

lemma b64_decode_encode: "b64_decode (b64_encode s) = Some s"
proof -
  have "Option.bind (those (map b64_val (b64_encode s))) b64_groups = Some s"
  proof (induction s rule: b64_encode.induct)
    case (4 a b c r)
    have "Option.bind (those (map b64_val (b64_encode r))) b64_groups = Some r"
      by (rule 4) simp_all
    then obtain vs where "those (map b64_val (b64_encode r)) = Some vs" "b64_groups vs = Some r"
      by (auto simp: bind_eq_Some_conv)
    then show ?case
      by (simp add: Let_def b64_char_facts)
  qed (simp_all add: Let_def b64_char_facts)
  then show ?thesis by (simp add: b64_decode_def b64_encode_filter)
qed

interpretation base64: codec b64_encode b64_decode "\<lambda>_. True"
  by unfold_locales (rule b64_decode_encode)

lemma slash_notin_b64_encode: "CHR ''/'' \<notin> set (b64_encode s)" "CHR ''.'' \<notin> set (b64_encode s)"
proof -
  have "CHR ''/'' \<notin> set b64_alphabet" "CHR ''.'' \<notin> set b64_alphabet"
    by (simp_all add: b64_alphabet_def)
  then show "CHR ''/'' \<notin> set (b64_encode s)" "CHR ''.'' \<notin> set (b64_encode s)"
    using b64_encode_chars [of s] by blast+
qed

lemma b64_encode_Nil_iff [simp]: "b64_encode s = [] \<longleftrightarrow> s = []"
  by (cases s rule: b64_encode.cases) (simp_all add: Let_def)

end
