(* ===== verification/Go_Time.thy ===== *)
theory Go_Time
  imports Go_Text
begin

text \<open>
  Package \<open>time\<close>, as far as the program uses it. An instant is a number of
  nanoseconds since 1 January of year 1 (Go's zero \<open>Time\<close>); the location is
  UTC (\<^const>\<open>None\<close>, Go's nil location pointer) or some zone with its offset
  in seconds at that instant. Struct equality \<open>==\<close> on \<open>Time\<close> is equality
  of the record, \<open>Equal\<close> compares instants. Monotonic clock readings are left
  out: every reading of a clock in the program is passed through \<open>UTC()\<close>, which
  drops them.
\<close>

record gtime =
  t_ns :: int
  t_zone :: "int option"

type_synonym duration = int

definition second_ns :: int where "second_ns = 1000000000"
definition minute_ns :: int where "minute_ns = 60 * second_ns"
definition hour_ns :: int where "hour_ns = 60 * minute_ns"
definition day_ns :: int where "day_ns = 24 * hour_ns"

definition time_utc :: "gtime \<Rightarrow> gtime" where
  "time_utc t = t\<lparr>t_zone := None\<rparr>"

definition is_zero :: "gtime \<Rightarrow> bool" where
  "is_zero t \<longleftrightarrow> t_ns t = 0"

definition time_before :: "gtime \<Rightarrow> gtime \<Rightarrow> bool" where
  "time_before a b \<longleftrightarrow> t_ns a < t_ns b"

definition time_after :: "gtime \<Rightarrow> gtime \<Rightarrow> bool" where
  "time_after a b \<longleftrightarrow> t_ns b < t_ns a"

definition time_equal :: "gtime \<Rightarrow> gtime \<Rightarrow> bool" where
  "time_equal a b \<longleftrightarrow> t_ns a = t_ns b"

definition time_add :: "gtime \<Rightarrow> duration \<Rightarrow> gtime" where
  "time_add t d = t\<lparr>t_ns := t_ns t + d\<rparr>"

lemmas time_defs [go_defs] =
  time_utc_def is_zero_def time_before_def time_after_def time_equal_def time_add_def

text \<open>Seconds since 1970: \<open>Time.Unix()\<close> and \<open>time.Unix(sec, 0).UTC()\<close>.\<close>

definition unix_epoch :: int where "unix_epoch = 62135596800"

definition time_to_unix :: "gtime \<Rightarrow> int" where
  "time_to_unix t = t_ns t div second_ns - unix_epoch"

definition time_of_unix :: "int \<Rightarrow> gtime" where
  "time_of_unix s = \<lparr>t_ns = (s + unix_epoch) * second_ns, t_zone = None\<rparr>"

lemma time_to_unix_of_unix [simp]: "time_to_unix (time_of_unix s) = s"
  by (simp add: time_to_unix_def time_of_unix_def second_ns_def)

text \<open>Truncation to seconds never moves an instant forward, and by less than a second.\<close>

lemma time_of_unix_to_unix:
  "t_ns (time_of_unix (time_to_unix t)) \<le> t_ns t"
  "t_ns t < t_ns (time_of_unix (time_to_unix t)) + second_ns"
proof -
  have "t_ns (time_of_unix (time_to_unix t)) = t_ns t - t_ns t mod second_ns"
    by (simp add: time_of_unix_def time_to_unix_def minus_mod_eq_div_mult)
  moreover have "0 \<le> t_ns t mod second_ns" "t_ns t mod second_ns < second_ns"
    by (simp_all add: second_ns_def)
  ultimately show "t_ns (time_of_unix (time_to_unix t)) \<le> t_ns t"
    "t_ns t < t_ns (time_of_unix (time_to_unix t)) + second_ns"
    by simp_all
qed

lemma time_utc_simps [simp]:
  "t_ns (time_utc t) = t_ns t" "t_zone (time_utc t) = None" "time_utc (time_utc t) = time_utc t"
  "is_zero (time_utc t) = is_zero t"
  by (simp_all add: time_defs)

lemma time_utc_id: "time_utc t = t \<longleftrightarrow> t_zone t = None"
  by (cases t) (auto simp: time_utc_def)

section \<open>Calendar dates and RFC 3339 text\<close>

definition leap_year :: "int \<Rightarrow> bool" where
  "leap_year y \<longleftrightarrow> y mod 4 = 0 \<and> (y mod 100 \<noteq> 0 \<or> y mod 400 = 0)"

definition month_lengths :: "int \<Rightarrow> int list" where
  "month_lengths y =
     [31, if leap_year y then 29 else 28, 31, 30, 31, 30, 31, 31, 30, 31, 30, 31]"

fun month_day :: "int list \<Rightarrow> int \<Rightarrow> int \<Rightarrow> int \<times> int" where
  "month_day [] m d = (m, d + 1)"
| "month_day (l # ls) m d =
     (if d < l \<or> ls = [] then (m, d + 1) else month_day ls (m + 1) (d - l))"

text \<open>The year and the day of the year of a day number counted from year 1.\<close>

definition year_yday :: "int \<Rightarrow> int \<times> int" where
  "year_yday d =
     (let a = d div 146097; r = d mod 146097;
          b = min 3 (r div 36524); r = r - 36524 * b;
          c = r div 1461; r = r mod 1461;
          e = min 3 (r div 365)
      in (400 * a + 100 * b + 4 * c + e + 1, r - 365 * e))"

definition pad_digits :: "nat \<Rightarrow> int \<Rightarrow> string" where
  "pad_digits w n = (let s = dec_digits n in replicate (w - length s) CHR ''0'' @ s)"

definition pad_int :: "nat \<Rightarrow> int \<Rightarrow> string" where
  "pad_int w i = (if i < 0 then CHR ''-'' # pad_digits w (- i) else pad_digits w i)"

definition frac_text :: "int \<Rightarrow> string" where
  "frac_text ns =
     (if ns = 0 then []
      else CHR ''.'' # rev (dropWhile (\<lambda>c. c = CHR ''0'') (rev (pad_int 9 ns))))"

definition zone_text :: "int \<Rightarrow> string" where
  "zone_text off =
     (if off = 0 then ''Z''
      else (let m = \<bar>off\<bar> div 60
            in (if off < 0 then CHR ''-'' else CHR ''+'')
               # pad_int 2 (m div 60) @ '':'' @ pad_int 2 (m mod 60)))"

text \<open>\<open>t.Format(time.RFC3339Nano)\<close>.\<close>

definition rfc3339nano :: "gtime \<Rightarrow> string" where
  "rfc3339nano t =
     (let off = (case t_zone t of None \<Rightarrow> 0 | Some z \<Rightarrow> z);
          ns = t_ns t + off * second_ns;
          day = ns div day_ns; tod = ns mod day_ns;
          (y, yd) = year_yday day;
          (mo, d) = month_day (month_lengths y) 1 yd;
          sec = tod div second_ns
      in pad_int 4 y @ ''-'' @ pad_int 2 mo @ ''-'' @ pad_int 2 d @ ''T''
         @ pad_int 2 (sec div 3600) @ '':'' @ pad_int 2 (sec div 60 mod 60) @ '':''
         @ pad_int 2 (sec mod 60) @ frac_text (tod mod second_ns) @ zone_text off)"

end
