(* ===== verification/Capability.thy ===== *)
theory Capability
  imports Go_Time
begin

text \<open>
  Package \<open>capability\<close> (\<open>internal/capability/capability.go\<close>): the bearer
  handles that authorise every operation. An owner handle is the prefix
  \<open>are2.owner.\<close> and the base64 of the JSON of the owner's key material; an executor
  handle is \<open>are2.executor.\<close> and the base64 of its signed claims.

  JSON encoding of the two structs and Ed25519 are the fields of \<open>caplib\<close>, a
  parameter of the model; random bytes are arguments (\<^const>\<open>Inl\<close> when the
  generator fails). Fixed byte arrays are strings.
\<close>

section \<open>Types and library parameters\<close>

record owner =
  o_opaque_id :: string
  o_record_key :: string
  o_signing_seed :: string

record executor_claims =
  ec_opaque_id :: string
  ec_grant_id :: string
  ec_append_key :: string
  ec_expires_unix :: int
  ec_allowed_types :: "string list"
  ec_allowed_roots :: "string list"

record executor =
  x_opaque_id :: string
  x_grant_id :: string
  x_append_key :: string
  x_expires_unix :: int
  x_allowed_types :: "string list"
  x_allowed_roots :: "string list"
  x_signature :: string

record caplib =
  json_owner :: "owner \<Rightarrow> string"
  unjson_owner :: "string \<Rightarrow> owner option"
  json_executor :: "executor \<Rightarrow> string"
  unjson_executor :: "string \<Rightarrow> executor option"
  json_claims :: "executor_claims \<Rightarrow> string"
  ed_public :: "string \<Rightarrow> string"
  ed_sign :: "string \<Rightarrow> string \<Rightarrow> string"
  ed_verify :: "string \<Rightarrow> string \<Rightarrow> string \<Rightarrow> bool"

section \<open>Operations\<close>

definition ownerPrefix :: string where "ownerPrefix = ''are2.owner.''"
definition executorPrefix :: string where "executorPrefix = ''are2.executor.''"

definition signature_size :: nat where "signature_size = 64"

definition allZero :: "string \<Rightarrow> bool" where
  "allZero v \<longleftrightarrow> list_all (\<lambda>b. b = CHR 0x00) v"

fun sorted_unique_loop :: "string list \<Rightarrow> string list \<Rightarrow> string list" where
  "sorted_unique_loop seen [] = []"
| "sorted_unique_loop seen (v # vs) =
     (if v = [] then sorted_unique_loop seen vs
      else if v \<in> set seen then sorted_unique_loop seen vs
      else v # sorted_unique_loop (v # seen) vs)"

definition sortedUnique :: "string list \<Rightarrow> string list" where
  "sortedUnique values = sort_strings (sorted_unique_loop [] values)"

definition NewOwner :: "string res \<Rightarrow> string res \<Rightarrow> string res \<Rightarrow> owner res" where
  "NewOwner opaque key seed =
     and_then opaque (\<lambda>op.
     and_then key (\<lambda>k.
     and_then seed (\<lambda>sd.
     Inr \<lparr>o_opaque_id = b64_encode op, o_record_key = k, o_signing_seed = sd\<rparr>)))"

definition owner_string :: "'z caplib_scheme \<Rightarrow> owner \<Rightarrow> string" where
  "owner_string L ow = ownerPrefix @ b64_encode (json_owner L ow)"

definition decode_owner :: "'z caplib_scheme \<Rightarrow> string \<Rightarrow> owner option" where
  "decode_owner L raw = Option.bind (b64_decode raw) (unjson_owner L)"

definition ParseOwner :: "'z caplib_scheme \<Rightarrow> string \<Rightarrow> owner res" where
  "ParseOwner L raw =
     (if \<not> has_prefix raw ownerPrefix then Inl ErrAccessDenied
      else case decode_owner L (trim_prefix raw ownerPrefix) of
             None \<Rightarrow> Inl ErrAccessDenied
           | Some ow \<Rightarrow>
               if o_opaque_id ow = [] \<or> allZero (o_record_key ow) \<or> allZero (o_signing_seed ow)
               then Inl ErrAccessDenied else Inr ow)"

definition claims :: "executor \<Rightarrow> executor_claims" where
  "claims x = \<lparr>ec_opaque_id = x_opaque_id x, ec_grant_id = x_grant_id x,
     ec_append_key = x_append_key x, ec_expires_unix = x_expires_unix x,
     ec_allowed_types = x_allowed_types x, ec_allowed_roots = x_allowed_roots x\<rparr>"

definition NewExecutor ::
    "'z caplib_scheme \<Rightarrow> string res \<Rightarrow> string res \<Rightarrow> owner \<Rightarrow> gtime \<Rightarrow> string list \<Rightarrow> string list
     \<Rightarrow> executor res" where
  "NewExecutor L grant key ow expiresAt allowedTypes allowedRoots =
     and_then grant (\<lambda>g.
     and_then key (\<lambda>k.
       let x = \<lparr>x_opaque_id = o_opaque_id ow, x_grant_id = b64_encode g, x_append_key = k,
                x_expires_unix = time_to_unix (time_utc expiresAt),
                x_allowed_types = sortedUnique allowedTypes,
                x_allowed_roots = sortedUnique allowedRoots, x_signature = []\<rparr>
       in Inr (x\<lparr>x_signature := ed_sign L (o_signing_seed ow) (json_claims L (claims x))\<rparr>)))"

definition executor_string :: "'z caplib_scheme \<Rightarrow> executor \<Rightarrow> string" where
  "executor_string L x = executorPrefix @ b64_encode (json_executor L x)"

definition decode_executor :: "'z caplib_scheme \<Rightarrow> string \<Rightarrow> executor option" where
  "decode_executor L raw = Option.bind (b64_decode raw) (unjson_executor L)"

definition ParseExecutor :: "'z caplib_scheme \<Rightarrow> string \<Rightarrow> gtime \<Rightarrow> executor res" where
  "ParseExecutor L raw now =
     (if \<not> has_prefix raw executorPrefix then Inl ErrAccessDenied
      else case decode_executor L (trim_prefix raw executorPrefix) of
             None \<Rightarrow> Inl ErrAccessDenied
           | Some x \<Rightarrow>
               if x_opaque_id x = [] \<or> x_grant_id x = [] \<or> allZero (x_append_key x)
                  \<or> length (x_signature x) \<noteq> signature_size
               then Inl ErrAccessDenied
               else if \<not> time_before (time_utc now) (time_of_unix (x_expires_unix x))
               then Inl ErrAccessDenied
               else Inr x)"

definition executor_verify :: "'z caplib_scheme \<Rightarrow> executor \<Rightarrow> string \<Rightarrow> unit res" where
  "executor_verify L x public =
     (if \<not> ed_verify L public (json_claims L (claims x)) (x_signature x)
      then Inl ErrAccessDenied else Inr ())"

section \<open>Lemmas\<close>

lemma ParseOwner_denied: "ParseOwner L raw = Inl e \<Longrightarrow> e = ErrAccessDenied"
  by (auto simp: ParseOwner_def split: if_splits option.splits)

lemma ParseOwner_Inr:
  "ParseOwner L raw = Inr ow \<Longrightarrow>
     has_prefix raw ownerPrefix \<and> o_opaque_id ow \<noteq> [] \<and> \<not> allZero (o_record_key ow)
     \<and> \<not> allZero (o_signing_seed ow)"
  by (auto simp: ParseOwner_def split: if_splits option.splits)

lemma ParseExecutor_denied: "ParseExecutor L raw now = Inl e \<Longrightarrow> e = ErrAccessDenied"
  by (auto simp: ParseExecutor_def split: if_splits option.splits)

lemma ParseExecutor_Inr:
  "ParseExecutor L raw now = Inr x \<Longrightarrow>
     has_prefix raw executorPrefix \<and> x_opaque_id x \<noteq> [] \<and> x_grant_id x \<noteq> []
     \<and> t_ns now < t_ns (time_of_unix (x_expires_unix x))"
  by (auto simp: ParseExecutor_def time_before_def split: if_splits option.splits)

lemma prefixes_exclusive: "has_prefix raw ownerPrefix \<Longrightarrow> \<not> has_prefix raw executorPrefix"
  by (auto simp: has_prefix_def ownerPrefix_def executorPrefix_def prefix_def)

lemma trim_prefix_append [simp]: "trim_prefix (p @ s) p = s"
  by (simp add: go_defs)

lemma has_prefix_append [simp]: "has_prefix (p @ s) p"
  by (simp add: go_defs)

lemma set_sorted_unique_loop:
  "set (sorted_unique_loop seen vs) = set vs - {[]} - set seen"
  by (induction seen vs rule: sorted_unique_loop.induct) auto

lemma distinct_sorted_unique_loop: "distinct (sorted_unique_loop seen vs)"
  by (induction seen vs rule: sorted_unique_loop.induct) (auto simp: set_sorted_unique_loop)

lemma claims_signature [simp]: "claims (x\<lparr>x_signature := sg\<rparr>) = claims x"
  by (simp add: claims_def)

lemma NewExecutor_fields:
  assumes "NewExecutor L grant key ow expiresAt types roots = Inr x"
  shows "\<exists>g k. grant = Inr g \<and> key = Inr k \<and> x_grant_id x = b64_encode g \<and> x_append_key x = k"
    and "x_opaque_id x = o_opaque_id ow"
    and "x_expires_unix x = time_to_unix expiresAt"
    and "x_allowed_types x = sortedUnique types" "x_allowed_roots x = sortedUnique roots"
    and "x_signature x = ed_sign L (o_signing_seed ow) (json_claims L (claims x))"
  using assms by (auto simp: NewExecutor_def res_simps Let_def time_to_unix_def claims_def)

text \<open>Concrete key material and library functions, for the witnesses.\<close>

definition demo_owner :: owner where
  "demo_owner = \<lparr>o_opaque_id = ''b3duZXI'', o_record_key = replicate 32 (CHR ''k''),
     o_signing_seed = replicate 32 (CHR ''s'')\<rparr>"

definition demo_executor :: executor where
  "demo_executor = \<lparr>x_opaque_id = ''b3duZXI'', x_grant_id = b64_encode ''g'',
     x_append_key = replicate 32 (CHR ''a''), x_expires_unix = 60, x_allowed_types = [''command_started''],
     x_allowed_roots = [''workspace''], x_signature = replicate 64 (CHR ''#'')\<rparr>"

definition demo_caplib :: caplib where
  "demo_caplib = \<lparr>json_owner = (\<lambda>_. ''o''), unjson_owner = (\<lambda>_. Some demo_owner),
     json_executor = (\<lambda>_. ''x''), unjson_executor = (\<lambda>_. Some demo_executor),
     json_claims = (\<lambda>_. ''c''), ed_public = (\<lambda>_. ''p''),
     ed_sign = (\<lambda>_ _. replicate 64 (CHR ''#'')), ed_verify = (\<lambda>_ _ _. True)\<rparr>"

definition demo_executor_handle :: string where
  "demo_executor_handle = executorPrefix @ b64_encode ''x''"

lemmas demo_cap_defs = demo_owner_def demo_executor_def demo_caplib_def demo_executor_handle_def

lemma demo_executor_parses:
  "ParseExecutor demo_caplib demo_executor_handle (time_of_unix 0) = Inr demo_executor"
  by (simp add: ParseExecutor_def decode_executor_def demo_cap_defs b64_decode_encode allZero_def
      list_all_iff signature_size_def time_before_def time_of_unix_def second_ns_def del: b64_encode.simps)

section \<open>Properties\<close>

text \<open>
  No string is both an owner handle and an executor handle, at any time: a delegated
  executor capability can never be used where an owner capability is required.
\<close>

theorem handles_exclusive:
  assumes "is_ok (ParseExecutor L raw now)"
  shows "ParseOwner L raw = Inl ErrAccessDenied"
proof -
  from assms obtain x where "ParseExecutor L raw now = Inr x" by (rule is_okE)
  then have "\<not> has_prefix raw ownerPrefix"
    using prefixes_exclusive ParseExecutor_Inr by blast
  then show ?thesis by (simp add: ParseOwner_def)
qed

theorem handles_exclusive_witness:
  "is_ok (ParseExecutor demo_caplib demo_executor_handle (time_of_unix 0))
   \<and> ParseOwner demo_caplib demo_executor_handle = Inl ErrAccessDenied"
proof -
  have h: "is_ok (ParseExecutor demo_caplib demo_executor_handle (time_of_unix 0))"
    by (simp add: demo_executor_parses)
  then show ?thesis using handles_exclusive [OF h] by simp
qed

text \<open>
  The handle printed for an owner parses back to exactly that owner's key material,
  provided JSON decodes what it encoded, the identifier is not empty and neither key is
  all zero bytes.
\<close>

theorem owner_handle_roundtrip:
  assumes "unjson_owner L (json_owner L ow) = Some ow"
    and "o_opaque_id ow \<noteq> []" "\<not> allZero (o_record_key ow)" "\<not> allZero (o_signing_seed ow)"
  shows "ParseOwner L (owner_string L ow) = Inr ow"
  using assms by (simp add: ParseOwner_def owner_string_def decode_owner_def b64_decode_encode)

theorem owner_handle_roundtrip_witness:
  "ParseOwner demo_caplib (owner_string demo_caplib demo_owner) = Inr demo_owner"
  by (rule owner_handle_roundtrip) (simp_all add: demo_cap_defs allZero_def list_all_iff)

text \<open>
  C35: A freshly minted executor handle parses back to the minted executor strictly before
  its expiry (truncated to whole seconds), carries a signature that verifies under the
  owner's public key, names the owner's task, and allows exactly the non-empty requested
  types and roots. Relied on: JSON decodes what it encoded, Ed25519 signatures have 64 bytes and
  verify under the matching public key, and the random grant and key are not degenerate.
\<close>

theorem minted_executor_accepted:
  assumes new: "NewExecutor L (Inr g) (Inr k) ow expiresAt types roots = Inr x"
    and rnd: "g \<noteq> []" "\<not> allZero k" and ow: "o_opaque_id ow \<noteq> []"
    and json: "unjson_executor L (json_executor L x) = Some x"
    and sig: "\<And>seed m. length (ed_sign L seed m) = signature_size"
      "\<And>seed m. ed_verify L (ed_public L seed) m (ed_sign L seed m)"
    and now: "t_ns now < t_ns (time_of_unix (time_to_unix expiresAt))"
  shows "ParseExecutor L (executor_string L x) now = Inr x
    \<and> executor_verify L x (ed_public L (o_signing_seed ow)) = Inr ()
    \<and> x_opaque_id x = o_opaque_id ow
    \<and> set (x_allowed_types x) = set types - {[]} \<and> set (x_allowed_roots x) = set roots - {[]}"
proof -
  note f = NewExecutor_fields [OF new]
  have "ParseExecutor L (executor_string L x) now = Inr x"
    using f(1) rnd ow json sig(1) now
    by (simp add: ParseExecutor_def executor_string_def decode_executor_def b64_decode_encode
        f(2,3) f(6) time_before_def)
  moreover have "executor_verify L x (ed_public L (o_signing_seed ow)) = Inr ()"
    by (simp add: executor_verify_def f(6) sig(2))
  ultimately show ?thesis
    by (simp add: f(2,4,5) sortedUnique_def set_sorted_unique_loop)
qed

theorem minted_executor_accepted_witness:
  "ParseExecutor demo_caplib (executor_string demo_caplib demo_executor) (time_of_unix 0)
     = Inr demo_executor
   \<and> executor_verify demo_caplib demo_executor (ed_public demo_caplib (o_signing_seed demo_owner))
     = Inr ()
   \<and> x_opaque_id demo_executor = o_opaque_id demo_owner
   \<and> set (x_allowed_types demo_executor) = set [''command_started'', []] - {[]}
   \<and> set (x_allowed_roots demo_executor) = set [''workspace''] - {[]}"
proof (rule minted_executor_accepted)
  show "NewExecutor demo_caplib (Inr ''g'') (Inr (replicate 32 (CHR ''a''))) demo_owner (time_of_unix 60)
      [''command_started'', []] [''workspace''] = Inr demo_executor"
    by (simp add: NewExecutor_def demo_cap_defs sortedUnique_def sort_strings_def
        time_utc_def time_to_unix_def time_of_unix_def second_ns_def)
  show "t_ns (time_of_unix 0) < t_ns (time_of_unix (time_to_unix (time_of_unix 60)))"
    by (simp only: time_to_unix_of_unix) (simp add: time_of_unix_def second_ns_def)
qed (simp_all add: demo_cap_defs allZero_def list_all_iff signature_size_def)

text \<open>
  Expiry is final: a string that parses as an executor handle at some time parses to
  the same executor at every earlier time, so a handle refused once because of its expiry
  is refused at every later time.
\<close>

theorem executor_expiry_final:
  assumes "ParseExecutor L raw later = Inr x" and "t_ns now \<le> t_ns later"
  shows "ParseExecutor L raw now = Inr x"
  using assms by (auto simp: ParseExecutor_def time_before_def split: if_splits option.splits)

theorem executor_expiry_final_witness:
  "ParseExecutor demo_caplib demo_executor_handle (time_of_unix (-5)) = Inr demo_executor"
  by (rule executor_expiry_final [OF demo_executor_parses])
    (simp add: time_of_unix_def second_ns_def)

text \<open>
  \<open>sortedUnique\<close> returns its distinct non-empty inputs in increasing byte order.
\<close>

theorem sortedUnique_correct:
  "set (sortedUnique vs) = set vs - {[]} \<and> distinct (sortedUnique vs) \<and> sorted (sortedUnique vs)"
  by (simp add: sortedUnique_def set_sorted_unique_loop distinct_sorted_unique_loop
      sorted_sort_strings)

end
