(* ===== verification/Contract.thy ===== *)
theory Contract
  imports Go_Time
begin

text \<open>
  Package \<open>contract\<close>: the data exchanged between the components
  (\<open>internal/contract/types.go\<close>) and its validation
  (\<open>internal/contract/validate.go\<close>). A string-typed enumeration of the source is
  a datatype with the declared constants and one constructor for any other string a
  caller may send. \<open>nil\<close> pointers are \<^const>\<open>None\<close>; nil and empty slices are
  both \<^term>\<open>[]\<close>.
\<close>

section \<open>Types\<close>

definition EventSchemaVersion :: string where
  "EventSchemaVersion = ''agent-task-event/2.0''"

definition ReportSchemaVersion :: string where
  "ReportSchemaVersion = ''agent-residue-report/2.0''"

datatype observation_mode =
    ObservationManaged | ObservationGuided | ObservationRetrospective
  | ObservationOther string

datatype recovery_profile =
    RecoveryRecoverable | RecoveryEphemeral | RecoveryOther string

datatype task_state = TaskActive | TaskCompleted | TaskInterrupted | TaskExpired

datatype event_type =
    EventCommandStarted | EventCommandCompleted | EventProcessStarted | EventProcessExited
  | EventArtifactDeclared | EventTestPhaseStarted | EventTestPhaseCompleted
  | EventCleanupAttempted | EventOther string

datatype candidate_kind =
    CandidateFile | CandidateDirectory | CandidateProcess | CandidatePort
  | CandidateKindOther string

datatype evidence_level =
    EvidenceBaselineObserved | EvidenceEventBound | EvidenceReceiptBound
  | EvidenceInferred | EvidenceUnattributed | EvidenceOther string

datatype current_status =
    StatusPresent | StatusActiveReference | StatusNoLongerPresent
  | StatusChangedSinceReport | StatusUnknown | StatusOther string

datatype report_status =
    ReportNoCandidates | ReportReviewRequired | ReportPartialEvidence
  | ReportInterruptedTask | ReportObservationFailed | ReportStatusOther string

text \<open>Conversions of the constants back to the strings they stand for.\<close>

fun event_type_string :: "event_type \<Rightarrow> string" where
  "event_type_string EventCommandStarted = ''command_started''"
| "event_type_string EventCommandCompleted = ''command_completed''"
| "event_type_string EventProcessStarted = ''process_started''"
| "event_type_string EventProcessExited = ''process_exited''"
| "event_type_string EventArtifactDeclared = ''artifact_declared''"
| "event_type_string EventTestPhaseStarted = ''test_phase_started''"
| "event_type_string EventTestPhaseCompleted = ''test_phase_completed''"
| "event_type_string EventCleanupAttempted = ''cleanup_attempted''"
| "event_type_string (EventOther s) = s"

fun candidate_kind_string :: "candidate_kind \<Rightarrow> string" where
  "candidate_kind_string CandidateFile = ''file''"
| "candidate_kind_string CandidateDirectory = ''directory''"
| "candidate_kind_string CandidateProcess = ''process''"
| "candidate_kind_string CandidatePort = ''port''"
| "candidate_kind_string (CandidateKindOther s) = s"

record task_scope =
  s_task_id :: string
  s_workspace :: string
  s_temp_roots :: "string list"
  s_observation_mode :: observation_mode
  s_recovery_profile :: recovery_profile

record process_identity =
  pi_pid :: int
  pi_created_at :: gtime

record port_identity =
  po_protocol :: string
  po_address :: string
  po_number :: int

record task_event =
  e_schema_version :: string
  e_task_id :: string
  e_event_id :: string
  e_type :: event_type
  e_timestamp :: gtime
  e_working_dir :: string
  e_command_fingerprint :: string
  e_exit_code :: "int option"
  e_process :: "process_identity option"
  e_declared_outputs :: "string list"
  e_receipt_id :: string

record candidate =
  c_id :: string
  c_kind :: candidate_kind
  c_path :: string
  c_object_identity :: string
  c_process :: "process_identity option"
  c_parent_pid :: int
  c_port :: "port_identity option"
  c_size_bytes :: int
  c_evidence_level :: evidence_level
  c_current_status :: current_status
  c_reason :: string
  c_recommendation :: string
  c_event_ids :: "string list"
  c_receipt_ids :: "string list"
  c_limitations :: "string list"
  c_conflicts :: "string list"

record report =
  r_schema_version :: string
  r_report_id :: string
  r_task_id :: string
  r_observation_mode :: observation_mode
  r_status :: report_status
  r_created_at :: gtime
  r_verified_at :: "gtime option"
  r_candidates :: "candidate list"
  r_limitations :: "string list"

record verification_revision =
  v_revision :: int
  v_created_at :: gtime
  v_previous_digest :: string
  v_digest :: string
  v_candidates :: "candidate list"
  v_limitations :: "string list"

record candidate_group =
  g_id :: string
  g_kind :: candidate_kind
  g_path :: string
  g_evidence_level :: evidence_level
  g_current_status :: current_status
  g_descendant_count :: int
  g_aggregate_size_bytes :: int
  g_sample_paths :: "string list"

record candidate_page =
  p_items :: "candidate_group list"
  p_total :: int
  p_next_cursor :: string

text \<open>The empty string is the absent mode or profile of a decoded scope.\<close>

definition ValidateMetadata :: "task_scope \<Rightarrow> unit res" where
  "ValidateMetadata scope =
     (case s_observation_mode scope of
        ObservationOther m \<Rightarrow>
          if m \<noteq> [] then Inl (Errorf [Lit ''invalid observation mode '', Quoted m])
          else (case s_recovery_profile scope of
                  RecoveryOther p \<Rightarrow>
                    if p \<noteq> [] then Inl (Errorf [Lit ''invalid recovery profile '', Quoted p])
                    else Inr ()
                | _ \<Rightarrow> Inr ())
      | _ \<Rightarrow> (case s_recovery_profile scope of
                RecoveryOther p \<Rightarrow>
                  if p \<noteq> [] then Inl (Errorf [Lit ''invalid recovery profile '', Quoted p])
                  else Inr ()
              | _ \<Rightarrow> Inr ()))"

section \<open>Validation\<close>

definition validID :: "string \<Rightarrow> bool" where
  "validID v \<longleftrightarrow> v \<noteq> [] \<and> length v \<le> 256"

fun validEventType :: "event_type \<Rightarrow> bool" where
  "validEventType (EventOther s) = False"
| "validEventType _ = True"

fun validCandidateKind :: "candidate_kind \<Rightarrow> bool" where
  "validCandidateKind (CandidateKindOther s) = False"
| "validCandidateKind _ = True"

fun validEvidenceLevel :: "evidence_level \<Rightarrow> bool" where
  "validEvidenceLevel (EvidenceOther s) = False"
| "validEvidenceLevel _ = True"

fun validCurrentStatus :: "current_status \<Rightarrow> bool" where
  "validCurrentStatus (StatusOther s) = False"
| "validCurrentStatus _ = True"

fun validReportStatus :: "report_status \<Rightarrow> bool" where
  "validReportStatus (ReportStatusOther s) = False"
| "validReportStatus _ = True"

text \<open>The pattern \<open>^sha256:[0-9a-f]{64}$\<close>.\<close>

definition fingerprint_match :: "string \<Rightarrow> bool" where
  "fingerprint_match s \<longleftrightarrow>
     has_prefix s ''sha256:'' \<and> length s = 71 \<and>
     list_all (\<lambda>c. c \<in> set ''0123456789abcdef'') (drop 7 s)"

text \<open>
  \<open>TaskEvent.Validate\<close>. \<open>Location()\<close> is never nil, so the second half of the
  timestamp guard is \<open>e.Timestamp.UTC() != e.Timestamp\<close>, a comparison of structs.
\<close>

definition validate_event :: "task_event \<Rightarrow> unit res" where
  "validate_event e =
     (if e_schema_version e \<noteq> EventSchemaVersion then
        Inl (Errorf [Lit ''unsupported schema_version '', Quoted (e_schema_version e)])
      else if \<not> validID (e_task_id e) \<or> \<not> validID (e_event_id e) then
        Inl (errors_new ''task_id and event_id must be non-empty bounded identifiers'')
      else if \<not> validEventType (e_type e) then
        Inl (Errorf [Lit ''unsupported event type '', Quoted (event_type_string (e_type e))])
      else if is_zero (e_timestamp e) \<or> time_utc (e_timestamp e) \<noteq> e_timestamp e then
        Inl (errors_new ''timestamp must be a non-zero UTC value'')
      else if length (e_working_dir e) > 4096 \<or> length (e_command_fingerprint e) > 256
              \<or> length (e_receipt_id e) > 256 then
        Inl (errors_new ''event field exceeds size limit'')
      else if e_command_fingerprint e \<noteq> [] \<and> \<not> fingerprint_match (e_command_fingerprint e) then
        Inl (errors_new ''command_fingerprint must use sha256'')
      else if (case e_process e of None \<Rightarrow> False
               | Some p \<Rightarrow> pi_pid p \<le> 0 \<or> is_zero (pi_created_at p)) then
        Inl (errors_new ''process identity requires a positive pid and creation time'')
      else if length (e_declared_outputs e) > 128 then
        Inl (errors_new ''declared_outputs exceeds size limit'')
      else if \<exists>output \<in> set (e_declared_outputs e). output = [] \<or> length output > 4096 then
        Inl (errors_new ''declared output is invalid'')
      else Inr ())"

definition validate_candidate :: "candidate \<Rightarrow> unit res" where
  "validate_candidate c =
     (if \<not> validID (c_id c) then Inl (errors_new ''candidate id is invalid'')
      else if \<not> validCandidateKind (c_kind c) \<or> \<not> validEvidenceLevel (c_evidence_level c)
              \<or> \<not> validCurrentStatus (c_current_status c) then
        Inl (errors_new ''candidate enum is invalid'')
      else if c_recommendation c \<noteq> [] \<and> c_recommendation c \<noteq> ''review'' then
        Inl (errors_new ''recommendation must be empty or review'')
      else if c_size_bytes c < 0 then Inl (errors_new ''size_bytes cannot be negative'')
      else if (case c_process c of None \<Rightarrow> False
               | Some p \<Rightarrow> pi_pid p \<le> 0 \<or> is_zero (pi_created_at p)) then
        Inl (errors_new ''candidate process identity is invalid'')
      else if c_parent_pid c < 0 then
        Inl (errors_new ''candidate parent_pid cannot be negative'')
      else if (case c_port c of None \<Rightarrow> False
               | Some p \<Rightarrow> po_protocol p \<noteq> ''tcp'' \<or> po_address p = [] \<or> po_number p \<le> 0
                          \<or> po_number p > 65535) then
        Inl (errors_new ''candidate port identity is invalid'')
      else if (c_kind c = CandidateProcess \<and> c_process c = None)
              \<or> (c_kind c = CandidatePort \<and> (c_process c = None \<or> c_port c = None)) then
        Inl (errors_new ''process and port candidates require stable identities'')
      else if length (c_event_ids c) > 128 \<or> length (c_receipt_ids c) > 128 then
        Inl (errors_new ''candidate provenance exceeds size limit'')
      else if \<exists>i \<in> set (c_event_ids c @ c_receipt_ids c). \<not> validID i then
        Inl (errors_new ''candidate provenance id is invalid'')
      else Inr ())"

fun validate_candidates :: "int \<Rightarrow> candidate list \<Rightarrow> unit res" where
  "validate_candidates i [] = Inr ()"
| "validate_candidates i (c # cs) =
     (case validate_candidate c of
        Inl e \<Rightarrow> Inl (Errorf [Lit (''candidate '' @ itoa i @ '': ''), Wrapped e])
      | Inr _ \<Rightarrow> validate_candidates (i + 1) cs)"

definition validate_report :: "report \<Rightarrow> unit res" where
  "validate_report r =
     (if r_schema_version r \<noteq> ReportSchemaVersion \<or> \<not> validID (r_report_id r)
         \<or> \<not> validID (r_task_id r) then
        Inl (errors_new ''report identity or schema is invalid'')
      else if \<not> validReportStatus (r_status r) \<or> is_zero (r_created_at r) then
        Inl (errors_new ''report status or timestamp is invalid'')
      else validate_candidates 0 (r_candidates r))"

text \<open>
  \<open>DecodeTaskEvent\<close>: the JSON decoder is a parameter giving the first decoded event
  and what a second \<open>Decode\<close> on the same stream yields.
\<close>

datatype stream_rest = AtEOF | MoreJSON | BadJSON err

definition ensureEOF :: "stream_rest \<Rightarrow> unit res" where
  "ensureEOF r =
     (case r of AtEOF \<Rightarrow> Inr ()
      | MoreJSON \<Rightarrow> Inl (errors_new ''multiple JSON values are not allowed'')
      | BadJSON e \<Rightarrow> Inl e)"

definition DecodeTaskEvent ::
    "(string \<Rightarrow> (task_event \<times> stream_rest) res) \<Rightarrow> string \<Rightarrow> task_event res" where
  "DecodeTaskEvent decode raw =
     and_then (decode raw) (\<lambda>(event, rest).
     and_then (ensureEOF rest) (\<lambda>_.
     and_then (validate_event event) (\<lambda>_. Inr event)))"

section \<open>What validation accepts\<close>

definition event_ok :: "task_event \<Rightarrow> bool" where
  "event_ok e \<longleftrightarrow>
     e_schema_version e = EventSchemaVersion \<and> validID (e_task_id e) \<and> validID (e_event_id e)
     \<and> validEventType (e_type e) \<and> t_ns (e_timestamp e) \<noteq> 0 \<and> t_zone (e_timestamp e) = None
     \<and> length (e_working_dir e) \<le> 4096 \<and> length (e_receipt_id e) \<le> 256
     \<and> (e_command_fingerprint e = [] \<or> fingerprint_match (e_command_fingerprint e))
     \<and> (\<forall>p. e_process e = Some p \<longrightarrow> 0 < pi_pid p \<and> t_ns (pi_created_at p) \<noteq> 0)
     \<and> length (e_declared_outputs e) \<le> 128
     \<and> (\<forall>d \<in> set (e_declared_outputs e). d \<noteq> [] \<and> length d \<le> 4096)"

lemma fingerprint_match_length: "fingerprint_match s \<Longrightarrow> length s = 71"
  by (simp add: fingerprint_match_def)

lemma validate_event_iff: "validate_event e = Inr () \<longleftrightarrow> event_ok e"
  by (auto simp: validate_event_def event_ok_def is_zero_def time_utc_id not_less not_le
      dest: fingerprint_match_length split: option.splits)

definition candidate_ok :: "candidate \<Rightarrow> bool" where
  "candidate_ok c \<longleftrightarrow>
     validID (c_id c) \<and> validCandidateKind (c_kind c) \<and> validEvidenceLevel (c_evidence_level c)
     \<and> validCurrentStatus (c_current_status c)
     \<and> (c_recommendation c = [] \<or> c_recommendation c = ''review'') \<and> 0 \<le> c_size_bytes c
     \<and> (\<forall>p. c_process c = Some p \<longrightarrow> 0 < pi_pid p \<and> t_ns (pi_created_at p) \<noteq> 0)
     \<and> 0 \<le> c_parent_pid c
     \<and> (\<forall>p. c_port c = Some p \<longrightarrow> po_protocol p = ''tcp'' \<and> po_address p \<noteq> []
            \<and> 0 < po_number p \<and> po_number p \<le> 65535)
     \<and> (c_kind c = CandidateProcess \<longrightarrow> c_process c \<noteq> None)
     \<and> (c_kind c = CandidatePort \<longrightarrow> c_process c \<noteq> None \<and> c_port c \<noteq> None)
     \<and> length (c_event_ids c) \<le> 128 \<and> length (c_receipt_ids c) \<le> 128
     \<and> (\<forall>i \<in> set (c_event_ids c) \<union> set (c_receipt_ids c). validID i)"

lemma validate_candidate_iff: "validate_candidate c = Inr () \<longleftrightarrow> candidate_ok c"
  by (auto simp: validate_candidate_def candidate_ok_def is_zero_def not_less not_le
      split: option.splits)

lemma validate_candidates_iff: "validate_candidates i cs = Inr () \<longleftrightarrow> list_all candidate_ok cs"
proof (induction cs arbitrary: i)
  case (Cons c cs)
  then show ?case
    using validate_candidate_iff [of c] by (cases "validate_candidate c") auto
qed simp

lemma validate_report_iff:
  "validate_report r = Inr () \<longleftrightarrow>
     r_schema_version r = ReportSchemaVersion \<and> validID (r_report_id r) \<and> validID (r_task_id r)
     \<and> validReportStatus (r_status r) \<and> t_ns (r_created_at r) \<noteq> 0
     \<and> list_all candidate_ok (r_candidates r)"
  by (auto simp: validate_report_def validate_candidates_iff is_zero_def)

lemma ensureEOF_iff: "ensureEOF r = Inr () \<longleftrightarrow> r = AtEOF"
  by (cases r) (auto simp: ensureEOF_def)

lemma DecodeTaskEvent_ok:
  "DecodeTaskEvent decode raw = Inr e \<longleftrightarrow> decode raw = Inr (e, AtEOF) \<and> event_ok e"
  by (auto simp: DecodeTaskEvent_def res_simps validate_event_iff ensureEOF_iff)

end
