(* ===== verification/Go_Path.thy ===== *)
theory Go_Path
  imports Go_Text
begin

text \<open>
  Package \<open>path/filepath\<close> on Unix: \<open>Clean\<close>, \<open>IsAbs\<close>, \<open>Join\<close>,
  \<open>Rel\<close>, \<open>Dir\<close>, \<open>Ext\<close> and \<open>Abs\<close>. A cleaned absolute path is
  \<open>abs_path cs\<close> for a list \<open>cs\<close> of proper components; on such paths
  \<open>Rel\<close>, \<open>Join\<close> and the program's containment tests become operations on
  component lists, which is what the later theories reason with.
\<close>

abbreviation sep :: char where "sep \<equiv> CHR ''/''"

definition path_parts :: "string \<Rightarrow> string list" where
  "path_parts p = split_on (\<lambda>c. c = sep) p"

text \<open>One component of the input pushed on (the reverse of) the output of \<open>Clean\<close>.\<close>

definition clean_step :: "bool \<Rightarrow> string \<Rightarrow> string list \<Rightarrow> string list" where
  "clean_step rooted c st =
     (if c = [] \<or> c = ''.'' then st
      else if c = ''..'' then
        (case st of
           d # rest \<Rightarrow> if d \<noteq> ''..'' then rest else if rooted then st else c # st
         | [] \<Rightarrow> if rooted then [] else [c])
      else c # st)"

definition clean_parts :: "bool \<Rightarrow> string list \<Rightarrow> string list" where
  "clean_parts rooted ps = rev (fold (clean_step rooted) ps [])"

definition is_abs :: "string \<Rightarrow> bool" where
  "is_abs p \<longleftrightarrow> has_prefix p [sep]"

definition abs_path :: "string list \<Rightarrow> string" where
  "abs_path cs = sep # join_with sep cs"

definition path_clean :: "string \<Rightarrow> string" where
  "path_clean p =
     (if p = [] then ''.''
      else (let out = clean_parts (is_abs p) (path_parts p)
            in if is_abs p then abs_path out
               else if out = [] then ''.'' else join_with sep out))"

definition path_join :: "string \<Rightarrow> string \<Rightarrow> string" where
  "path_join a b =
     (if a = [] \<and> b = [] then []
      else path_clean (join_with sep (filter (\<lambda>e. e \<noteq> []) [a, b])))"

fun strip_common :: "string list \<Rightarrow> string list \<Rightarrow> string list \<times> string list" where
  "strip_common (b # bs) (t # ts) = (if b = t then strip_common bs ts else (b # bs, t # ts))"
| "strip_common bs ts = (bs, ts)"

definition rel_parts :: "string \<Rightarrow> string list" where
  "rel_parts p = filter (\<lambda>c. c \<noteq> []) (path_parts p)"

definition path_rel :: "string \<Rightarrow> string \<Rightarrow> string res" where
  "path_rel basepath targpath =
     (let base = path_clean basepath; targ = path_clean targpath;
          fail = errors_new (''Rel: can't make '' @ targpath @ '' relative to '' @ basepath)
      in if targ = base then Inr ''.''
         else (let base = (if base = ''.'' then [] else base)
               in if is_abs base \<noteq> is_abs targ then Inl fail
                  else (let (bs, ts) = strip_common (rel_parts base) (rel_parts targ)
                        in if bs \<noteq> [] \<and> hd bs = ''..'' then Inl fail
                           else Inr (join_with sep (replicate (length bs) ''..'' @ ts)))))"

definition path_dir :: "string \<Rightarrow> string" where
  "path_dir p = path_clean (rev (dropWhile (\<lambda>c. c \<noteq> sep) (rev p)))"

definition path_ext :: "string \<Rightarrow> string" where
  "path_ext p =
     (let tl = rev (takeWhile (\<lambda>c. c \<noteq> sep) (rev p));
          e = rev (takeWhile (\<lambda>c. c \<noteq> CHR ''.'') (rev tl))
      in if CHR ''.'' \<in> set tl then CHR ''.'' # e else [])"

definition path_abs :: "string res \<Rightarrow> string \<Rightarrow> string res" where
  "path_abs cwd p =
     (if is_abs p then Inr (path_clean p)
      else and_then cwd (\<lambda>wd. Inr (path_join wd p)))"

text \<open>
  The containment test the program repeats in four packages: \<open>rel\<close> is neither
  \<open>..\<close> nor starts with \<open>../\<close>.
\<close>

definition escapes :: "string \<Rightarrow> bool" where
  "escapes r \<longleftrightarrow> r = ''..'' \<or> has_prefix r (''..'' @ [sep])"

section \<open>Components\<close>

definition proper :: "string \<Rightarrow> bool" where
  "proper c \<longleftrightarrow> c \<noteq> [] \<and> c \<noteq> ''.'' \<and> c \<noteq> ''..'' \<and> sep \<notin> set c"

lemma is_abs_abs_path [simp]: "is_abs (abs_path cs)" "abs_path cs \<noteq> []"
  by (simp_all add: is_abs_def abs_path_def go_defs)

lemma clean_step_proper [simp]: "proper c \<Longrightarrow> clean_step rooted c st = c # st"
  by (simp add: clean_step_def proper_def)

lemma fold_clean_proper:
  "list_all proper cs \<Longrightarrow> fold (clean_step rooted) cs st = rev cs @ st"
  by (induction cs arbitrary: st) auto

lemma path_parts_sep [simp]: "path_parts (sep # s) = [] # path_parts s"
  by (simp add: path_parts_def)

lemma proper_no_sep: "list_all proper cs \<Longrightarrow> \<forall>w \<in> set cs. sep \<notin> set w"
  by (auto simp: list_all_iff proper_def)

lemma path_parts_join: "cs \<noteq> [] \<Longrightarrow> list_all proper cs \<Longrightarrow> path_parts (join_with sep cs) = cs"
  using proper_no_sep by (simp add: path_parts_def split_on_join_with)

lemma path_parts_abs_path:
  "list_all proper cs \<Longrightarrow> path_parts (abs_path cs) = [] # (if cs = [] then [[]] else cs)"
  by (auto simp: abs_path_def path_parts_join) (simp add: path_parts_def)

lemma clean_step_Nil [simp]: "clean_step rooted [] st = st"
  by (simp add: clean_step_def)

text \<open>A cleaned absolute path is its own cleaning.\<close>

lemma path_clean_abs_path [simp]: "list_all proper cs \<Longrightarrow> path_clean (abs_path cs) = abs_path cs"
  by (auto simp: path_clean_def path_parts_abs_path clean_parts_def fold_clean_proper)

lemma fold_clean_rooted:
  "list_all proper st \<Longrightarrow> \<forall>c \<in> set ps. sep \<notin> set c \<Longrightarrow> list_all proper (fold (clean_step True) ps st)"
proof (induction ps arbitrary: st)
  case (Cons c ps)
  have "list_all proper (clean_step True c st)"
    using Cons.prems
    by (auto simp: clean_step_def proper_def list_all_iff split: list.splits)
  with Cons show ?case by simp
qed simp

lemma is_abs_not_Nil: "is_abs p \<Longrightarrow> p \<noteq> []"
  by (auto simp: is_abs_def has_prefix_def)

text \<open>Every absolute path cleans to some list of proper components.\<close>

lemma path_clean_is_abs:
  assumes "is_abs p"
  obtains cs where "list_all proper cs" "path_clean p = abs_path cs"
proof
  show "list_all proper (clean_parts True (path_parts p))"
    unfolding clean_parts_def list_all_rev path_parts_def
    by (rule fold_clean_rooted) (auto dest: split_on_parts)
  show "path_clean p = abs_path (clean_parts True (path_parts p))"
    using assms is_abs_not_Nil [OF assms] by (simp add: path_clean_def)
qed

lemma path_clean_idem_abs: "is_abs p \<Longrightarrow> path_clean (path_clean p) = path_clean p"
  by (metis path_clean_is_abs path_clean_abs_path)

lemma is_abs_path_clean [simp]: "is_abs p \<Longrightarrow> is_abs (path_clean p)"
  by (metis path_clean_is_abs is_abs_abs_path(1))

lemma abs_path_inject:
  assumes "list_all proper cs" "list_all proper ds"
  shows "abs_path cs = abs_path ds \<longleftrightarrow> cs = ds"
proof
  assume eq: "abs_path cs = abs_path ds"
  have "rel_parts (abs_path es) = es" if "list_all proper es" for es
    using that by (auto simp: rel_parts_def path_parts_abs_path list_all_iff proper_def
        intro: filter_True)
  with assms eq show "cs = ds" by metis
qed simp

lemma rel_parts_abs_path [simp]: "list_all proper cs \<Longrightarrow> rel_parts (abs_path cs) = cs"
  by (auto simp: rel_parts_def path_parts_abs_path list_all_iff proper_def intro: filter_True)

lemma path_abs_is_clean:
  assumes "path_abs cwd p = Inr a" "\<And>wd. cwd = Inr wd \<Longrightarrow> is_abs wd"
  obtains cs where "list_all proper cs" "a = abs_path cs"
proof (cases "is_abs p")
  case True
  with assms(1) show ?thesis by (auto simp: path_abs_def intro: path_clean_is_abs that)
next
  case False
  with assms obtain wd where wd: "cwd = Inr wd" "is_abs wd" "a = path_join wd p"
    by (auto simp: path_abs_def res_simps)
  then have "is_abs (join_with sep (filter (\<lambda>e. e \<noteq> []) [wd, p]))"
    by (cases wd) (auto simp: is_abs_def go_defs)
  with wd show ?thesis
    by (cases "wd = []") (auto simp: path_join_def is_abs_def go_defs intro: path_clean_is_abs that)
qed

section \<open>Rel, Join and containment on components\<close>

lemma strip_common_append: "strip_common bs (bs @ ts) = ([], ts)"
  by (induction bs) auto

lemma strip_common_fst_Nil: "fst (strip_common bs ts) = [] \<longleftrightarrow> prefix bs ts"
  by (induction bs ts rule: strip_common.induct) auto

lemma strip_common_fst_subset: "set (fst (strip_common bs ts)) \<subseteq> set bs"
  by (induction bs ts rule: strip_common.induct) auto

lemma path_rel_abs:
  assumes "list_all proper bs" "list_all proper ts"
  shows "path_rel (abs_path bs) (abs_path ts) =
    (if ts = bs then Inr ''.''
     else let (b, t) = strip_common bs ts in Inr (join_with sep (replicate (length b) ''..'' @ t)))"
proof -
  obtain b t where bt: "strip_common bs ts = (b, t)" by force
  then have "set b \<subseteq> set bs" using strip_common_fst_subset [of bs ts] by simp
  then have "\<not> (b \<noteq> [] \<and> hd b = ''..'')"
    using assms(1) by (auto simp: list_all_iff proper_def) (metis hd_in_set subsetD)
  moreover have "abs_path bs \<noteq> ''.''" by (simp add: abs_path_def)
  ultimately show ?thesis
    using assms bt by (auto simp: path_rel_def abs_path_inject)
qed

lemma proper_not_escapes:
  assumes "list_all proper ts" shows "\<not> escapes (join_with sep ts)"
proof (cases ts)
  case Nil
  then show ?thesis by (simp add: escapes_def go_defs)
next
  case (Cons c cs)
  have c: "proper c" using assms Cons by simp
  show ?thesis
  proof
    assume "escapes (join_with sep ts)"
    then consider "join_with sep ts = ''..''" | s where "join_with sep ts = ''..'' @ sep # s"
      by (auto simp: escapes_def go_defs prefix_def)
    then show False
    proof cases
      case 1
      then have "path_parts (join_with sep ts) = [''..'']" by (simp add: path_parts_def)
      with assms Cons c show False by (simp add: path_parts_join proper_def)
    next
      case 2
      then have "path_parts (join_with sep ts) = ''..'' # path_parts s"
        by (simp add: path_parts_def)
      with assms Cons c show False by (simp add: path_parts_join proper_def)
    qed
  qed
qed

lemma dotdot_escapes: "0 < k \<Longrightarrow> escapes (join_with sep (replicate k ''..'' @ ts))"
proof (cases k)
  case (Suc j)
  then show ?thesis
    by (cases "replicate j ''..'' @ ts") (auto simp: escapes_def go_defs)
qed simp

text \<open>The program's containment test decides the prefix order on components.\<close>

theorem path_rel_within:
  assumes "list_all proper bs" "list_all proper ts"
  shows "(\<exists>r. path_rel (abs_path bs) (abs_path ts) = Inr r \<and> \<not> escapes r) \<longleftrightarrow> prefix bs ts"
proof -
  obtain b t where bt: "strip_common bs ts = (b, t)" by force
  show ?thesis
  proof (cases "prefix bs ts")
    case True
    then obtain us where us: "ts = bs @ us" by (auto simp: prefix_def)
    then have "list_all proper us" using assms by simp
    then have "\<not> escapes (join_with sep us)" "\<not> escapes ''.''"
      by (auto simp: proper_not_escapes) (simp add: escapes_def go_defs)
    with us assms True show ?thesis by (auto simp: path_rel_abs strip_common_append)
  next
    case False
    then have "ts \<noteq> bs" "b \<noteq> []" using strip_common_fst_Nil [of bs ts] bt by auto
    with assms bt False show ?thesis by (auto simp: path_rel_abs dotdot_escapes)
  qed
qed

lemma path_rel_append:
  assumes "list_all proper bs" "list_all proper us" "us \<noteq> []"
  shows "path_rel (abs_path bs) (abs_path (bs @ us)) = Inr (join_with sep us)"
  using assms by (simp add: path_rel_abs strip_common_append)

lemma path_rel_refl [simp]: "path_rel p p = Inr ''.''"
  by (simp add: path_rel_def)

lemma path_join_abs:
  assumes "list_all proper bs" "list_all proper us" "us \<noteq> []"
  shows "path_join (abs_path bs) (join_with sep us) = abs_path (bs @ us)"
proof -
  obtain u us' where u: "us = u # us'" using assms(3) by (cases us) auto
  with assms(2) have ne: "join_with sep us \<noteq> []" by (cases us') (auto simp: proper_def)
  have abs: "is_abs (abs_path bs @ sep # x)" for x by (simp add: is_abs_def go_defs abs_path_def)
  have "path_parts (abs_path bs @ sep # join_with sep us) = (if bs = [] then [[], []] else [] # bs) @ us"
  proof (cases "bs = []")
    case True
    then show ?thesis using path_parts_join [OF assms(3,2)] by (simp add: abs_path_def)
  next
    case False
    then have "abs_path bs @ sep # join_with sep us = abs_path (bs @ us)"
      using assms(3) by (simp add: abs_path_def join_with_append)
    with False assms show ?thesis by (simp add: path_parts_abs_path)
  qed
  then show ?thesis
    using assms ne abs
    by (simp add: path_join_def path_clean_def clean_parts_def fold_clean_proper)
qed

lemma join_proper_not_dot:
  assumes "list_all proper us" shows "join_with sep us \<noteq> ''.''"
proof (cases "us = []")
  case False
  with assms have "path_parts (join_with sep us) = us" by (simp add: path_parts_join)
  moreover have "path_parts ''.'' = [''.'']" by (simp add: path_parts_def)
  ultimately show ?thesis using assms by (auto simp: proper_def)
qed simp

lemma join_proper_first:
  assumes "list_all proper us" "us \<noteq> []"
  shows "join_with sep us \<noteq> []" "\<not> is_abs (join_with sep us)"
proof -
  obtain u us' where u: "us = u # us'" using assms(2) by (cases us) auto
  then obtain c cs where c: "u = c # cs" "c \<noteq> sep"
    using assms(1) by (cases u) (auto simp: proper_def)
  have "hd (join_with sep us) = c" "join_with sep us \<noteq> []"
    using u c by (cases us'; simp)+
  then show "join_with sep us \<noteq> []" "\<not> is_abs (join_with sep us)"
    using c by (auto simp: is_abs_def has_prefix_def prefix_def)
qed

lemma is_abs_path_join [simp]: "is_abs a \<Longrightarrow> is_abs (path_join a b)"
  by (cases a) (auto simp: path_join_def is_abs_def has_prefix_def
      intro!: is_abs_path_clean [unfolded is_abs_def has_prefix_def])

section \<open>Climbing to the root\<close>

text \<open>
  Repeating \<open>Dir\<close> reaches a path that is its own parent: the measure of the loops that
  climb from a path to an existing ancestor.
\<close>

definition parts_weight :: "string list \<Rightarrow> nat" where
  "parts_weight ws = sum_list (map (\<lambda>w. Suc (length w)) ws)"

lemma parts_weight_simps [simp]:
  "parts_weight [] = 0" "parts_weight (w # ws) = Suc (length w) + parts_weight ws"
  "parts_weight (us @ ws) = parts_weight us + parts_weight ws" "parts_weight (rev ws) = parts_weight ws"
  by (simp_all add: parts_weight_def rev_map [symmetric])

lemma parts_weight_split: "parts_weight (split_on q s) = Suc (length s)"
  by (induction s) (auto split: list.splits)

lemma length_join_with: "ws \<noteq> [] \<Longrightarrow> Suc (length (join_with c ws)) = parts_weight ws"
  by (induction ws rule: join_with.induct) auto

lemma clean_step_weight: "parts_weight (clean_step r c st) \<le> parts_weight st + (if c = [] then 0 else Suc (length c))"
  by (auto simp: clean_step_def split: list.splits)

lemma fold_clean_weight:
  "parts_weight (fold (clean_step r) ps st) \<le> parts_weight st + parts_weight (filter (\<lambda>c. c \<noteq> []) ps)"
proof (induction ps arbitrary: st)
  case (Cons c ps)
  from Cons.IH [of "clean_step r c st"] clean_step_weight [of r c st] show ?case by (auto split: if_splits)
qed simp

lemma clean_parts_weight: "parts_weight (clean_parts r ps) \<le> parts_weight (filter (\<lambda>c. c \<noteq> []) ps)"
  using fold_clean_weight [of r ps "[]"] by (simp add: clean_parts_def)

lemma fold_clean_nonempty: "[] \<notin> set st \<Longrightarrow> [] \<notin> set (fold (clean_step r) ps st)"
proof (induction ps arbitrary: st)
  case (Cons c ps)
  have "[] \<notin> set (clean_step r c st)"
    using Cons.prems by (auto simp: clean_step_def split: list.splits if_splits)
  with Cons.IH show ?case by simp
qed simp

lemma join_with_nonempty: "ws \<noteq> [] \<Longrightarrow> [] \<notin> set ws \<Longrightarrow> join_with c ws = [] \<longleftrightarrow> False"
  by (induction ws rule: join_with.induct) auto

lemma path_clean_not_Nil [simp]: "path_clean p \<noteq> []"
  using fold_clean_nonempty [of "[]" "is_abs p" "path_parts p"]
  by (auto simp: path_clean_def Let_def clean_parts_def join_with_nonempty)

lemma path_clean_dir_length:
  assumes "u \<noteq> []" shows "length (path_clean (u @ [sep])) < length (u @ [sep])"
proof -
  let ?q = "u @ [sep]"
  let ?out = "clean_parts (is_abs ?q) (path_parts ?q)"
  have pq: "path_parts ?q = path_parts u @ [[]]"
    by (simp add: path_parts_def split_on_append)
  have "parts_weight (filter (\<lambda>c. c \<noteq> []) ws) \<le> parts_weight ws" for ws
    by (induction ws) auto
  then have w: "parts_weight (filter (\<lambda>c. c \<noteq> []) (path_parts u)) \<le> Suc (length u)"
    using parts_weight_split [of "\<lambda>c. c = sep" u] by (metis path_parts_def)
  have out: "parts_weight ?out \<le> parts_weight (filter (\<lambda>c. c \<noteq> []) (path_parts u))"
    using clean_parts_weight [of "is_abs ?q" "path_parts ?q"] by (simp add: pq)
  show ?thesis
  proof (cases "is_abs ?q")
    case True
    then obtain v where v: "u = sep # v"
      using assms by (cases u) (auto simp: is_abs_def has_prefix_def)
    have "parts_weight (filter (\<lambda>c. c \<noteq> []) (path_parts v)) \<le> Suc (length v)"
      using \<open>\<And>ws. parts_weight (filter (\<lambda>c. c \<noteq> []) ws) \<le> parts_weight ws\<close>
        parts_weight_split [of "\<lambda>c. c = sep" v] by (metis path_parts_def)
    with out have "parts_weight ?out \<le> length u" by (simp add: v)
    then have "length (abs_path ?out) \<le> length u"
      using length_join_with [of ?out sep] assms by (cases "?out = []") (auto simp: abs_path_def Suc_le_eq)
    with True show ?thesis by (simp add: path_clean_def Let_def)
  next
    case False
    have "?out \<noteq> [] \<Longrightarrow> length (join_with sep ?out) \<le> length u"
      using length_join_with [of ?out sep] out w by linarith
    with False assms show ?thesis by (auto simp: path_clean_def Let_def Suc_le_eq)
  qed
qed

definition dir_measure :: "string \<Rightarrow> nat" where
  "dir_measure p = 2 * length p + (if p = [] then 3 else if p = ''.'' \<or> sep \<in> set p then 0 else 1)"

lemma path_dir_less: assumes "path_dir p \<noteq> p" shows "dir_measure (path_dir p) < dir_measure p"
proof (cases "sep \<in> set p")
  case False
  then have "dropWhile (\<lambda>c. c \<noteq> sep) (rev p) = []" by (auto simp: dropWhile_eq_Nil_conv)
  then have "path_dir p = ''.''" by (simp add: path_dir_def path_clean_def)
  with assms False show ?thesis by (cases p) (auto simp: dir_measure_def)
next
  case True
  then obtain u w where p: "p = u @ sep # w" "sep \<notin> set w"
    by (metis split_list_last)
  then have d: "path_dir p = path_clean (u @ [sep])"
    by (auto simp: path_dir_def dropWhile_append)
  have "length (path_dir p) < length p"
  proof (cases "u = []")
    case True
    have "path_clean [sep] = [sep]" by code_simp
    with True d p assms show ?thesis by (cases w) auto
  next
    case False
    then show ?thesis using path_clean_dir_length [of u] d p by simp
  qed
  moreover have "path_dir p \<noteq> []" by (simp add: path_dir_def)
  ultimately show ?thesis using True by (auto simp: dir_measure_def)
qed

lemma path_dir_snoc:
  assumes "list_all proper (cs @ [c])"
  shows "path_dir (abs_path (cs @ [c])) = abs_path cs"
proof -
  have c: "sep \<notin> set c" using assms by (simp add: proper_def)
  have eq: "abs_path (cs @ [c]) = (if cs = [] then [] else abs_path cs) @ sep # c"
    by (simp add: abs_path_def join_with_append)
  have "rev (dropWhile (\<lambda>x. x \<noteq> sep) (rev (w @ sep # c))) = w @ [sep]" for w
    using c by (auto simp: dropWhile_append)
  then have d: "path_dir (abs_path (cs @ [c])) = path_clean ((if cs = [] then [] else abs_path cs) @ [sep])"
    by (simp add: path_dir_def eq)
  show ?thesis
  proof (cases "cs = []")
    case True
    then show ?thesis using d by (simp add: path_clean_def abs_path_def path_parts_def clean_parts_def is_abs_def has_prefix_def)
  next
    case False
    have "is_abs (abs_path cs @ [sep])" by (simp add: is_abs_def has_prefix_def abs_path_def)
    moreover have "path_parts (abs_path cs @ [sep]) = [] # cs @ [[]]"
      using assms False split_on_append [of "\<lambda>c. c = sep" sep "abs_path cs" "[]"]
      by (simp add: path_parts_def path_parts_abs_path [unfolded path_parts_def])
    ultimately show ?thesis
      using d False assms by (simp add: path_clean_def clean_parts_def fold_clean_proper)
  qed
qed

end
