(* ===== verification/Os_View.thy ===== *)
theory Os_View
  imports Go_Time Go_Path "HOL-Library.Word"
begin

text \<open>
  What the program reads from the operating system, as a record of query results: the
  state of the machine during one operation. File metadata is an \<open>os.FileInfo\<close>
  (\<open>finfo\<close>, with Go's 32-bit \<open>FileMode\<close> word); \<open>dtree\<close> is the
  directory structure \<open>filepath.WalkDir\<close> meets below a path, in the lexical order
  \<open>os.ReadDir\<close> returns. Queries are functions, so two queries of one operation
  see the same state, except that a name may be listed and yet fail \<open>Lstat\<close>.
\<close>

unbundle bit_operations_syntax

type_synonym file_mode = "32 word"

record finfo =
  fi_size :: int
  fi_mtime :: gtime
  fi_mode :: file_mode
  fi_stat :: "(int \<times> int) option"

datatype dtree =
    DLeaf
  | DUnreadable err
  | DDir "(string \<times> dtree) list"

record os_view =
  lstat :: "string \<Rightarrow> finfo res"
  shape :: "string \<Rightarrow> dtree"
  eval_symlinks :: "string \<Rightarrow> string res"
  getwd :: "string res"
  user_home :: string
  show_sys :: "finfo \<Rightarrow> string"

section \<open>File modes\<close>

definition ModeDir :: file_mode where "ModeDir = 2 ^ 31"
definition ModeSymlink :: file_mode where "ModeSymlink = 2 ^ 27"

definition ModeType :: file_mode where
  "ModeType = ModeDir OR ModeSymlink OR 2 ^ 25 OR 2 ^ 24 OR 2 ^ 26 OR 2 ^ 21 OR 2 ^ 19"

definition mode_is_dir :: "finfo \<Rightarrow> bool" where
  "mode_is_dir i \<longleftrightarrow> fi_mode i AND ModeDir \<noteq> 0"

definition mode_is_symlink :: "finfo \<Rightarrow> bool" where
  "mode_is_symlink i \<longleftrightarrow> fi_mode i AND ModeSymlink \<noteq> 0"

text \<open>
  The identity text \<open>"%d:%d:%d"\<close> of device, inode and type bits, used for
  observed objects and bound roots alike (\<open>identity_unix.go\<close> of both packages).
\<close>

definition identity_text :: "int \<Rightarrow> int \<Rightarrow> file_mode \<Rightarrow> string" where
  "identity_text dev ino ty = itoa dev @ '':'' @ itoa ino @ '':'' @ itoa (uint ty)"

lemma identity_text_inject:
  "identity_text d i t = identity_text d' i' t' \<longleftrightarrow> d = d' \<and> i = i' \<and> t = t'"
  by (auto simp: identity_text_def sep_append_inject word_uint_eq_iff)

end
