(* ===== verification/Scope_Guard.thy ===== *)
theory Scope_Guard
  imports Contract Os_View
begin

text \<open>
  Package \<open>scope\<close> (\<open>internal/scope/guard.go\<close>): turning a requested task scope
  into canonical roots, or refusing it. The model is the Unix build: the volume name is
  empty and the separator is the slash.
\<close>

section \<open>Model\<close>

record root =
  rt_path :: string
  rt_identity :: string

record validated =
  vs_task_id :: string
  vs_roots :: "root list"

definition NewGuard :: "os_view \<Rightarrow> string" where
  "NewGuard os = path_clean (user_home os)"

definition hasParentTraversal :: "string \<Rightarrow> bool" where
  "hasParentTraversal path \<longleftrightarrow>
     (\<exists>part \<in> set (fields_func (\<lambda>c. c = CHR ''/'' \<or> c = CHR 0x5C) path). part = ''..'')"

definition samePath :: "string \<Rightarrow> string \<Rightarrow> bool" where
  "samePath a b \<longleftrightarrow> (if b = [] then False else path_clean a = path_clean b)"

definition overlap_rel :: "string \<Rightarrow> string \<Rightarrow> bool" where
  "overlap_rel p q =
     (case path_rel p q of
        Inl _ \<Rightarrow> False
      | Inr rel \<Rightarrow> rel \<noteq> ''.'' \<and> rel \<noteq> ''..'' \<and> \<not> has_prefix rel (''..'' @ [sep]))"

definition pathsOverlap :: "string \<Rightarrow> string \<Rightarrow> bool" where
  "pathsOverlap a b \<longleftrightarrow>
     (if samePath a b then True else overlap_rel a b \<or> overlap_rel b a)"

definition validateRoot :: "os_view \<Rightarrow> string \<Rightarrow> string \<Rightarrow> root res" where
  "validateRoot os home raw =
     (if raw = [] \<or> hasParentTraversal raw then Inl ErrUnsafePath
      else case path_abs (getwd os) raw of
        Inl e \<Rightarrow> Inl (Errorf [Wrapped ErrUnsafePath, Lit '': '', Shown e])
      | Inr a \<Rightarrow>
          let abs = path_clean a
          in if abs = [sep] \<or> samePath abs home then
               Inl (Errorf [Wrapped ErrScopeTooBroad, Lit ('': '' @ abs)])
             else case lstat os abs of
               Inl e \<Rightarrow> Inl (Errorf [Lit ''scope root: '', Wrapped e])
             | Inr info \<Rightarrow>
                 if mode_is_symlink info \<or> \<not> mode_is_dir info then
                   Inl (Errorf [Wrapped ErrUnsafePath, Lit '': root must be a real directory''])
                 else Inr \<lparr>rt_path = abs, rt_identity = show_sys os info\<rparr>)"

fun validate_roots :: "os_view \<Rightarrow> string \<Rightarrow> root list \<Rightarrow> string list \<Rightarrow> root list res" where
  "validate_roots os home roots [] = Inr roots"
| "validate_roots os home roots (raw # raws) =
     and_then (validateRoot os home raw) (\<lambda>root.
       case find (\<lambda>prior. pathsOverlap (rt_path prior) (rt_path root)) roots of
         Some prior \<Rightarrow>
           Inl (Errorf [Wrapped ErrOverlappingRoots,
                        Lit ('': '' @ rt_path prior @ '' and '' @ rt_path root)])
       | None \<Rightarrow> validate_roots os home (roots @ [root]) raws)"

definition scope_validate :: "os_view \<Rightarrow> string \<Rightarrow> task_scope \<Rightarrow> validated res" where
  "scope_validate os home input =
     (if s_task_id input = [] \<or> length (s_task_id input) > 256 \<or> s_workspace input = [] then
        Inl (errors_new ''task_id and workspace are required'')
      else and_then (validate_roots os home [] (s_workspace input # s_temp_roots input))
             (\<lambda>roots. Inr \<lparr>vs_task_id = s_task_id input, vs_roots = roots\<rparr>))"

section \<open>Canonical roots\<close>

text \<open>The components of a cleaned absolute path, and disjointness of two such paths.\<close>

definition canonical :: "string \<Rightarrow> bool" where
  "canonical p \<longleftrightarrow> (\<exists>cs. list_all proper cs \<and> p = abs_path cs)"

definition disjoint_paths :: "string \<Rightarrow> string \<Rightarrow> bool" where
  "disjoint_paths p q \<longleftrightarrow>
     \<not> prefix (rel_parts p) (rel_parts q) \<and> \<not> prefix (rel_parts q) (rel_parts p)"

definition real_dir :: "os_view \<Rightarrow> string \<Rightarrow> bool" where
  "real_dir os p \<longleftrightarrow>
     (\<exists>info. lstat os p = Inr info \<and> mode_is_dir info \<and> \<not> mode_is_symlink info)"

definition scope_ok :: "os_view \<Rightarrow> validated \<Rightarrow> bool" where
  "scope_ok os v \<longleftrightarrow>
     vs_roots v \<noteq> []
     \<and> (\<forall>r \<in> set (vs_roots v). canonical (rt_path r) \<and> rt_path r \<noteq> [sep] \<and> real_dir os (rt_path r))
     \<and> sorted_wrt (\<lambda>r s. disjoint_paths (rt_path r) (rt_path s)) (vs_roots v)"

lemma canonicalE:
  assumes "canonical p"
  obtains cs where "list_all proper cs" "p = abs_path cs" "rel_parts p = cs"
  using assms by (auto simp: canonical_def)

lemma canonical_clean [simp]: "canonical p \<Longrightarrow> path_clean p = p"
  by (auto simp: canonical_def)

lemma canonical_inject:
  "canonical p \<Longrightarrow> canonical q \<Longrightarrow> rel_parts p = rel_parts q \<longleftrightarrow> p = q"
  by (auto simp: canonical_def)

lemma canonical_clean_abs: "is_abs p \<Longrightarrow> canonical (path_clean p)"
  by (metis canonical_def path_clean_is_abs)

lemma canonical_is_abs [simp]: "canonical p \<Longrightarrow> is_abs p"
  by (auto simp: canonical_def)

lemma overlap_rel_canonical:
  assumes "canonical p" "canonical q"
  shows "overlap_rel p q \<longleftrightarrow> strict_prefix (rel_parts p) (rel_parts q)"
proof -
  from assms(1) obtain bs where bs: "list_all proper bs" "p = abs_path bs" "rel_parts p = bs"
    by (rule canonicalE)
  from assms(2) obtain ts where ts: "list_all proper ts" "q = abs_path ts" "rel_parts q = ts"
    by (rule canonicalE)
  show ?thesis
  proof (cases "prefix bs ts \<and> bs \<noteq> ts")
    case True
    then obtain us where "ts = bs @ us" "us \<noteq> []" by (auto simp: prefix_def)
    with bs ts join_proper_not_dot [of us] proper_not_escapes [of us] show ?thesis
      by (auto simp: overlap_rel_def path_rel_append escapes_def strict_prefix_def)
  next
    case False
    with bs ts path_rel_within [of bs ts] show ?thesis
      by (auto simp: overlap_rel_def escapes_def strict_prefix_def split: sum.splits)
  qed
qed

text \<open>The overlap test refuses exactly the pairs in which one root contains the other.\<close>

lemma pathsOverlap_canonical:
  assumes "canonical p" "canonical q"
  shows "pathsOverlap p q \<longleftrightarrow> \<not> disjoint_paths p q"
proof -
  have "q \<noteq> []" using assms(2) by (auto simp: canonical_def)
  then have "samePath p q \<longleftrightarrow> rel_parts p = rel_parts q"
    using assms canonical_inject [OF assms] by (simp add: samePath_def)
  then show ?thesis
    using assms by (auto simp: pathsOverlap_def overlap_rel_canonical disjoint_paths_def
        strict_prefix_def)
qed

lemma validateRoot_ok:
  assumes "validateRoot os home raw = Inr r" and "\<And>wd. getwd os = Inr wd \<Longrightarrow> is_abs wd"
  shows "canonical (rt_path r)" "rt_path r \<noteq> [sep]" "real_dir os (rt_path r)"
    "\<not> samePath (rt_path r) home"
proof -
  from assms(1) obtain a info where a: "path_abs (getwd os) raw = Inr a"
    and r: "rt_path r = path_clean a" "path_clean a \<noteq> [sep]" "\<not> samePath (path_clean a) home"
    and i: "lstat os (path_clean a) = Inr info" "mode_is_dir info" "\<not> mode_is_symlink info"
    by (auto simp: validateRoot_def Let_def split: if_splits sum.splits)
  obtain cs where "list_all proper cs" "a = abs_path cs"
    using a assms(2) by (rule path_abs_is_clean)
  then show "canonical (rt_path r)" using r(1) by (auto simp: canonical_def)
  show "rt_path r \<noteq> [sep]" "real_dir os (rt_path r)" "\<not> samePath (rt_path r) home"
    using r i by (auto simp: real_dir_def)
qed

lemma validate_roots_ok:
  assumes "validate_roots os home acc raws = Inr roots"
    and "\<And>wd. getwd os = Inr wd \<Longrightarrow> is_abs wd"
    and "\<forall>r \<in> set acc. canonical (rt_path r) \<and> rt_path r \<noteq> [sep] \<and> real_dir os (rt_path r)
           \<and> \<not> samePath (rt_path r) home"
    and "sorted_wrt (\<lambda>r s. disjoint_paths (rt_path r) (rt_path s)) acc"
  shows "(\<forall>r \<in> set roots. canonical (rt_path r) \<and> rt_path r \<noteq> [sep] \<and> real_dir os (rt_path r)
           \<and> \<not> samePath (rt_path r) home)
    \<and> sorted_wrt (\<lambda>r s. disjoint_paths (rt_path r) (rt_path s)) roots
    \<and> length roots = length acc + length raws"
  using assms
proof (induction raws arbitrary: acc)
  case (Cons raw raws)
  from Cons.prems(1) obtain r where r: "validateRoot os home raw = Inr r"
    and none: "find (\<lambda>prior. pathsOverlap (rt_path prior) (rt_path r)) acc = None"
    and rest: "validate_roots os home (acc @ [r]) raws = Inr roots"
    by (auto simp: res_simps split: option.splits)
  note ok = validateRoot_ok [OF r Cons.prems(2)]
  have "\<forall>p \<in> set acc. disjoint_paths (rt_path p) (rt_path r)"
    using none Cons.prems(3) ok(1) by (auto simp: find_None_iff pathsOverlap_canonical)
  then show ?case
    using Cons.IH [OF rest Cons.prems(2)] Cons.prems(3,4) ok by (auto simp: sorted_wrt_append)
qed auto

lemma validate_roots_paths:
  assumes "validate_roots os home acc raws = Inr roots"
  shows "\<exists>new. roots = acc @ new
    \<and> list_all2 (\<lambda>raw r. \<exists>a. path_abs (getwd os) raw = Inr a \<and> rt_path r = path_clean a) raws new"
  using assms
proof (induction raws arbitrary: acc)
  case (Cons raw raws)
  from Cons.prems obtain r where r: "validateRoot os home raw = Inr r"
    and rest: "validate_roots os home (acc @ [r]) raws = Inr roots"
    by (auto simp: res_simps split: option.splits)
  from r obtain a where "path_abs (getwd os) raw = Inr a" "rt_path r = path_clean a"
    by (auto simp: validateRoot_def Let_def split: if_splits sum.splits)
  with Cons.IH [OF rest] show ?case by auto
qed simp

lemma scope_validate_facts:
  assumes "scope_validate os home input = Inr v"
    and "\<And>wd. getwd os = Inr wd \<Longrightarrow> is_abs wd"
  shows "vs_task_id v = s_task_id input" "scope_ok os v"
    "\<forall>r \<in> set (vs_roots v). \<not> samePath (rt_path r) home"
    "list_all2 (\<lambda>raw r. \<exists>a. path_abs (getwd os) raw = Inr a \<and> rt_path r = path_clean a)
       (s_workspace input # s_temp_roots input) (vs_roots v)"
proof -
  let ?raws = "s_workspace input # s_temp_roots input"
  from assms(1) obtain roots where roots: "validate_roots os home [] ?raws = Inr roots"
    and v: "v = \<lparr>vs_task_id = s_task_id input, vs_roots = roots\<rparr>"
    unfolding scope_validate_def by (auto simp only: res_simps sum.inject)
  have ok: "(\<forall>r \<in> set roots. canonical (rt_path r) \<and> rt_path r \<noteq> [sep] \<and> real_dir os (rt_path r)
        \<and> \<not> samePath (rt_path r) home)
      \<and> sorted_wrt (\<lambda>r s. disjoint_paths (rt_path r) (rt_path s)) roots
      \<and> length roots = length ([] :: root list) + length ?raws"
    by (rule validate_roots_ok [OF roots assms(2)]) simp_all
  moreover have "roots \<noteq> []" using ok by auto
  ultimately show "vs_task_id v = s_task_id input" "scope_ok os v"
    "\<forall>r \<in> set (vs_roots v). \<not> samePath (rt_path r) home"
    unfolding scope_ok_def v by simp_all
  show "list_all2 (\<lambda>raw r. \<exists>a. path_abs (getwd os) raw = Inr a \<and> rt_path r = path_clean a)
      ?raws (vs_roots v)"
    using validate_roots_paths [OF roots] by (auto simp: v)
qed

lemmas scope_validate_ok = scope_validate_facts(2)

text \<open>A machine with a home directory and two project directories, for the witnesses.\<close>

definition demo_dir_info :: finfo where
  "demo_dir_info = \<lparr>fi_size = 4096, fi_mtime = time_of_unix 0, fi_mode = ModeDir,
     fi_stat = Some (1, 2)\<rparr>"

definition demo_os :: os_view where
  "demo_os = \<lparr>lstat = (\<lambda>_. Inr demo_dir_info), shape = (\<lambda>_. DDir []), eval_symlinks = Inr,
     getwd = Inr ''/home/dev'', user_home = ''/home/dev'', show_sys = (\<lambda>_. ''stat'')\<rparr>"

definition demo_scope :: task_scope where
  "demo_scope = \<lparr>s_task_id = ''t'', s_workspace = ''repo'', s_temp_roots = [''/tmp/t''],
     s_observation_mode = ObservationOther [], s_recovery_profile = RecoveryOther []\<rparr>"

definition demo_validated :: validated where
  "demo_validated = \<lparr>vs_task_id = ''t'',
     vs_roots = [\<lparr>rt_path = ''/home/dev/repo'', rt_identity = ''stat''\<rparr>,
                 \<lparr>rt_path = ''/tmp/t'', rt_identity = ''stat''\<rparr>]\<rparr>"

lemma demo_scope_validates: "scope_validate demo_os (NewGuard demo_os) demo_scope = Inr demo_validated"
  by code_simp

section \<open>Properties\<close>

text \<open>
  C1: A scope the guard accepts yields the declared roots in order, each made absolute and
  cleaned; every root is an existing directory that is not a symbolic link, is neither the
  filesystem root nor the user's home directory, and no root contains another. Relied on:
  the working directory is an absolute path.
\<close>

theorem accepted_scope_canonical:
  assumes "scope_validate os home input = Inr v"
    and "\<And>wd. getwd os = Inr wd \<Longrightarrow> is_abs wd"
  shows "vs_task_id v = s_task_id input \<and> scope_ok os v
    \<and> (\<forall>r \<in> set (vs_roots v). \<not> samePath (rt_path r) home)
    \<and> list_all2 (\<lambda>raw r. \<exists>a. path_abs (getwd os) raw = Inr a \<and> rt_path r = path_clean a)
         (s_workspace input # s_temp_roots input) (vs_roots v)"
  using scope_validate_facts [OF assms] by blast

theorem accepted_scope_canonical_witness:
  "vs_task_id demo_validated = s_task_id demo_scope \<and> scope_ok demo_os demo_validated
    \<and> list_all (\<lambda>r. \<not> samePath (rt_path r) (NewGuard demo_os)) (vs_roots demo_validated)
    \<and> list_all2 (\<lambda>raw r. \<exists>a. path_abs (getwd demo_os) raw = Inr a \<and> rt_path r = path_clean a)
         (s_workspace demo_scope # s_temp_roots demo_scope) (vs_roots demo_validated)"
  unfolding list_all_iff
  by (rule accepted_scope_canonical [OF demo_scope_validates])
    (auto simp: demo_os_def is_abs_def has_prefix_def)

text \<open>
  On cleaned absolute paths the overlap test is exact: it reports an overlap if and only
  if one path is the other or lies below it, component by component (so sibling names that
  share a textual prefix do not overlap).
\<close>

theorem pathsOverlap_exact:
  assumes "canonical p" "canonical q"
  shows "pathsOverlap p q \<longleftrightarrow>
    prefix (rel_parts p) (rel_parts q) \<or> prefix (rel_parts q) (rel_parts p)"
  using pathsOverlap_canonical [OF assms] by (auto simp: disjoint_paths_def)

theorem pathsOverlap_exact_witness:
  "pathsOverlap ''/a/b'' ''/a/bc'' \<longleftrightarrow>
    prefix (rel_parts ''/a/b'') (rel_parts ''/a/bc'') \<or> prefix (rel_parts ''/a/bc'') (rel_parts ''/a/b'')"
proof (rule pathsOverlap_exact)
  have "list_all proper [''a'', ''b''] \<and> ''/a/b'' = abs_path [''a'', ''b'']"
    by (simp add: proper_def abs_path_def)
  then show "canonical ''/a/b''" unfolding canonical_def by blast
  have "list_all proper [''a'', ''bc''] \<and> ''/a/bc'' = abs_path [''a'', ''bc'']"
    by (simp add: proper_def abs_path_def)
  then show "canonical ''/a/bc''" unfolding canonical_def by blast
qed

text \<open>
  The breadth check compares with the home directory itself only: a directory that contains
  the home directory is accepted as a root.
\<close>

theorem guard_accepts_parent_of_home:
  "scope_validate demo_os (NewGuard demo_os) (demo_scope\<lparr>s_workspace := ''/home''\<rparr>)
     = Inr (demo_validated\<lparr>vs_roots := [\<lparr>rt_path = ''/home'', rt_identity = ''stat''\<rparr>,
                                      \<lparr>rt_path = ''/tmp/t'', rt_identity = ''stat''\<rparr>]\<rparr>)
   \<and> prefix (rel_parts ''/home'') (rel_parts (user_home demo_os))"
  by code_simp

end
