(* ===== verification/Path_Alias.thy ===== *)
theory Path_Alias
  imports Scope_Guard
begin

text \<open>
  Package \<open>pathalias\<close> (\<open>internal/pathalias/alias.go\<close>, \<open>identity_unix.go\<close>):
  the table that replaces exact paths by aliases such as \<open>workspace://build\<close> in
  everything an agent sees, and resolves an alias back only while the bound root still has
  the identity it had when the table was made.
\<close>

section \<open>Model\<close>

record binding =
  b_alias :: string
  b_path :: string
  b_identity :: string

type_synonym alias_table = "binding list"

definition stableIdentity :: "os_view \<Rightarrow> string \<Rightarrow> string res" where
  "stableIdentity os path =
     and_then (lstat os path) (\<lambda>info.
       case fi_stat info of
         None \<Rightarrow> Inl (errors_new ''native root identity unavailable'')
       | Some (dev, ino) \<Rightarrow> Inr (identity_text dev ino (fi_mode info AND ModeType)))"

definition root_alias :: "nat \<Rightarrow> string" where
  "root_alias index = (if index > 0 then ''temp://'' @ itoa (int index - 1) else ''workspace://'')"

fun new_bindings :: "os_view \<Rightarrow> nat \<Rightarrow> root list \<Rightarrow> binding list res" where
  "new_bindings os i [] = Inr []"
| "new_bindings os i (r # rs) =
     and_then (stableIdentity os (rt_path r)) (\<lambda>identity.
     and_then (new_bindings os (Suc i) rs) (\<lambda>bs.
       Inr (\<lparr>b_alias = root_alias i, b_path = path_clean (rt_path r), b_identity = identity\<rparr> # bs)))"

definition alias_new :: "os_view \<Rightarrow> validated \<Rightarrow> alias_table res" where
  "alias_new os v =
     (if vs_roots v = [] then Inl (errors_new ''at least one task root is required'')
      else new_bindings os 0 (vs_roots v))"

fun project_loop :: "alias_table \<Rightarrow> string \<Rightarrow> string res" where
  "project_loop [] exact = Inl (errors_new ''path is outside bound roots'')"
| "project_loop (b # bs) exact =
     (case path_rel (b_path b) exact of
        Inl _ \<Rightarrow> project_loop bs exact
      | Inr relative \<Rightarrow>
          if escapes relative then project_loop bs exact
          else if relative = ''.'' then Inr (b_alias b)
          else Inr (trim_suffix (b_alias b) ''/'' @ ''/'' @ relative))"

definition Project :: "alias_table \<Rightarrow> string \<Rightarrow> string res" where
  "Project table exact = project_loop table (path_clean exact)"

definition hasTraversal :: "string \<Rightarrow> bool" where
  "hasTraversal value \<longleftrightarrow>
     (\<exists>part \<in> set (fields_func (\<lambda>c. c = CHR ''/'' \<or> c = CHR 0x5C) value). part = ''..'')"

definition alias_matches :: "binding \<Rightarrow> string \<Rightarrow> bool" where
  "alias_matches b alias \<longleftrightarrow>
     alias = b_alias b \<or> has_prefix alias (trim_suffix (b_alias b) ''/'' @ ''/'')"

definition resolve_in :: "os_view \<Rightarrow> binding \<Rightarrow> string \<Rightarrow> string res" where
  "resolve_in os b alias =
     (let changed = errors_new ''bound root identity changed''
      in case stableIdentity os (b_path b) of
        Inl _ \<Rightarrow> Inl changed
      | Inr identity \<Rightarrow>
          if identity \<noteq> b_identity b then Inl changed
          else let relative = trim_prefix (trim_prefix alias (trim_suffix (b_alias b) ''/'')) ''/''
               in if relative = [] then Inr (b_path b)
                  else if is_abs relative \<or> hasTraversal relative then
                    Inl (errors_new ''alias path is unsafe'')
                  else let resolved = path_clean (path_join (b_path b) relative)
                       in case path_rel (b_path b) resolved of
                            Inl _ \<Rightarrow> Inl (errors_new ''alias path escapes bound root'')
                          | Inr check \<Rightarrow>
                              if escapes check then Inl (errors_new ''alias path escapes bound root'')
                              else Inr resolved)"

fun Resolve :: "os_view \<Rightarrow> alias_table \<Rightarrow> string \<Rightarrow> string res" where
  "Resolve os [] alias = Inl (errors_new ''unknown path alias'')"
| "Resolve os (b # bs) alias =
     (if \<not> alias_matches b alias then Resolve os bs alias else resolve_in os b alias)"

section \<open>Tables made by \<open>New\<close>\<close>

lemma new_bindings_nth:
  assumes "new_bindings os i rs = Inr bs"
  shows "length bs = length rs"
    and "j < length rs \<Longrightarrow> b_alias (bs ! j) = root_alias (i + j)
      \<and> b_path (bs ! j) = path_clean (rt_path (rs ! j))
      \<and> stableIdentity os (rt_path (rs ! j)) = Inr (b_identity (bs ! j))"
proof -
  have "length bs = length rs \<and> (\<forall>j < length rs. b_alias (bs ! j) = root_alias (i + j)
      \<and> b_path (bs ! j) = path_clean (rt_path (rs ! j))
      \<and> stableIdentity os (rt_path (rs ! j)) = Inr (b_identity (bs ! j)))"
    using assms
  proof (induction rs arbitrary: i bs)
    case (Cons r rs)
    then obtain idn bs' where s: "stableIdentity os (rt_path r) = Inr idn"
      and n: "new_bindings os (Suc i) rs = Inr bs'"
      and b: "bs = \<lparr>b_alias = root_alias i, b_path = path_clean (rt_path r), b_identity = idn\<rparr> # bs'"
      by (auto simp: res_simps)
    show ?case using Cons.IH [OF n] s b by (auto simp: less_Suc_eq_0_disj)
  qed simp
  then show "length bs = length rs"
    and "j < length rs \<Longrightarrow> b_alias (bs ! j) = root_alias (i + j)
      \<and> b_path (bs ! j) = path_clean (rt_path (rs ! j))
      \<and> stableIdentity os (rt_path (rs ! j)) = Inr (b_identity (bs ! j))"
    by auto
qed

text \<open>A table whose paths are canonical, pairwise disjoint and named in order.\<close>

definition table_ok :: "alias_table \<Rightarrow> bool" where
  "table_ok t \<longleftrightarrow>
     (\<forall>i < length t. b_alias (t ! i) = root_alias i \<and> canonical (b_path (t ! i)))
     \<and> (\<forall>i j. i < j \<longrightarrow> j < length t \<longrightarrow> disjoint_paths (b_path (t ! i)) (b_path (t ! j)))"

lemma alias_new_table_ok:
  assumes "alias_new os v = Inr t" and "scope_ok os' v"
  shows "table_ok t" "map b_path t = map rt_path (vs_roots v)"
    "\<forall>b \<in> set t. stableIdentity os (b_path b) = Inr (b_identity b)"
proof -
  from assms(1) have n: "new_bindings os 0 (vs_roots v) = Inr t"
    by (auto simp: alias_new_def split: if_splits)
  have can: "canonical (rt_path (vs_roots v ! j))" if "j < length (vs_roots v)" for j
    using assms(2) that by (auto simp: scope_ok_def)
  show t: "map b_path t = map rt_path (vs_roots v)"
    using new_bindings_nth [OF n] can by (auto intro: nth_equalityI)
  show "table_ok t"
    unfolding table_ok_def
    using new_bindings_nth [OF n] can assms(2)
    by (auto simp: scope_ok_def sorted_wrt_iff_nth_less)
  show "\<forall>b \<in> set t. stableIdentity os (b_path b) = Inr (b_identity b)"
    using new_bindings_nth [OF n] can by (auto simp: in_set_conv_nth)
qed

section \<open>Aliases\<close>

lemma trim_suffix_last: "s \<noteq> [] \<Longrightarrow> last s \<noteq> c \<Longrightarrow> trim_suffix s [c] = s"
  by (auto simp: trim_suffix_def has_suffix_def suffix_def)

lemma trim_suffix_snoc: "trim_suffix (s @ [c]) [c] = s"
  by (auto simp: trim_suffix_def has_suffix_def suffix_def)

lemma last_itoa: "last (itoa k) \<noteq> CHR ''/''"
  by (metis itoa_not_Nil last_in_set slash_notin_itoa)

text \<open>The text of an alias below root \<open>i\<close>, and which root an alias belongs to.\<close>

definition alias_base :: "nat \<Rightarrow> string" where
  "alias_base i = (if i > 0 then ''temp://'' @ itoa (int i - 1) else ''workspace:/'')"

lemma root_alias_base: "root_alias i = (if i > 0 then alias_base i else alias_base i @ ''/'')"
  by (simp add: root_alias_def alias_base_def)

lemma trim_root_alias: "trim_suffix (root_alias i) ''/'' = alias_base i"
proof (cases "i > 0")
  case True
  then show ?thesis
    by (simp add: root_alias_base) (rule trim_suffix_last, simp_all add: alias_base_def last_itoa)
next
  case False
  then show ?thesis by (simp add: root_alias_base trim_suffix_snoc)
qed

lemma alias_base_sep:
  "alias_base i @ sep # u = alias_base j @ sep # v \<longleftrightarrow> i = j \<and> u = v"
proof -
  have "itoa (int i - 1) @ sep # u = itoa (int j - 1) @ sep # v \<longleftrightarrow> i = j \<and> u = v"
    by (auto simp: sep_append_inject)
  then show ?thesis by (auto simp: alias_base_def)
qed

lemma alias_base_no_sep: "alias_base i \<noteq> alias_base j @ sep # v"
  if "i > 0"
proof
  assume "alias_base i = alias_base j @ sep # v"
  then have "itoa (int i - 1) = itoa (int j - 1) @ sep # v"
    using that by (auto simp: alias_base_def split: if_splits)
  then have "sep \<in> set (itoa (int i - 1))" by simp
  then show False by simp
qed

lemma alias_matches_root:
  "b_alias b = root_alias j \<Longrightarrow>
     alias_matches b a \<longleftrightarrow> a = root_alias j \<or> (\<exists>v. a = alias_base j @ sep # v)"
  by (auto simp: alias_matches_def trim_root_alias has_prefix_def prefix_def)

lemma alias_matches_iff:
  assumes "b_alias b = root_alias j"
  shows "alias_matches b (alias_base i @ sep # u) \<longleftrightarrow> i = j"
    and "alias_matches b (root_alias i) \<longleftrightarrow> i = j"
proof -
  show m: "alias_matches b (alias_base i @ sep # u) \<longleftrightarrow> i = j" for u
  proof -
    have "alias_base i @ sep # u = root_alias j \<Longrightarrow> i = j"
      using alias_base_no_sep [of j i u] alias_base_sep [of i u j "[]"]
      by (cases "j > 0") (auto simp: root_alias_base)
    then show ?thesis by (auto simp: alias_matches_root [OF assms] alias_base_sep)
  qed
  have "root_alias i = root_alias j \<longleftrightarrow> i = j"
    by (auto simp: root_alias_def split: if_splits)
  moreover have "root_alias 0 = alias_base 0 @ sep # []" by (simp add: root_alias_base)
  ultimately show "alias_matches b (root_alias i) \<longleftrightarrow> i = j"
    using alias_base_no_sep [of i j] m [of "[]"]
    by (cases "i > 0") (auto simp: alias_matches_root [OF assms] root_alias_base [of i])
qed

section \<open>Finding the binding\<close>

lemma Resolve_nth:
  assumes "i < length t" "alias_matches (t ! i) a" "\<forall>j < i. \<not> alias_matches (t ! j) a"
  shows "Resolve os t a = resolve_in os (t ! i) a"
  using assms
proof (induction t arbitrary: i)
  case (Cons b t)
  show ?case
  proof (cases i)
    case 0
    with Cons.prems show ?thesis by simp
  next
    case (Suc k)
    with Cons.prems have "\<not> alias_matches b a" by fastforce
    moreover have "\<forall>j < k. \<not> alias_matches (t ! j) a" using Cons.prems(3) Suc by force
    ultimately show ?thesis using Cons.IH [of k] Cons.prems Suc by simp
  qed
qed simp

lemma Resolve_in_table:
  "Resolve os t a = Inr p \<Longrightarrow> \<exists>b \<in> set t. alias_matches b a \<and> resolve_in os b a = Inr p"
  by (induction t) (auto split: if_splits)

definition within :: "string \<Rightarrow> string \<Rightarrow> bool" where
  "within base p \<longleftrightarrow> prefix (rel_parts base) (rel_parts p)"

lemma path_rel_within_canonical:
  assumes "canonical base" "canonical p"
  shows "(case path_rel base p of Inl _ \<Rightarrow> False | Inr r \<Rightarrow> \<not> escapes r) \<longleftrightarrow> within base p"
proof -
  from assms(1) obtain bs where bs: "list_all proper bs" "base = abs_path bs" "rel_parts base = bs"
    by (rule canonicalE)
  from assms(2) obtain ts where ts: "list_all proper ts" "p = abs_path ts" "rel_parts p = ts"
    by (rule canonicalE)
  show ?thesis
    using path_rel_within [OF bs(1) ts(1)] bs ts by (cases "path_rel base p") (auto simp: within_def)
qed

lemma project_loop_nth:
  assumes "project_loop t exact = Inr a" "canonical exact" "\<forall>b \<in> set t. canonical (b_path b)"
  obtains i r where "i < length t" "within (b_path (t ! i)) exact"
    "path_rel (b_path (t ! i)) exact = Inr r" "\<not> escapes r"
    "a = (if r = ''.'' then b_alias (t ! i) else trim_suffix (b_alias (t ! i)) ''/'' @ ''/'' @ r)"
  using assms
proof (induction t arbitrary: thesis)
  case (Cons b t)
  show ?case
  proof (cases "\<exists>r. path_rel (b_path b) exact = Inr r \<and> \<not> escapes r")
    case True
    then obtain r where r: "path_rel (b_path b) exact = Inr r" "\<not> escapes r" by blast
    then have "within (b_path b) exact"
      using path_rel_within_canonical [of "b_path b" exact] Cons.prems(3,4) by simp
    with r Cons.prems(2) show ?thesis
      by (intro Cons.prems(1) [of 0 r]) (auto split: if_splits)
  next
    case False
    then have "project_loop t exact = Inr a"
      using Cons.prems(2) by (auto split: sum.splits if_splits)
    from Cons.IH [OF _ this] Cons.prems obtain i r where "i < length t"
      "within (b_path (t ! i)) exact" "path_rel (b_path (t ! i)) exact = Inr r" "\<not> escapes r"
      "a = (if r = ''.'' then b_alias (t ! i) else trim_suffix (b_alias (t ! i)) ''/'' @ ''/'' @ r)"
      by auto
    then show ?thesis by (intro Cons.prems(1) [of "Suc i" r]) auto
  qed
qed simp

lemma project_loop_error:
  assumes "canonical exact" "\<forall>b \<in> set t. canonical (b_path b)"
  shows "(\<exists>e. project_loop t exact = Inl e) \<longleftrightarrow> (\<forall>b \<in> set t. \<not> within (b_path b) exact)"
  using assms
proof (induction t)
  case (Cons b t)
  then show ?case
    using path_rel_within_canonical [of "b_path b" exact]
    by (cases "path_rel (b_path b) exact") auto
qed simp

lemma resolve_in_contained:
  assumes "resolve_in os b a = Inr p" "canonical (b_path b)"
  shows "canonical p \<and> within (b_path b) p \<and> stableIdentity os (b_path b) = Inr (b_identity b)"
proof -
  let ?rel = "trim_prefix (trim_prefix a (trim_suffix (b_alias b) ''/'')) ''/''"
  have idn: "stableIdentity os (b_path b) = Inr (b_identity b)"
    using assms(1) by (auto simp: resolve_in_def Let_def split: sum.splits if_splits)
  show ?thesis
  proof (cases "?rel = []")
    case True
    with assms idn show ?thesis by (simp add: resolve_in_def within_def)
  next
    case False
    let ?q = "path_clean (path_join (b_path b) ?rel)"
    have q: "canonical ?q" using assms(2) by (simp add: canonical_clean_abs)
    have "p = ?q \<and> (case path_rel (b_path b) ?q of Inl _ \<Rightarrow> False | Inr r \<Rightarrow> \<not> escapes r)"
      using assms(1) idn False
      by (auto simp: resolve_in_def Let_def split: sum.splits if_splits)
    with q idn path_rel_within_canonical [OF assms(2) q] show ?thesis by simp
  qed
qed

lemma resolve_in_projected:
  assumes "canonical (b_path b)" "rel_parts exact = rel_parts (b_path b) @ us" "canonical exact"
    and "b_alias b = root_alias i" and "stableIdentity os (b_path b) = Inr (b_identity b)"
    and "\<not> hasTraversal (join_with sep us)"
  shows "resolve_in os b (if us = [] then root_alias i else alias_base i @ sep # join_with sep us)
    = Inr exact"
proof -
  from assms(1) obtain bs where bs: "list_all proper bs" "b_path b = abs_path bs"
    "rel_parts (b_path b) = bs" by (rule canonicalE)
  from assms(3) obtain ts where ts: "list_all proper ts" "exact = abs_path ts" "rel_parts exact = ts"
    by (rule canonicalE)
  have us: "ts = bs @ us" "list_all proper us" using assms(2) bs ts by auto
  show ?thesis
  proof (cases "us = []")
    case True
    then have "trim_prefix (trim_prefix (root_alias i) (alias_base i)) ''/'' = []"
      by (simp add: root_alias_base trim_prefix_def has_prefix_def)
    with True assms(4,5) bs ts us show ?thesis by (simp add: resolve_in_def trim_root_alias)
  next
    case False
    have "trim_prefix (trim_prefix (alias_base i @ sep # join_with sep us) (alias_base i)) ''/''
        = join_with sep us"
      by (simp add: trim_prefix_def has_prefix_def)
    moreover have "path_join (b_path b) (join_with sep us) = exact"
      using path_join_abs [OF bs(1) us(2) False] bs ts us by simp
    moreover have "case path_rel (b_path b) exact of Inl _ \<Rightarrow> False | Inr r \<Rightarrow> \<not> escapes r"
      using path_rel_within_canonical [OF assms(1,3)] assms(2) by (simp add: within_def)
    ultimately show ?thesis
      using False assms(3-6) join_proper_first [OF us(2) False]
      by (auto simp: resolve_in_def trim_root_alias split: sum.splits)
  qed
qed

text \<open>The alias \<open>Project\<close> gives, in terms of components.\<close>

lemma Project_alias:
  assumes "table_ok t" "is_abs exact" "Project t exact = Inr a"
  obtains i us where "i < length t" "rel_parts (path_clean exact) = rel_parts (b_path (t ! i)) @ us"
    "list_all proper us"
    "a = (if us = [] then root_alias i else alias_base i @ sep # join_with sep us)"
proof -
  let ?p = "path_clean exact"
  have p: "canonical ?p" using assms(2) by (rule canonical_clean_abs)
  have can: "\<forall>b \<in> set t. canonical (b_path b)"
    using assms(1) by (auto simp: table_ok_def in_set_conv_nth)
  from assms(3) have "project_loop t ?p = Inr a" by (simp add: Project_def)
  from project_loop_nth [OF this p can] obtain i r where i: "i < length t"
    and w: "within (b_path (t ! i)) ?p" and r: "path_rel (b_path (t ! i)) ?p = Inr r"
    and a: "a = (if r = ''.'' then b_alias (t ! i) else trim_suffix (b_alias (t ! i)) ''/'' @ ''/'' @ r)"
    by blast
  from can i have "canonical (b_path (t ! i))" by simp
  then obtain bs where bs: "list_all proper bs" "b_path (t ! i) = abs_path bs"
    "rel_parts (b_path (t ! i)) = bs" by (rule canonicalE)
  from p obtain ts where ts: "list_all proper ts" "?p = abs_path ts" "rel_parts ?p = ts"
    by (rule canonicalE)
  from w bs ts obtain us where us: "ts = bs @ us" by (auto simp: within_def prefix_def)
  with ts(1) have pus: "list_all proper us" by simp
  have "r = (if us = [] then ''.'' else join_with sep us)"
    using r bs ts us pus by (auto simp: path_rel_append)
  then have "a = (if us = [] then root_alias i else alias_base i @ sep # join_with sep us)"
    using a assms(1) i join_proper_not_dot [OF pus]
    by (auto simp: table_ok_def trim_root_alias)
  with i bs ts us pus show thesis by (intro that) auto
qed

section \<open>The contract its clients use\<close>

text \<open>
  What the service relies on: on paths the table covers, projection is undone by
  resolution.
\<close>

locale alias_contract =
  fixes proj :: "'t \<Rightarrow> string \<Rightarrow> string res"
    and resolve :: "'t \<Rightarrow> string \<Rightarrow> string res"
    and covers :: "'t \<Rightarrow> string \<Rightarrow> bool"
  assumes resolve_proj: "covers t p \<Longrightarrow> proj t p = Inr a \<Longrightarrow> resolve t a = Inr p"
    and proj_total: "covers t p \<Longrightarrow> is_ok (proj t p)"
begin

lemma proj_inject:
  "covers t p \<Longrightarrow> covers t q \<Longrightarrow> proj t p = proj t q \<longleftrightarrow> p = q"
  by (metis resolve_proj proj_total is_okE sum.inject(2))

end

definition bound_now :: "os_view \<Rightarrow> alias_table \<Rightarrow> bool" where
  "bound_now os t \<longleftrightarrow> (\<forall>b \<in> set t. stableIdentity os (b_path b) = Inr (b_identity b))"

definition table_covers :: "os_view \<Rightarrow> alias_table \<Rightarrow> string \<Rightarrow> bool" where
  "table_covers os t p \<longleftrightarrow>
     table_ok t \<and> bound_now os t \<and> canonical p \<and> \<not> hasTraversal p
     \<and> (\<exists>b \<in> set t. within (b_path b) p)"

lemma hasTraversal_suffix:
  assumes "\<not> hasTraversal p" "canonical p" "rel_parts p = bs @ us"
  shows "\<not> hasTraversal (join_with sep us)"
proof (cases "us = []")
  case True
  then show ?thesis by (simp add: hasTraversal_def fields_func_def)
next
  case False
  from assms(2,3) have "p = abs_path (bs @ us)" by (metis canonicalE)
  with False have "\<exists>u. p = u @ sep # join_with sep us"
    by (cases "bs = []") (auto simp: abs_path_def join_with_append intro: exI [of _ "sep # join_with sep bs"])
  then obtain u where "p = u @ sep # join_with sep us" by blast
  with assms(1) show ?thesis by (auto simp: hasTraversal_def fields_func_append)
qed

lemma Resolve_Project:
  assumes ok: "table_ok t" "bound_now os t" and p: "is_abs p" "\<not> hasTraversal (path_clean p)"
    and a: "Project t p = Inr a"
  shows "Resolve os t a = Inr (path_clean p)"
proof -
  obtain i us where i: "i < length t"
    and rel: "rel_parts (path_clean p) = rel_parts (b_path (t ! i)) @ us"
    and eq: "a = (if us = [] then root_alias i else alias_base i @ sep # join_with sep us)"
    using Project_alias [OF ok(1) p(1) a] by metis
  have al: "b_alias (t ! j) = root_alias j" "canonical (b_path (t ! j))" if "j < length t" for j
    using ok(1) that by (auto simp: table_ok_def)
  have "alias_matches (t ! i) a" "\<forall>j < i. \<not> alias_matches (t ! j) a"
    using al i by (auto simp: eq alias_matches_iff)
  then have "Resolve os t a = resolve_in os (t ! i) a" by (rule Resolve_nth [OF i])
  also have "\<dots> = Inr (path_clean p)"
    unfolding eq
  proof (rule resolve_in_projected [OF _ rel])
    show "canonical (path_clean p)" using p(1) by (rule canonical_clean_abs)
    then show "\<not> hasTraversal (join_with sep us)" using p(2) rel by (metis hasTraversal_suffix)
    show "stableIdentity os (b_path (t ! i)) = Inr (b_identity (t ! i))"
      using ok(2) i by (simp add: bound_now_def)
  qed (use al i in auto)
  finally show ?thesis .
qed

interpretation aliases: alias_contract Project "Resolve os" "table_covers os" for os
proof
  fix t p a
  assume "table_covers os t p" "Project t p = Inr a"
  then show "Resolve os t a = Inr p"
    using Resolve_Project [of t os p a] by (auto simp: table_covers_def)
next
  fix t p
  assume c: "table_covers os t p"
  then have "\<forall>b \<in> set t. canonical (b_path b)"
    by (auto simp: table_covers_def table_ok_def in_set_conv_nth)
  with c have "\<not> (\<exists>e. project_loop t p = Inl e)"
    using project_loop_error [of p t] by (auto simp: table_covers_def)
  with c show "is_ok (Project t p)"
    by (cases "project_loop t p") (auto simp: Project_def table_covers_def)
qed

definition demo_table :: alias_table where
  "demo_table = [\<lparr>b_alias = ''workspace://'', b_path = ''/home/dev/repo'',
                   b_identity = ''1:2:2147483648''\<rparr>,
                 \<lparr>b_alias = ''temp://0'', b_path = ''/tmp/t'', b_identity = ''1:2:2147483648''\<rparr>]"

lemma demo_alias_new: "alias_new demo_os demo_validated = Inr demo_table"
  by code_simp

lemma demo_getwd: "getwd demo_os = Inr wd \<Longrightarrow> is_abs wd"
  by (auto simp: demo_os_def is_abs_def has_prefix_def)

section \<open>Properties\<close>

text \<open>
  C20: Whatever alias text is presented, a table made for an accepted scope resolves it only
  to a cleaned absolute path at or below one of its bound roots, and only while that root
  still has the identity recorded when the table was made.
\<close>

theorem Resolve_contained:
  assumes "scope_validate os home input = Inr v" and "\<And>wd. getwd os = Inr wd \<Longrightarrow> is_abs wd"
    and "alias_new os v = Inr t" and "Resolve os' t alias = Inr p"
  shows "\<exists>r \<in> set (vs_roots v). canonical p \<and> within (rt_path r) p
    \<and> stableIdentity os' (rt_path r) = stableIdentity os (rt_path r)"
proof -
  have "scope_ok os v" using scope_validate_ok [OF assms(1,2)] .
  note t = alias_new_table_ok [OF assms(3) this]
  from Resolve_in_table [OF assms(4)] obtain b where b: "b \<in> set t" "resolve_in os' b alias = Inr p"
    by blast
  then have "canonical (b_path b)" using t(1) by (auto simp: table_ok_def in_set_conv_nth)
  note c = resolve_in_contained [OF b(2) this]
  have "b_path b \<in> set (map rt_path (vs_roots v))" using b(1) unfolding t(2) [symmetric] by simp
  then obtain r where "r \<in> set (vs_roots v)" "rt_path r = b_path b" by auto
  with b(1) c t(3) show ?thesis by (metis (no_types))
qed

theorem Resolve_contained_witness:
  "\<exists>r \<in> set (vs_roots demo_validated). canonical ''/tmp/t/log'' \<and> within (rt_path r) ''/tmp/t/log''
    \<and> stableIdentity demo_os (rt_path r) = stableIdentity demo_os (rt_path r)"
proof (rule Resolve_contained [OF demo_scope_validates demo_getwd demo_alias_new])
  show "Resolve demo_os demo_table ''temp://0/log'' = Inr ''/tmp/t/log''" by code_simp
qed

text \<open>
  C34: Round trip of the aliases: for a table made for an accepted scope, whenever an absolute
  path is projected to an alias, that alias resolves back to the cleaned path as long as the
  roots keep their identities and the path has no component that reads as a parent traversal
  when backslashes count as separators.
\<close>

theorem alias_roundtrip:
  assumes "scope_validate os home input = Inr v" and "\<And>wd. getwd os = Inr wd \<Longrightarrow> is_abs wd"
    and "alias_new os v = Inr t" and "bound_now os' t"
    and "is_abs p" and "\<not> hasTraversal (path_clean p)" and "Project t p = Inr a"
  shows "Resolve os' t a = Inr (path_clean p)"
  using assms(4-7) alias_new_table_ok(1) [OF assms(3) scope_validate_ok [OF assms(1,2)]]
  by (intro Resolve_Project)

theorem alias_roundtrip_witness:
  "Resolve demo_os demo_table ''workspace://out/a.o'' = Inr (path_clean ''/home/dev/repo/./out//a.o'')"
proof (rule alias_roundtrip [OF demo_scope_validates demo_getwd demo_alias_new])
  show "bound_now demo_os demo_table" by code_simp
  show "is_abs ''/home/dev/repo/./out//a.o''" by code_simp
  show "\<not> hasTraversal (path_clean ''/home/dev/repo/./out//a.o'')" by code_simp
  show "Project demo_table ''/home/dev/repo/./out//a.o'' = Inr ''workspace://out/a.o''" by code_simp
qed

text \<open>
  Projection of an absolute path fails exactly when the cleaned path lies below none of
  the accepted roots: no path outside the scope ever receives an alias.
\<close>

theorem Project_outside_iff:
  assumes "scope_validate os home input = Inr v" and "\<And>wd. getwd os = Inr wd \<Longrightarrow> is_abs wd"
    and "alias_new os v = Inr t" and "is_abs p"
  shows "is_ok (Project t p) \<longleftrightarrow> (\<exists>r \<in> set (vs_roots v). within (rt_path r) (path_clean p))"
proof -
  note t = alias_new_table_ok [OF assms(3) scope_validate_ok [OF assms(1,2)]]
  have "\<forall>b \<in> set t. canonical (b_path b)" using t(1) by (auto simp: table_ok_def in_set_conv_nth)
  then have "is_ok (Project t p) \<longleftrightarrow> (\<exists>b \<in> set t. within (b_path b) (path_clean p))"
    using project_loop_error [OF canonical_clean_abs [OF assms(4)], of t]
    by (cases "project_loop t (path_clean p)") (auto simp: Project_def)
  also have "\<dots> \<longleftrightarrow> (\<exists>q \<in> set (map b_path t). within q (path_clean p))" by auto
  also have "\<dots> \<longleftrightarrow> (\<exists>q \<in> set (map rt_path (vs_roots v)). within q (path_clean p))"
    by (simp only: t(2))
  finally show ?thesis by auto
qed

theorem Project_outside_iff_witness:
  "is_ok (Project demo_table ''/etc/passwd'') \<longleftrightarrow>
    (\<exists>r \<in> set (vs_roots demo_validated). within (rt_path r) (path_clean ''/etc/passwd''))"
  by (rule Project_outside_iff [OF demo_scope_validates demo_getwd demo_alias_new])
    (assumption, simp add: is_abs_def has_prefix_def)

text \<open>
  The traversal test of \<open>Resolve\<close> also splits at backslashes, which are ordinary
  characters of a Unix file name: such a file gets an alias that never resolves.
\<close>

theorem backslash_alias_unresolvable:
  "Project demo_table (''/tmp/t/a'' @ [CHR 0x5C] @ ''..'' @ [CHR 0x5C] @ ''b'')
     = Inr (''temp://0/a'' @ [CHR 0x5C] @ ''..'' @ [CHR 0x5C] @ ''b'')
   \<and> Resolve demo_os demo_table (''temp://0/a'' @ [CHR 0x5C] @ ''..'' @ [CHR 0x5C] @ ''b'')
     = Inl (errors_new ''alias path is unsafe'')"
  by code_simp

end
