(* ===== verification/Fs_Observe.thy ===== *)
theory Fs_Observe
  imports Scope_Guard
begin

text \<open>
  Package \<open>fsobserve\<close> (\<open>observer.go\<close>, \<open>diff.go\<close>, \<open>types.go\<close>,
  \<open>identity_unix.go\<close>): walking the validated roots into a snapshot under entry, byte
  and time limits, and comparing a later snapshot with the baseline. A Go map of entries is
  an association list in insertion order; where the source ranges over it the result is
  sorted afterwards. The digest function SHA-256 is a parameter.
\<close>

section \<open>Types\<close>

record limits =
  lm_max_entries :: int
  lm_max_bytes :: int
  lm_max_duration :: duration

record entry =
  en_root_index :: int
  en_relative :: string
  en_path :: string
  en_kind :: string
  en_identity :: string
  en_size :: int
  en_mod_time :: gtime
  en_mode :: file_mode
  en_symlink :: bool

record fs_baseline =
  bl_scope :: validated
  bl_captured_at :: gtime
  bl_entries :: "(string \<times> entry) list"
  bl_root_ids :: "string list"

record fs_diff =
  df_candidates :: "candidate list"
  df_removed :: "string list"
  df_limitations :: "string list"

text \<open>
  The state of one snapshot: the entries, the running byte total, and the number of
  callbacks so far, which indexes the answers \<open>ctx.Err()\<close> gives.
\<close>

record snap =
  sn_entries :: "(string \<times> entry) list"
  sn_total :: int
  sn_calls :: nat

type_synonym ctx = "nat \<Rightarrow> err option"

section \<open>Operations\<close>

definition NewObserver :: "limits \<Rightarrow> limits" where
  "NewObserver l =
     \<lparr>lm_max_entries = (if lm_max_entries l \<le> 0 then 100000 else lm_max_entries l),
      lm_max_bytes = (if lm_max_bytes l \<le> 0 then 2 ^ 40 else lm_max_bytes l),
      lm_max_duration = (if lm_max_duration l \<le> 0 then 30 * second_ns else lm_max_duration l)\<rparr>"

definition objectIdentity :: "finfo \<Rightarrow> string res" where
  "objectIdentity info =
     (case fi_stat info of
        None \<Rightarrow> Inl (errors_new ''native file identity unavailable'')
      | Some (dev, ino) \<Rightarrow> Inr (identity_text dev ino (fi_mode info AND ModeType)))"

definition entryKey :: "int \<Rightarrow> string \<Rightarrow> string" where
  "entryKey rootIndex relative = itoa rootIndex @ '':'' @ path_clean relative"

text \<open>The entry recorded for one object.\<close>

definition make_entry :: "int \<Rightarrow> string \<Rightarrow> string \<Rightarrow> finfo \<Rightarrow> string \<Rightarrow> entry" where
  "make_entry rootIndex relative path info identity =
     \<lparr>en_root_index = rootIndex, en_relative = relative, en_path = path,
      en_kind = (if mode_is_dir info then ''directory''
                 else if mode_is_symlink info then ''symlink'' else ''file''),
      en_identity = identity, en_size = fi_size info, en_mod_time = time_utc (fi_mtime info),
      en_mode = fi_mode info, en_symlink = mode_is_symlink info\<rparr>"

text \<open>The callback of \<open>filepath.WalkDir\<close>, for a path met without a walk error.\<close>

definition visit ::
    "os_view \<Rightarrow> limits \<Rightarrow> ctx \<Rightarrow> int \<Rightarrow> string \<Rightarrow> string \<Rightarrow> snap \<Rightarrow> snap res" where
  "visit os l ctx rootIndex rootPath path st0 =
     (let st = st0\<lparr>sn_calls := Suc (sn_calls st0)\<rparr>
      in case ctx (sn_calls st0) of
        Some e \<Rightarrow> Inl e
      | None \<Rightarrow>
        if path = rootPath then Inr st
        else if int (length (sn_entries st)) \<ge> lm_max_entries l then
          Inl (errors_new ''entry limit exceeded'')
        else
          and_then (lstat os path) (\<lambda>info.
          and_then (path_rel rootPath path) (\<lambda>relative.
          and_then (objectIdentity info) (\<lambda>identity.
            let total = wrap64 (sn_total st + fi_size info)
            in if total > lm_max_bytes l then Inl (errors_new ''byte limit exceeded'')
               else Inr (st\<lparr>sn_total := total,
                            sn_entries := AList.update (entryKey rootIndex relative)
                              (make_entry rootIndex relative path info identity)
                              (sn_entries st)\<rparr>)))))"

text \<open>
  \<open>walkDir\<close>: the callback on the path itself, then the entries of a directory in
  lexical order; a directory that cannot be read makes the callback return that error.
\<close>

fun walk :: "(string \<Rightarrow> 's \<Rightarrow> 's res) \<Rightarrow> string \<Rightarrow> dtree \<Rightarrow> 's \<Rightarrow> 's res"
  and walk_list :: "(string \<Rightarrow> 's \<Rightarrow> 's res) \<Rightarrow> string \<Rightarrow> (string \<times> dtree) list \<Rightarrow> 's \<Rightarrow> 's res" where
  "walk f path DLeaf st = f path st"
| "walk f path (DUnreadable e) st = and_then (f path st) (\<lambda>_. Inl e)"
| "walk f path (DDir kids) st = and_then (f path st) (\<lambda>st'. walk_list f path kids st')"
| "walk_list f path [] st = Inr st"
| "walk_list f path ((name, t) # kids) st =
     and_then (walk f (path_join path name) t st) (\<lambda>st'. walk_list f path kids st')"

definition WalkDir :: "os_view \<Rightarrow> string \<Rightarrow> (string \<Rightarrow> 's \<Rightarrow> 's res) \<Rightarrow> 's \<Rightarrow> 's res" where
  "WalkDir os root f st =
     (case lstat os root of
        Inl e \<Rightarrow> Inl e
      | Inr info \<Rightarrow> if mode_is_dir info then walk f root (shape os root) st else f root st)"

fun snapshot_roots ::
    "os_view \<Rightarrow> limits \<Rightarrow> ctx \<Rightarrow> int \<Rightarrow> root list \<Rightarrow> snap \<Rightarrow> (snap \<times> string list) res" where
  "snapshot_roots os l ctx i [] st = Inr (st, [])"
| "snapshot_roots os l ctx i (r # rs) st =
     (case lstat os (rt_path r) of
        Inl e \<Rightarrow> Inl (Errorf [Lit ''stat root '', Quoted (rt_path r), Lit '': '', Wrapped e])
      | Inr info \<Rightarrow>
        (case objectIdentity info of
           Inl e \<Rightarrow> Inl (Errorf [Lit ''identify root '', Quoted (rt_path r), Lit '': '', Wrapped e])
         | Inr rootID \<Rightarrow>
           (case WalkDir os (rt_path r) (visit os l ctx i (rt_path r)) st of
              Inl e \<Rightarrow> Inl (Errorf [Lit ''observe root '', Quoted (rt_path r), Lit '': '', Wrapped e])
            | Inr st' \<Rightarrow>
                and_then (snapshot_roots os l ctx (i + 1) rs st') (\<lambda>(st'', ids).
                  Inr (st'', rootID # ids)))))"

definition snapshot ::
    "os_view \<Rightarrow> limits \<Rightarrow> ctx \<Rightarrow> validated \<Rightarrow> ((string \<times> entry) list \<times> string list) res" where
  "snapshot os l ctx v =
     and_then (snapshot_roots os l ctx 0 (vs_roots v) \<lparr>sn_entries = [], sn_total = 0, sn_calls = 0\<rparr>)
       (\<lambda>(st, ids). Inr (sn_entries st, ids))"

definition Capture :: "os_view \<Rightarrow> limits \<Rightarrow> ctx \<Rightarrow> gtime \<Rightarrow> validated \<Rightarrow> fs_baseline res" where
  "Capture os l ctx now v =
     and_then (snapshot os l ctx v) (\<lambda>(entries, ids).
       Inr \<lparr>bl_scope = v, bl_captured_at = time_utc now, bl_entries = entries, bl_root_ids = ids\<rparr>)"

definition candidateFor ::
    "(string \<Rightarrow> string) \<Rightarrow> entry \<Rightarrow> current_status \<Rightarrow> string \<Rightarrow> candidate" where
  "candidateFor sha e status reason =
     (let kind = (if en_kind e = ''directory'' then CandidateDirectory else CandidateFile);
          digest = sha (candidate_kind_string kind @ [CHR 0x00] @ en_identity e @ [CHR 0x00] @ en_path e)
      in \<lparr>c_id = ''fs-'' @ to_hex (take 12 digest), c_kind = kind, c_path = en_path e,
          c_object_identity = en_identity e, c_process = None, c_parent_pid = 0, c_port = None,
          c_size_bytes = en_size e, c_evidence_level = EvidenceBaselineObserved,
          c_current_status = status, c_reason = reason, c_recommendation = ''review'',
          c_event_ids = [], c_receipt_ids = [], c_limitations = [], c_conflicts = []\<rparr>)"

definition entry_changed :: "entry \<Rightarrow> entry \<Rightarrow> bool" where
  "entry_changed e before \<longleftrightarrow>
     en_identity e \<noteq> en_identity before \<or> en_size e \<noteq> en_size before
     \<or> \<not> time_equal (en_mod_time e) (en_mod_time before) \<or> en_mode e \<noteq> en_mode before"

fun diff_candidates ::
    "(string \<Rightarrow> string) \<Rightarrow> (string \<times> entry) list \<Rightarrow> (string \<times> entry) list \<Rightarrow> candidate list" where
  "diff_candidates sha base [] = []"
| "diff_candidates sha base ((key, e) # rest) =
     (case map_of base key of
        None \<Rightarrow> candidateFor sha e StatusPresent ''created after task observation began''
                # diff_candidates sha base rest
      | Some before \<Rightarrow>
          if entry_changed e before
          then candidateFor sha e StatusChangedSinceReport ''changed after task observation began''
               # diff_candidates sha base rest
          else diff_candidates sha base rest)"

fun root_ids_check :: "int \<Rightarrow> string list \<Rightarrow> string list \<Rightarrow> unit res" where
  "root_ids_check i (a # as) (b # bs) =
     (if a \<noteq> b then Inl (errors_new (''root identity changed: root '' @ itoa i))
      else root_ids_check (i + 1) as bs)"
| "root_ids_check i _ _ = Inr ()"

definition path_less :: "candidate \<Rightarrow> candidate \<Rightarrow> bool" where
  "path_less a b \<longleftrightarrow> c_path a < c_path b"

definition Compare ::
    "(string \<Rightarrow> string) \<Rightarrow> os_view \<Rightarrow> limits \<Rightarrow> ctx \<Rightarrow> fs_baseline \<Rightarrow> fs_diff res" where
  "Compare sha os l ctx baseline =
     and_then (snapshot os l ctx (bl_scope baseline)) (\<lambda>(current, rootIDs).
       if length rootIDs \<noteq> length (bl_root_ids baseline) then
         Inl (errors_new ''root identity changed: root count differs'')
       else
         and_then (root_ids_check 0 rootIDs (bl_root_ids baseline)) (\<lambda>_.
           Inr \<lparr>df_candidates =
                   sort_by path_less (diff_candidates sha (bl_entries baseline) current),
                 df_removed =
                   sort_strings (map (\<lambda>(_, e). en_relative e)
                     (filter (\<lambda>(key, _). map_of current key = None) (bl_entries baseline))),
                 df_limitations = []\<rparr>))"

text \<open>\<open>VerifyCandidate\<close>; every error is returned together with \<open>StatusUnknown\<close>.\<close>

definition VerifyCandidate :: "os_view \<Rightarrow> candidate \<Rightarrow> current_status res" where
  "VerifyCandidate os c =
     (if c_path c = [] \<or> (c_kind c \<noteq> CandidateFile \<and> c_kind c \<noteq> CandidateDirectory) then
        Inl (errors_new ''candidate is not a filesystem object'')
      else case lstat os (c_path c) of
        Inl e \<Rightarrow> if err_is ErrNotExist e then Inr StatusNoLongerPresent else Inl e
      | Inr info \<Rightarrow>
          and_then (objectIdentity info) (\<lambda>identity.
            if identity \<noteq> c_object_identity c \<or> fi_size info \<noteq> c_size_bytes c
            then Inr StatusChangedSinceReport else Inr StatusPresent))"

section \<open>Walking keeps what the callback keeps\<close>

text \<open>
  The interface between \<open>WalkDir\<close> and its callback: what each call keeps of the
  accumulated state, on paths built from the root by joining listed names.
\<close>

fun names_ok :: "(string \<Rightarrow> bool) \<Rightarrow> dtree \<Rightarrow> bool" where
  "names_ok P DLeaf = True"
| "names_ok P (DUnreadable e) = True"
| "names_ok P (DDir kids) = (\<forall>(n, t) \<in> set kids. P n \<and> names_ok P t)"

locale walk_callback =
  fixes f :: "string \<Rightarrow> 's \<Rightarrow> 's res" and inv :: "'s \<Rightarrow> bool"
    and reach :: "string \<Rightarrow> bool" and legal :: "string \<Rightarrow> bool"
  assumes f_inv: "reach p \<Longrightarrow> inv s \<Longrightarrow> f p s = Inr s' \<Longrightarrow> inv s'"
    and reach_join: "reach p \<Longrightarrow> legal n \<Longrightarrow> reach (path_join p n)"
begin

lemma walk_both_inv:
  "g = f \<Longrightarrow> walk g p t s = Inr s' \<Longrightarrow> reach p \<Longrightarrow> names_ok legal t \<Longrightarrow> inv s \<Longrightarrow> inv s'"
  "g = f \<Longrightarrow> walk_list g p kids s = Inr s' \<Longrightarrow> reach p
     \<Longrightarrow> \<forall>(n, t) \<in> set kids. legal n \<and> names_ok legal t \<Longrightarrow> inv s \<Longrightarrow> inv s'"
proof (induction g p t s and g p kids s arbitrary: s' and s' rule: walk_walk_list.induct)
  case (1 g path st)
  then show ?case by (auto intro: f_inv)
next
  case (2 g path e st)
  then show ?case by (auto simp: res_simps)
next
  case (3 g path kids st)
  from "3.prems"(1,2) obtain st' where st': "g path st = Inr st'" "walk_list g path kids st' = Inr s'"
    by (auto simp: res_simps)
  with "3.prems" have "inv st'" by (auto intro: f_inv)
  with "3.IH" [OF st'(1) "3.prems"(1) st'(2) "3.prems"(3)] "3.prems"(4) show ?case by simp
next
  case (4 g path st)
  then show ?case by simp
next
  case (5 g path name t kids st)
  from "5.prems"(1,2) obtain st' where st': "walk g (path_join path name) t st = Inr st'"
    "walk_list g path kids st' = Inr s'" by (auto simp: res_simps)
  have "inv st'"
    using "5.IH"(1) [OF "5.prems"(1) st'(1)] "5.prems"(3-5) reach_join by auto
  then show ?case using "5.IH"(2) [OF st'(1) "5.prems"(1) st'(2) "5.prems"(3)] "5.prems"(4) by auto
qed

lemmas walk_inv = walk_both_inv(1) [OF refl]

end

section \<open>What a snapshot keeps\<close>

lemma length_update_le: "length (AList.update k v xs) \<le> Suc (length xs)"
  by (induction xs) auto

lemma set_update_subset: "set (AList.update k v xs) \<subseteq> insert (k, v) (set xs)"
  by (induction xs) auto

lemma sum_update_le:
  assumes "\<forall>(j, x) \<in> set xs. 0 \<le> (f x :: int)"
  shows "sum_list (map (\<lambda>(_, x). f x) (AList.update k v xs)) \<le> sum_list (map (\<lambda>(_, x). f x) xs) + f v"
  using assms by (induction xs) auto

text \<open>
  An entry of root \<open>i\<close> at \<open>r\<close>: its key, its relative path, its metadata as
  \<open>Lstat\<close> reports it, and its place at or below the root.
\<close>

definition entry_ok :: "os_view \<Rightarrow> int \<Rightarrow> string \<Rightarrow> string \<Rightarrow> entry \<Rightarrow> bool" where
  "entry_ok os i r key e \<longleftrightarrow>
     en_root_index e = i \<and> key = entryKey i (en_relative e)
     \<and> path_rel r (en_path e) = Inr (en_relative e)
     \<and> (\<exists>info. lstat os (en_path e) = Inr info \<and> objectIdentity info = Inr (en_identity e)
          \<and> en_size e = fi_size info \<and> en_mode e = fi_mode info
          \<and> en_mod_time e = time_utc (fi_mtime info)
          \<and> (en_kind e = ''directory'' \<longleftrightarrow> mode_is_dir info))
     \<and> canonical (en_path e) \<and> strict_prefix (rel_parts r) (rel_parts (en_path e))"

definition entry_in :: "os_view \<Rightarrow> root list \<Rightarrow> string \<Rightarrow> entry \<Rightarrow> bool" where
  "entry_in os rs key e \<longleftrightarrow>
     (\<exists>i < length rs. entry_ok os (int i) (rt_path (rs ! i)) key e)"

definition snap_inv :: "os_view \<Rightarrow> limits \<Rightarrow> root list \<Rightarrow> snap \<Rightarrow> bool" where
  "snap_inv os l rs st \<longleftrightarrow>
     int (length (sn_entries st)) \<le> lm_max_entries l \<and> sn_total st \<le> lm_max_bytes l
     \<and> distinct (map fst (sn_entries st))
     \<and> (\<forall>(k, e) \<in> set (sn_entries st). entry_in os rs k e)"

lemma make_entry_simps [simp]:
  "en_root_index (make_entry i rel p info idn) = i" "en_relative (make_entry i rel p info idn) = rel"
  "en_path (make_entry i rel p info idn) = p" "en_identity (make_entry i rel p info idn) = idn"
  "en_size (make_entry i rel p info idn) = fi_size info"
  "en_mode (make_entry i rel p info idn) = fi_mode info"
  "en_mod_time (make_entry i rel p info idn) = time_utc (fi_mtime info)"
  "en_kind (make_entry i rel p info idn) = ''directory'' \<longleftrightarrow> mode_is_dir info"
  by (simp_all add: make_entry_def)

lemma visit_Inr:
  assumes "visit os l ctx i r p st = Inr st'"
  obtains (root) "p = r" "st' = st\<lparr>sn_calls := Suc (sn_calls st)\<rparr>"
  | (entry) info relative identity where
      "p \<noteq> r" "int (length (sn_entries st)) < lm_max_entries l"
      "lstat os p = Inr info" "path_rel r p = Inr relative" "objectIdentity info = Inr identity"
      "wrap64 (sn_total st + fi_size info) \<le> lm_max_bytes l"
      "st' = st\<lparr>sn_calls := Suc (sn_calls st), sn_total := wrap64 (sn_total st + fi_size info),
         sn_entries := AList.update (entryKey i relative) (make_entry i relative p info identity)
           (sn_entries st)\<rparr>"
  using assms
  by (auto simp: visit_def Let_def res_simps not_le not_less split: option.splits if_splits)

definition below :: "string \<Rightarrow> string \<Rightarrow> bool" where
  "below r p \<longleftrightarrow> canonical p \<and> prefix (rel_parts r) (rel_parts p)"

lemma below_join: "below r p \<Longrightarrow> proper n \<Longrightarrow> below r (path_join p n)"
proof -
  assume b: "below r p" and n: "proper n"
  then obtain cs where cs: "list_all proper cs" "p = abs_path cs" "rel_parts p = cs"
    by (auto simp: below_def elim: canonicalE)
  then have j: "path_join p n = abs_path (cs @ [n])"
    using path_join_abs [of cs "[n]"] n by simp
  have pr: "list_all proper (cs @ [n])" using cs(1) n by simp
  then have "canonical (path_join p n)" unfolding j canonical_def by blast
  moreover have "rel_parts (path_join p n) = cs @ [n]" using j pr by simp
  ultimately show ?thesis using b cs by (auto simp: below_def)
qed

lemma visit_inv:
  assumes "visit os l ctx (int i) (rt_path (rs ! i)) p st = Inr st'" "i < length rs"
    "snap_inv os l rs st" "below (rt_path (rs ! i)) p" "canonical (rt_path (rs ! i))"
  shows "snap_inv os l rs st'"
  using assms(1)
proof (cases rule: visit_Inr)
  case root
  with assms(3) show ?thesis by (simp add: snap_inv_def)
next
  case (entry info relative identity)
  let ?r = "rt_path (rs ! i)" and ?k = "entryKey (int i) relative"
    and ?e = "make_entry (int i) relative p info identity"
  have "strict_prefix (rel_parts ?r) (rel_parts p)"
    using assms(4,5) entry(1) canonical_inject [of ?r p] by (auto simp: below_def strict_prefix_def)
  then have "entry_ok os (int i) ?r ?k ?e"
    using entry assms(4) by (auto simp: entry_ok_def below_def)
  then have "entry_in os rs ?k ?e" using assms(2) by (auto simp: entry_in_def)
  moreover have "int (length (AList.update ?k ?e (sn_entries st))) \<le> lm_max_entries l"
    using length_update_le [of ?k ?e "sn_entries st"] entry(2) by linarith
  ultimately show ?thesis
    using assms(3) entry(6,7) set_update_subset [of ?k ?e "sn_entries st"]
    by (auto simp: snap_inv_def distinct_update)
qed

text \<open>Both invariants of a walk, as interpretations of the callback contract.\<close>

interpretation snap_walk: walk_callback
  "visit os l ctx (int i) (rt_path (rs ! i))" "snap_inv os l rs"
  "\<lambda>p. i < length rs \<and> canonical (rt_path (rs ! i)) \<and> below (rt_path (rs ! i)) p" proper
  for os l ctx i rs
  by unfold_locales (auto intro: visit_inv below_join)

definition sizes_fit :: "os_view \<Rightarrow> limits \<Rightarrow> bool" where
  "sizes_fit os l \<longleftrightarrow>
     (\<forall>p info. lstat os p = Inr info \<longrightarrow> 0 \<le> fi_size info \<and> fi_size info + lm_max_bytes l < 2 ^ 63)"

definition total_bytes :: "(string \<times> entry) list \<Rightarrow> int" where
  "total_bytes es = sum_list (map (\<lambda>(_, e). en_size e) es)"

definition total_inv :: "limits \<Rightarrow> snap \<Rightarrow> bool" where
  "total_inv l st \<longleftrightarrow>
     (\<forall>(k, e) \<in> set (sn_entries st). 0 \<le> en_size e) \<and> 0 \<le> sn_total st
     \<and> sn_total st \<le> lm_max_bytes l \<and> total_bytes (sn_entries st) \<le> sn_total st"

lemma visit_total_inv:
  assumes "sizes_fit os l" "total_inv l st" "visit os l ctx i r p st = Inr st'"
  shows "total_inv l st'"
  using assms(3)
proof (cases rule: visit_Inr)
  case root
  with assms(2) show ?thesis by (simp add: total_inv_def)
next
  case (entry info relative identity)
  let ?k = "entryKey i relative" and ?e = "make_entry i relative p info identity"
  have sz: "0 \<le> fi_size info" "fi_size info + lm_max_bytes l < 2 ^ 63"
    using assms(1) entry(3) by (auto simp: sizes_fit_def)
  with assms(2) have "in_i64 (sn_total st + fi_size info)"
    by (simp add: total_inv_def in_i64_def)
  then have w: "wrap64 (sn_total st + fi_size info) = sn_total st + fi_size info" by simp
  have "total_bytes (AList.update ?k ?e (sn_entries st)) \<le> total_bytes (sn_entries st) + fi_size info"
    using assms(2) sum_update_le [of "sn_entries st" en_size ?k ?e]
    by (simp add: total_bytes_def total_inv_def)
  then show ?thesis
    using entry(6,7) sz assms(2) set_update_subset [of ?k ?e "sn_entries st"] w
    by (auto simp: total_inv_def)
qed

interpretation total_walk: walk_callback
  "visit os l ctx i r" "total_inv l" "\<lambda>_. sizes_fit os l" "\<lambda>_. True"
  for os l ctx i r
  by unfold_locales (auto intro: visit_total_inv)

lemma names_ok_True [simp]: "names_ok (\<lambda>_. True) t"
  by (induction t) auto

text \<open>The directory listings the operating system returns hold proper names only.\<close>

definition listings_ok :: "os_view \<Rightarrow> root list \<Rightarrow> bool" where
  "listings_ok os rs \<longleftrightarrow> (\<forall>r \<in> set rs. names_ok proper (shape os (rt_path r)))"

lemma below_refl: "canonical r \<Longrightarrow> below r r"
  by (simp add: below_def)

lemma WalkDir_snap_inv:
  assumes "WalkDir os (rt_path (rs ! i)) (visit os l ctx (int i) (rt_path (rs ! i))) st = Inr st'"
    "i < length rs" "canonical (rt_path (rs ! i))" "listings_ok os rs" "snap_inv os l rs st"
  shows "snap_inv os l rs st'"
  using assms below_refl [OF assms(3)] visit_inv [of os l ctx i rs "rt_path (rs ! i)" st st']
    snap_walk.walk_inv [of os l ctx i rs "rt_path (rs ! i)" "shape os (rt_path (rs ! i))" st st']
  by (auto simp: WalkDir_def listings_ok_def split: sum.splits if_splits)

lemma snapshot_roots_inv:
  assumes "snapshot_roots os l ctx (int (length pre)) suf st = Inr (st', ids)"
    "rs = pre @ suf" "\<forall>r \<in> set rs. canonical (rt_path r)" "listings_ok os rs" "snap_inv os l rs st"
  shows "snap_inv os l rs st' \<and> length ids = length suf"
  using assms
proof (induction suf arbitrary: pre st ids)
  case (Cons r suf)
  let ?i = "length pre"
  have at: "rs ! ?i = r" "?i < length rs" using Cons.prems(2) by simp_all
  from Cons.prems(1) obtain st1 ids1 where
      w: "WalkDir os (rt_path r) (visit os l ctx (int ?i) (rt_path r)) st = Inr st1"
    and rest: "snapshot_roots os l ctx (int (length (pre @ [r]))) suf st1 = Inr (st', ids1)"
    and ids: "length ids = Suc (length ids1)"
    by (auto simp: res_simps add.commute split: sum.splits)
  have "snap_inv os l rs st1"
    using WalkDir_snap_inv [of os rs ?i l ctx st st1] w at Cons.prems(3-5) by auto
  with Cons.IH [OF rest] Cons.prems(2-4) ids show ?case by simp
qed auto

lemma snapshot_roots_total:
  assumes "snapshot_roots os l ctx i rs st = Inr (st', ids)" "sizes_fit os l" "total_inv l st"
  shows "total_inv l st'"
  using assms
proof (induction rs arbitrary: i st ids)
  case (Cons r rs)
  from Cons.prems(1) obtain st1 ids1 where
      w: "WalkDir os (rt_path r) (visit os l ctx i (rt_path r)) st = Inr st1"
    and rest: "snapshot_roots os l ctx (i + 1) rs st1 = Inr (st', ids1)"
    by (auto simp: res_simps split: sum.splits)
  have "total_inv l st1"
    using w total_walk.walk_inv [of os l ctx i "rt_path r" "rt_path r" _ st st1] Cons.prems(2,3)
      visit_total_inv [of os l st ctx i "rt_path r" "rt_path r" st1]
    by (auto simp: WalkDir_def split: sum.splits if_splits)
  with Cons.IH [OF rest Cons.prems(2)] show ?case by simp
qed auto

lemma snapshot_facts:
  assumes "snapshot os l ctx v = Inr (es, ids)" "scope_ok os v" "listings_ok os (vs_roots v)"
    "0 \<le> lm_max_entries l" "0 \<le> lm_max_bytes l"
  shows "int (length es) \<le> lm_max_entries l" "distinct (map fst es)"
    "\<forall>(k, e) \<in> set es. entry_in os (vs_roots v) k e" "length ids = length (vs_roots v)"
proof -
  let ?s = "\<lparr>sn_entries = [], sn_total = 0, sn_calls = 0\<rparr>"
  from assms(1) obtain st where st: "snapshot_roots os l ctx (int (length ([] :: root list))) (vs_roots v) ?s = Inr (st, ids)"
    and es: "es = sn_entries st" by (auto simp: snapshot_def res_simps)
  have "snap_inv os l (vs_roots v) ?s" using assms(4,5) by (simp add: snap_inv_def)
  then have "snap_inv os l (vs_roots v) st \<and> length ids = length (vs_roots v)"
    using snapshot_roots_inv [OF st] assms(2,3) by (auto simp: scope_ok_def)
  then show "int (length es) \<le> lm_max_entries l" "distinct (map fst es)"
    "\<forall>(k, e) \<in> set es. entry_in os (vs_roots v) k e" "length ids = length (vs_roots v)"
    by (auto simp: snap_inv_def es)
qed

lemma snapshot_total:
  assumes "snapshot os l ctx v = Inr (es, ids)" "sizes_fit os l" "0 \<le> lm_max_bytes l"
  shows "total_bytes es \<le> lm_max_bytes l"
proof -
  let ?s = "\<lparr>sn_entries = [], sn_total = 0, sn_calls = 0\<rparr>"
  from assms(1) obtain st where st: "snapshot_roots os l ctx 0 (vs_roots v) ?s = Inr (st, ids)"
    and es: "es = sn_entries st" by (auto simp: snapshot_def res_simps)
  have "total_inv l ?s" using assms(3) by (simp add: total_inv_def total_bytes_def)
  then have "total_inv l st" by (rule snapshot_roots_total [OF st assms(2)])
  then show ?thesis by (simp add: total_inv_def es)
qed

section \<open>Comparison\<close>

interpretation by_path: comparator path_less
  unfolding path_less_def by (rule comparator_key)

lemma candidateFor_simps [simp]:
  "c_path (candidateFor sha e st rs) = en_path e"
  "c_object_identity (candidateFor sha e st rs) = en_identity e"
  "c_size_bytes (candidateFor sha e st rs) = en_size e"
  "c_current_status (candidateFor sha e st rs) = st"
  "c_reason (candidateFor sha e st rs) = rs"
  "c_recommendation (candidateFor sha e st rs) = ''review''"
  "c_evidence_level (candidateFor sha e st rs) = EvidenceBaselineObserved"
  "c_process (candidateFor sha e st rs) = None"
  "c_conflicts (candidateFor sha e st rs) = []"
  "c_kind (candidateFor sha e st rs) = (if en_kind e = ''directory'' then CandidateDirectory else CandidateFile)"
  by (simp_all add: candidateFor_def Let_def)

text \<open>
  What one current entry contributes, given the entry the baseline has under its key: nothing
  exactly when it is in the same state.
\<close>

definition same_state :: "entry \<Rightarrow> entry \<Rightarrow> bool" where
  "same_state e b \<longleftrightarrow> en_identity e = en_identity b \<and> en_size e = en_size b
     \<and> t_ns (en_mod_time e) = t_ns (en_mod_time b) \<and> en_mode e = en_mode b"

lemma entry_changed_iff: "entry_changed e b \<longleftrightarrow> \<not> same_state e b"
  by (auto simp: entry_changed_def same_state_def time_equal_def)

definition diff_entry :: "(string \<Rightarrow> string) \<Rightarrow> entry option \<Rightarrow> entry \<Rightarrow> candidate option" where
  "diff_entry sha before e =
     (case before of
        None \<Rightarrow> Some (candidateFor sha e StatusPresent ''created after task observation began'')
      | Some b \<Rightarrow>
          if same_state e b then None
          else Some (candidateFor sha e StatusChangedSinceReport ''changed after task observation began''))"

lemma set_diff_candidates:
  "set (diff_candidates sha base es)
     = {c. \<exists>(k, e) \<in> set es. diff_entry sha (map_of base k) e = Some c}"
  by (induction sha base es rule: diff_candidates.induct) (auto simp: diff_entry_def entry_changed_iff split: option.splits)

lemma diff_candidates_self:
  "distinct (map fst base) \<Longrightarrow> set es \<subseteq> set base \<Longrightarrow> diff_candidates sha base es = []"
  by (induction sha base es rule: diff_candidates.induct)
    (auto simp: entry_changed_def time_equal_def)

lemma root_ids_check_Inr:
  "length as = length bs \<Longrightarrow> root_ids_check i as bs = Inr u \<longleftrightarrow> as = bs"
  by (induction i as bs rule: root_ids_check.induct) auto

lemma Compare_Inr:
  "Compare sha os l ctx b = Inr d \<longleftrightarrow>
     (\<exists>current. snapshot os l ctx (bl_scope b) = Inr (current, bl_root_ids b)
        \<and> d = \<lparr>df_candidates = sort_by path_less (diff_candidates sha (bl_entries b) current),
               df_removed = sort_strings (map (\<lambda>(_, e). en_relative e)
                 (filter (\<lambda>(key, _). map_of current key = None) (bl_entries b))),
               df_limitations = []\<rparr>)"
  by (auto simp: Compare_def res_simps root_ids_check_Inr)

lemma sorted_paths: "sorted (map c_path (sort_by path_less cs))"
  using by_path.sort_by_sorted [of cs]
  by (simp add: path_less_def sorted_map sorted_wrt_iff_nth_less not_less)

lemma entry_in_verifies:
  assumes "entry_in os rs k e" "c_path c = en_path e" "c_object_identity c = en_identity e"
    "c_size_bytes c = en_size e" "c_kind c \<in> {CandidateFile, CandidateDirectory}"
  shows "VerifyCandidate os c = Inr StatusPresent"
proof -
  obtain info where "lstat os (en_path e) = Inr info" "objectIdentity info = Inr (en_identity e)"
    "en_size e = fi_size info" "canonical (en_path e)"
    using assms(1) by (auto simp: entry_in_def entry_ok_def)
  with assms is_abs_not_Nil [of "en_path e"] show ?thesis
    by (auto simp: VerifyCandidate_def)
qed

section \<open>A snapshot misses nothing\<close>

text \<open>The paths \<open>WalkDir\<close> meets below a path.\<close>

fun tree_paths :: "string \<Rightarrow> dtree \<Rightarrow> string list"
  and kids_paths :: "string \<Rightarrow> (string \<times> dtree) list \<Rightarrow> string list" where
  "tree_paths p DLeaf = [p]"
| "tree_paths p (DUnreadable e) = [p]"
| "tree_paths p (DDir kids) = p # kids_paths p kids"
| "kids_paths p [] = []"
| "kids_paths p ((n, t) # kids) = tree_paths (path_join p n) t @ kids_paths p kids"

locale walk_marks = walk_callback +
  fixes mark :: "string \<Rightarrow> 's \<Rightarrow> bool"
  assumes f_marks: "reach p \<Longrightarrow> f p s = Inr s' \<Longrightarrow> mark p s'"
    and f_stable: "reach p \<Longrightarrow> f p s = Inr s' \<Longrightarrow> mark q s \<Longrightarrow> mark q s'"
begin

lemma walk_both_marks:
  "g = f \<Longrightarrow> walk g p t s = Inr s' \<Longrightarrow> reach p \<Longrightarrow> names_ok legal t
     \<Longrightarrow> \<forall>q. mark q s \<or> q \<in> set (tree_paths p t) \<longrightarrow> mark q s'"
  "g = f \<Longrightarrow> walk_list g p kids s = Inr s' \<Longrightarrow> reach p
     \<Longrightarrow> \<forall>(n, t) \<in> set kids. legal n \<and> names_ok legal t
     \<Longrightarrow> \<forall>q. mark q s \<or> q \<in> set (kids_paths p kids) \<longrightarrow> mark q s'"
proof (induction g p t s and g p kids s arbitrary: s' and s' rule: walk_walk_list.induct)
  case (1 g path st)
  then show ?case by (auto intro: f_marks f_stable)
next
  case (2 g path e st)
  then show ?case by (auto simp: res_simps)
next
  case (3 g path kids st)
  from "3.prems"(1,2) obtain st' where st': "g path st = Inr st'" "walk_list g path kids st' = Inr s'"
    by (auto simp: res_simps)
  have "mark path st'" "\<forall>q. mark q st \<longrightarrow> mark q st'"
    using "3.prems"(1,3) st'(1) f_marks f_stable by blast+
  with "3.IH" [OF st'(1) "3.prems"(1) st'(2) "3.prems"(3)] "3.prems"(4) show ?case by auto
next
  case (4 g path st)
  then show ?case by simp
next
  case (5 g path name t kids st)
  from "5.prems"(1,2) obtain st' where st': "walk g (path_join path name) t st = Inr st'"
    "walk_list g path kids st' = Inr s'" by (auto simp: res_simps)
  have "\<forall>q. mark q st \<or> q \<in> set (tree_paths (path_join path name) t) \<longrightarrow> mark q st'"
    using "5.IH"(1) [OF "5.prems"(1) st'(1)] "5.prems"(3,4) reach_join by auto
  with "5.IH"(2) [OF st'(1) "5.prems"(1) st'(2) "5.prems"(3)] "5.prems"(4) show ?case by auto
qed

lemmas walk_marks_all = walk_both_marks(1) [OF refl]

end

text \<open>A path of root \<open>i\<close> is marked once the snapshot has an entry under its key.\<close>

definition recorded :: "int \<Rightarrow> string \<Rightarrow> string \<Rightarrow> snap \<Rightarrow> bool" where
  "recorded i r p st \<longleftrightarrow>
     p = r \<or> (\<exists>rel. path_rel r p = Inr rel \<and> entryKey i rel \<in> fst ` set (sn_entries st))"

lemma keys_update: "fst ` set (AList.update k v xs) = insert k (fst ` set xs)"
  by (induction xs) auto

lemma visit_records: "visit os l ctx i r p st = Inr st' \<Longrightarrow> recorded i r p st'"
  by (elim visit_Inr) (auto simp: recorded_def keys_update)

lemma visit_keeps_keys:
  "visit os l ctx i r p st = Inr st' \<Longrightarrow> fst ` set (sn_entries st) \<subseteq> fst ` set (sn_entries st')"
  by (elim visit_Inr) (auto simp: keys_update)

lemma recorded_mono:
  "recorded i r q st \<Longrightarrow> fst ` set (sn_entries st) \<subseteq> fst ` set (sn_entries st') \<Longrightarrow> recorded i r q st'"
  by (auto simp: recorded_def)

interpretation record_walk: walk_marks
  "visit os l ctx i r" "\<lambda>_. True" "\<lambda>_. True" "\<lambda>_. True" "recorded i r"
  for os l ctx i r
  by unfold_locales (auto intro: visit_records elim: recorded_mono dest: visit_keeps_keys)

interpretation keys_walk: walk_callback
  "visit os l ctx i r" "\<lambda>st. K \<subseteq> fst ` set (sn_entries st)" "\<lambda>_. True" "\<lambda>_. True"
  for os l ctx i r K
  by unfold_locales (use visit_keeps_keys in blast)+

lemma snapshot_roots_keys:
  "snapshot_roots os l ctx i rs st = Inr (st', ids)
     \<Longrightarrow> fst ` set (sn_entries st) \<subseteq> fst ` set (sn_entries st')"
proof (induction rs arbitrary: i st ids)
  case (Cons r rs)
  from Cons.prems obtain st1 ids1 where
      w: "WalkDir os (rt_path r) (visit os l ctx i (rt_path r)) st = Inr st1"
    and rest: "snapshot_roots os l ctx (i + 1) rs st1 = Inr (st', ids1)"
    by (auto simp: res_simps split: sum.splits)
  have "fst ` set (sn_entries st) \<subseteq> fst ` set (sn_entries st1)"
    using w visit_keeps_keys [of os l ctx i "rt_path r" "rt_path r" st st1]
      keys_walk.walk_inv [of os l ctx i "rt_path r" "rt_path r" _ st st1 "fst ` set (sn_entries st)"]
    by (auto simp: WalkDir_def split: sum.splits if_splits)
  with Cons.IH [OF rest] show ?case by auto
qed simp

text \<open>The paths the walk of one root meets.\<close>

definition root_paths :: "os_view \<Rightarrow> root \<Rightarrow> string list" where
  "root_paths os r = tree_paths (rt_path r) (shape os (rt_path r))"

lemma snapshot_roots_records:
  assumes "snapshot_roots os l ctx i rs st = Inr (st', ids)" "j < length rs"
    "real_dir os (rt_path (rs ! j))" "q \<in> set (root_paths os (rs ! j))"
  shows "recorded (i + int j) (rt_path (rs ! j)) q st'"
  using assms
proof (induction rs arbitrary: i st ids j)
  case (Cons r rs)
  from Cons.prems(1) obtain st1 ids1 where
      w: "WalkDir os (rt_path r) (visit os l ctx i (rt_path r)) st = Inr st1"
    and rest: "snapshot_roots os l ctx (i + 1) rs st1 = Inr (st', ids1)"
    by (auto simp: res_simps split: sum.splits)
  show ?case
  proof (cases j)
    case 0
    with Cons.prems(3) w have "walk (visit os l ctx i (rt_path r)) (rt_path r)
        (shape os (rt_path r)) st = Inr st1" by (auto simp: WalkDir_def real_dir_def)
    then have "recorded i (rt_path r) q st1"
      using record_walk.walk_marks_all [of os l ctx i "rt_path r" "rt_path r"] 0 Cons.prems(4)
      by (auto simp: root_paths_def)
    then show ?thesis using recorded_mono snapshot_roots_keys [OF rest] 0 by auto
  next
    case (Suc j')
    have "recorded (i + 1 + int j') (rt_path (rs ! j')) q st'"
      using Cons.IH [OF rest] Cons.prems(2-4) Suc by simp
    moreover have "i + 1 + int j' = i + int j" using Suc by simp
    ultimately show ?thesis using Suc by simp
  qed
qed simp

lemma path_clean_join_proper:
  assumes "list_all proper us" "us \<noteq> []" shows "path_clean (join_with sep us) = join_with sep us"
  using assms join_proper_first [OF assms]
  by (simp add: path_clean_def path_parts_join clean_parts_def fold_clean_proper)

lemma below_relE:
  assumes "below r p" "canonical r" "p \<noteq> r" "path_rel r p = Inr rel"
  obtains us where "rel_parts p = rel_parts r @ us" "us \<noteq> []" "list_all proper us"
    "rel = join_with sep us" "path_clean rel = rel"
proof -
  from assms obtain bs ts where bs: "list_all proper bs" "r = abs_path bs" "rel_parts r = bs"
    and ts: "list_all proper ts" "p = abs_path ts" "rel_parts p = ts"
    by (auto simp: below_def elim!: canonicalE)
  have "prefix bs ts" using assms(1) bs(3) ts(3) by (simp add: below_def)
  then obtain us where us: "ts = bs @ us" "us \<noteq> []"
    using assms(3) bs(2) ts(2) by (cases "ts = bs") (auto simp: prefix_def)
  then have "list_all proper us" using ts by simp
  moreover have "rel = join_with sep us"
    using assms(4) us bs ts calculation by (simp add: path_rel_append)
  ultimately show ?thesis using us bs ts that path_clean_join_proper by simp
qed

text \<open>Within one root the key determines the path.\<close>

lemma key_path_inject:
  assumes "below r p" "below r q" "canonical r" "p \<noteq> r" "q \<noteq> r"
    "path_rel r p = Inr rp" "path_rel r q = Inr rq" "path_clean rp = path_clean rq"
  shows "p = q"
proof -
  obtain us where us: "rel_parts p = rel_parts r @ us" "us \<noteq> []" "list_all proper us"
    "rp = join_with sep us" "path_clean rp = rp" by (rule below_relE [OF assms(1,3,4,6)])
  obtain vs where vs: "rel_parts q = rel_parts r @ vs" "vs \<noteq> []" "list_all proper vs"
    "rq = join_with sep vs" "path_clean rq = rq" by (rule below_relE [OF assms(2,3,5,7)])
  have "join_with sep us = join_with sep vs" using us(4,5) vs(4,5) assms(8) by simp
  then have "us = vs" by (metis path_parts_join us(2,3) vs(2,3))
  then show ?thesis
    using us(1) vs(1) assms(1,2) canonical_inject [of p q] by (simp add: below_def)
qed

lemma entryKey_inject: "entryKey i a = entryKey j b \<longleftrightarrow> i = j \<and> path_clean a = path_clean b"
  by (auto simp: entryKey_def sep_append_inject)


lemma tree_both_below:
  "below r p \<Longrightarrow> names_ok proper t \<Longrightarrow> \<forall>q \<in> set (tree_paths p t). below r q"
  "below r p \<Longrightarrow> \<forall>(n, t) \<in> set kids. proper n \<and> names_ok proper t
     \<Longrightarrow> \<forall>q \<in> set (kids_paths p kids). below r q"
  by (induction p t and p kids rule: tree_paths_kids_paths.induct) (auto intro: below_join)

lemma snapshot_complete:
  assumes snap: "snapshot os l ctx v = Inr (es, ids)" and v: "scope_ok os v"
    and ls: "listings_ok os (vs_roots v)" and l: "0 \<le> lm_max_entries l" "0 \<le> lm_max_bytes l"
    and j: "j < length (vs_roots v)" and q: "q \<in> set (root_paths os (vs_roots v ! j))"
      "q \<noteq> rt_path (vs_roots v ! j)"
  shows "\<exists>e rel. path_rel (rt_path (vs_roots v ! j)) q = Inr rel
    \<and> map_of es (entryKey (int j) rel) = Some e \<and> en_path e = q \<and> entry_in os (vs_roots v) (entryKey (int j) rel) e"
proof -
  let ?r = "rt_path (vs_roots v ! j)"
  have r: "canonical ?r" "real_dir os ?r" "vs_roots v ! j \<in> set (vs_roots v)"
    using v j by (auto simp: scope_ok_def)
  from snap obtain st where st: "snapshot_roots os l ctx 0 (vs_roots v)
      \<lparr>sn_entries = [], sn_total = 0, sn_calls = 0\<rparr> = Inr (st, ids)" "es = sn_entries st"
    by (auto simp: snapshot_def res_simps)
  then obtain rel e where rel: "path_rel ?r q = Inr rel" and mem: "(entryKey (int j) rel, e) \<in> set es"
    using snapshot_roots_records [OF st(1) j r(2) q(1)] q(2) by (auto simp: recorded_def)
  note facts = snapshot_facts [OF snap v ls l]
  have e: "map_of es (entryKey (int j) rel) = Some e" using mem facts(2) by simp
  have ein: "entry_in os (vs_roots v) (entryKey (int j) rel) e" using facts(3) mem by blast
  then have ok: "entry_ok os (int j) ?r (entryKey (int j) rel) e"
    by (auto simp: entry_in_def entry_ok_def entryKey_inject)
  have "below ?r q"
    using tree_both_below(1) [OF below_refl [OF r(1)]] ls q(1) r(3)
    by (auto simp: listings_ok_def root_paths_def)
  moreover have "below ?r (en_path e)" "en_path e \<noteq> ?r"
    using ok by (auto simp: entry_ok_def below_def)
  ultimately have "en_path e = q"
    using key_path_inject [of ?r "en_path e" q] rel r(1) q(2) ok
    by (auto simp: entry_ok_def entryKey_inject)
  with rel e ein show ?thesis by blast
qed

lemma diff_candidates_map_filter:
  "diff_candidates sha base es = List.map_filter (\<lambda>(k, e). diff_entry sha (map_of base k) e) es"
  by (induction sha base es rule: diff_candidates.induct)
    (auto simp: diff_entry_def entry_changed_iff split: option.splits)

lemma NewObserver_pos: "0 < lm_max_entries (NewObserver l)" "0 < lm_max_bytes (NewObserver l)"
  by (simp_all add: NewObserver_def)

lemma is_ok_projr: "is_ok m \<Longrightarrow> m = Inr (projr m)"
  by (cases m) auto

text \<open>
  A machine before and after a task: the task created a directory with an object file in
  it, grew \<open>a.txt\<close> and deleted \<open>old.txt\<close>.
\<close>

definition demo_lstat :: "int \<Rightarrow> string \<Rightarrow> finfo res" where
  "demo_lstat n p =
     (if p \<in> {''/home/dev/repo'', ''/tmp/t'', ''/home/dev/repo/out''} then Inr demo_dir_info
      else Inr \<lparr>fi_size = n, fi_mtime = time_of_unix 0, fi_mode = 0,
                fi_stat = Some (1, int (length p))\<rparr>)"

definition demo_before :: os_view where
  "demo_before = demo_os\<lparr>lstat := demo_lstat 10,
     shape := (\<lambda>p. if p = ''/home/dev/repo'' then DDir [(''a.txt'', DLeaf), (''old.txt'', DLeaf)]
                   else DDir [])\<rparr>"

definition demo_after :: os_view where
  "demo_after = demo_os\<lparr>lstat := demo_lstat 20,
     shape := (\<lambda>p. if p = ''/home/dev/repo''
                   then DDir [(''a.txt'', DLeaf), (''out'', DDir [(''x.o'', DLeaf)])] else DDir [])\<rparr>"

definition demo_limits :: limits where
  "demo_limits = \<lparr>lm_max_entries = 8, lm_max_bytes = 10000, lm_max_duration = 0\<rparr>"

definition no_timeout :: ctx where
  "no_timeout = (\<lambda>_. None)"

definition demo_baseline :: fs_baseline where
  "demo_baseline = projr (Capture demo_before (NewObserver demo_limits) no_timeout (time_of_unix 0) demo_validated)"

lemma demo_capture:
  "Capture demo_before (NewObserver demo_limits) no_timeout (time_of_unix 0) demo_validated
     = Inr demo_baseline"
  unfolding demo_baseline_def by (rule is_ok_projr) code_simp

definition demo_diff :: fs_diff where
  "demo_diff = projr (Compare (\<lambda>s. s) demo_after (NewObserver demo_limits) no_timeout demo_baseline)"

lemma demo_compare:
  "Compare (\<lambda>s. s) demo_after (NewObserver demo_limits) no_timeout demo_baseline = Inr demo_diff"
  unfolding demo_diff_def by (rule is_ok_projr) code_simp

lemma demo_lstat_info:
  "demo_lstat n p = Inr info \<Longrightarrow> fi_size info \<in> {4096, n}"
  by (auto simp: demo_lstat_def demo_dir_info_def split: if_splits)

lemma demo_scope_ok:
  assumes "\<forall>p \<in> {''/home/dev/repo'', ''/tmp/t''}. lstat os p = Inr demo_dir_info"
  shows "scope_ok os demo_validated"
proof -
  have "scope_ok demo_os demo_validated"
    by (rule scope_validate_ok [OF demo_scope_validates])
      (auto simp: demo_os_def is_abs_def has_prefix_def)
  moreover have "mode_is_dir demo_dir_info \<and> \<not> mode_is_symlink demo_dir_info" by code_simp
  ultimately show ?thesis using assms by (auto simp: scope_ok_def real_dir_def demo_validated_def)
qed

lemma demo_scopes: "scope_ok demo_before demo_validated" "scope_ok demo_after demo_validated"
  by (rule demo_scope_ok; simp add: demo_before_def demo_after_def demo_lstat_def)+

lemma demo_listings:
  "listings_ok demo_before (vs_roots demo_validated)" "listings_ok demo_after (vs_roots demo_validated)"
  by (simp_all add: demo_before_def demo_after_def listings_ok_def demo_validated_def proper_def)

lemmas demo_trees = demo_scopes demo_listings

section \<open>Properties\<close>

text \<open>
  C33: A baseline that \<open>Capture\<close> returns holds at most the configured number of entries,
  under distinct keys; every entry lies strictly below the validated root it is recorded
  for, carries the relative path, identity, size, mode and modification time that
  \<open>Lstat\<close> reports, and there is one root identity per root. The sizes add up to at
  most the byte limit, provided no single size can push the running 64-bit total over.
  Relied on: directory listings hold proper file names.
\<close>

theorem Capture_within_limits:
  assumes "Capture os (NewObserver l) ctx now v = Inr b" "scope_ok os v"
    "listings_ok os (vs_roots v)"
  shows "int (length (bl_entries b)) \<le> lm_max_entries (NewObserver l)
    \<and> distinct (map fst (bl_entries b))
    \<and> (\<forall>(k, e) \<in> set (bl_entries b). entry_in os (vs_roots v) k e)
    \<and> length (bl_root_ids b) = length (vs_roots v) \<and> bl_scope b = v
    \<and> (sizes_fit os (NewObserver l) \<longrightarrow> total_bytes (bl_entries b) \<le> lm_max_bytes (NewObserver l))"
proof -
  from assms(1) obtain es ids where s: "snapshot os (NewObserver l) ctx v = Inr (es, ids)"
    and b: "bl_entries b = es" "bl_root_ids b = ids" "bl_scope b = v"
    by (auto simp: Capture_def res_simps)
  have pos: "0 \<le> lm_max_entries (NewObserver l)" "0 \<le> lm_max_bytes (NewObserver l)"
    using NewObserver_pos [of l] by simp_all
  show ?thesis
    using snapshot_facts [OF s assms(2,3) pos] snapshot_total [OF s _ pos(2)] b by auto
qed

theorem Capture_within_limits_witness:
  "int (length (bl_entries demo_baseline)) \<le> 8 \<and> total_bytes (bl_entries demo_baseline) \<le> 10000"
proof -
  have "sizes_fit demo_before (NewObserver demo_limits)"
    by (auto simp: sizes_fit_def demo_before_def NewObserver_def demo_limits_def
        dest!: demo_lstat_info)
  then show ?thesis
    using Capture_within_limits [OF demo_capture demo_trees(1,3)]
    by (simp add: NewObserver_def demo_limits_def)
qed

text \<open>
  C18: \<open>Compare\<close> succeeds only if every root still has the identity recorded in the
  baseline. Its candidates are then exactly, one per entry and in the order of their paths,
  the current entries with no baseline entry under their key (as present) and those whose
  identity, size, modification time or mode differs (as changed); the removed list is the
  sorted list of the baseline entries that are gone.
\<close>

theorem Compare_exact:
  assumes "Compare sha os l ctx b = Inr d"
  shows "\<exists>current. snapshot os l ctx (bl_scope b) = Inr (current, bl_root_ids b)
    \<and> mset (df_candidates d)
        = mset (List.map_filter (\<lambda>(k, e). diff_entry sha (map_of (bl_entries b) k) e) current)
    \<and> sorted (map c_path (df_candidates d)) \<and> sorted (df_removed d)
    \<and> mset (df_removed d) = mset (map (en_relative \<circ> snd)
        (filter (\<lambda>(k, _). k \<notin> fst ` set current) (bl_entries b)))"
proof -
  from assms obtain current where c: "snapshot os l ctx (bl_scope b) = Inr (current, bl_root_ids b)"
    and d: "df_candidates d = sort_by path_less (diff_candidates sha (bl_entries b) current)"
      "df_removed d = sort_strings (map (\<lambda>(_, e). en_relative e)
                 (filter (\<lambda>(key, _). map_of current key = None) (bl_entries b)))"
    by (auto simp: Compare_Inr)
  have "mset (df_removed d) = mset (map (en_relative \<circ> snd)
        (filter (\<lambda>(k, _). k \<notin> fst ` set current) (bl_entries b)))"
    by (simp add: d(2) sort_strings_def comp_def case_prod_unfold map_of_eq_None_iff)
  moreover have "mset (df_candidates d)
      = mset (List.map_filter (\<lambda>(k, e). diff_entry sha (map_of (bl_entries b) k) e) current)"
    by (simp add: d(1) diff_candidates_map_filter)
  ultimately show ?thesis using c by (auto simp: d sorted_paths sorted_sort_strings)
qed

theorem Compare_exact_witness:
  "sorted (map c_path (df_candidates demo_diff)) \<and> sorted (df_removed demo_diff)"
  using Compare_exact [OF demo_compare] by blast

text \<open>
  Nothing that appeared is missed: when \<open>Compare\<close> succeeds, every path the walk of
  a root meets now and that has no baseline entry under its key is reported as a present
  candidate with its current identity and size, and a candidate reported by \<open>Compare\<close>
  verifies as present as long as the machine does not change.
\<close>

theorem Compare_misses_nothing:
  assumes "Compare sha os (NewObserver l) ctx b = Inr d" "scope_ok os (bl_scope b)"
    "listings_ok os (vs_roots (bl_scope b))"
  shows "(\<forall>j < length (vs_roots (bl_scope b)). \<forall>q \<in> set (root_paths os (vs_roots (bl_scope b) ! j)).
      \<forall>rel. q \<noteq> rt_path (vs_roots (bl_scope b) ! j)
        \<and> path_rel (rt_path (vs_roots (bl_scope b) ! j)) q = Inr rel
        \<and> entryKey (int j) rel \<notin> fst ` set (bl_entries b)
        \<longrightarrow> (\<exists>c \<in> set (df_candidates d). c_path c = q \<and> c_current_status c = StatusPresent))
    \<and> (\<forall>c \<in> set (df_candidates d). VerifyCandidate os c = Inr StatusPresent)"
proof -
  let ?rs = "vs_roots (bl_scope b)"
  have pos: "0 \<le> lm_max_entries (NewObserver l)" "0 \<le> lm_max_bytes (NewObserver l)"
    using NewObserver_pos [of l] by simp_all
  from assms(1) obtain cur where c: "snapshot os (NewObserver l) ctx (bl_scope b) = Inr (cur, bl_root_ids b)"
    and d: "set (df_candidates d)
      = {c. \<exists>(k, e) \<in> set cur. diff_entry sha (map_of (bl_entries b) k) e = Some c}"
    by (auto simp: Compare_Inr set_diff_candidates)
  note complete = snapshot_complete [OF c assms(2,3) pos]
  have "\<exists>c \<in> set (df_candidates d). c_path c = q \<and> c_current_status c = StatusPresent"
    if j: "j < length ?rs" and q: "q \<in> set (root_paths os (?rs ! j))" "q \<noteq> rt_path (?rs ! j)"
      "path_rel (rt_path (?rs ! j)) q = Inr rel" "entryKey (int j) rel \<notin> fst ` set (bl_entries b)"
    for j q rel
  proof -
    obtain e where e: "map_of cur (entryKey (int j) rel) = Some e" "en_path e = q"
      using complete [OF j q(1,2)] q(3) by auto
    have "map_of (bl_entries b) (entryKey (int j) rel) = None"
      using q(4) by (simp add: map_of_eq_None_iff)
    then have "candidateFor sha e StatusPresent ''created after task observation began''
        \<in> set (df_candidates d)"
      using map_of_SomeD [OF e(1)] by (force simp: d diff_entry_def)
    with e(2) show ?thesis by force
  qed
  moreover have "VerifyCandidate os c = Inr StatusPresent" if mem: "c \<in> set (df_candidates d)" for c
  proof -
    obtain k e where "(k, e) \<in> set cur" "diff_entry sha (map_of (bl_entries b) k) e = Some c"
      using mem unfolding d by auto
    then show ?thesis
      using snapshot_facts(3) [OF c assms(2,3) pos]
      by (intro entry_in_verifies [of os ?rs k e])
        (auto simp: diff_entry_def split: option.splits if_splits)
  qed
  ultimately show ?thesis by blast
qed

lemma Capture_scope: "Capture os l ctx now v = Inr b \<Longrightarrow> bl_scope b = v"
  by (auto simp: Capture_def res_simps)

lemmas demo_baseline_scope = Capture_scope [OF demo_capture]

theorem Compare_misses_nothing_witness:
  "list_all (\<lambda>c. VerifyCandidate demo_after c = Inr StatusPresent) (df_candidates demo_diff)"
  using Compare_misses_nothing [OF demo_compare] demo_trees(2,4)
  by (simp add: demo_baseline_scope list_all_iff)

text \<open>
  If nothing changed, nothing is reported: comparing against a baseline just captured, on
  the same machine state and without a timeout, succeeds with no candidates and no removals.
\<close>

theorem Compare_unchanged_empty:
  assumes "Capture os (NewObserver l) no_timeout now v = Inr b" "scope_ok os v"
    "listings_ok os (vs_roots v)"
  shows "Compare sha os (NewObserver l) no_timeout b
    = Inr \<lparr>df_candidates = [], df_removed = [], df_limitations = []\<rparr>"
proof -
  from assms(1) have s: "snapshot os (NewObserver l) no_timeout v = Inr (bl_entries b, bl_root_ids b)"
    and b: "bl_scope b = v"
    by (auto simp: Capture_def res_simps)
  have pos: "0 \<le> lm_max_entries (NewObserver l)" "0 \<le> lm_max_bytes (NewObserver l)"
    using NewObserver_pos [of l] by simp_all
  have "distinct (map fst (bl_entries b))" by (rule snapshot_facts(2) [OF s assms(2,3) pos])
  then have "diff_candidates sha (bl_entries b) (bl_entries b) = []"
    by (simp add: diff_candidates_self)
  moreover have "filter (\<lambda>(key, _). map_of (bl_entries b) key = None) (bl_entries b) = []"
    by (auto simp: filter_empty_conv map_of_eq_None_iff image_iff)
  ultimately show ?thesis
    using s b by (subst Compare_Inr) (auto simp: sort_strings_def)
qed

theorem Compare_unchanged_empty_witness:
  "Compare (\<lambda>s. s) demo_before (NewObserver demo_limits) no_timeout demo_baseline
    = Inr \<lparr>df_candidates = [], df_removed = [], df_limitations = []\<rparr>"
  by (rule Compare_unchanged_empty [OF demo_capture demo_trees(1,3)])

text \<open>
  \<open>VerifyCandidate\<close> answers present exactly for a file-system candidate whose path
  can be inspected and still shows the recorded identity and size, answers no-longer-present
  exactly when the path does not exist, and reports changed exactly when an identifiable
  object is there with another identity or size; every other case is an error.
\<close>

theorem VerifyCandidate_exact:
  assumes "c_path c \<noteq> []" "c_kind c \<in> {CandidateFile, CandidateDirectory}"
  shows "(VerifyCandidate os c = Inr StatusPresent \<longleftrightarrow>
      (\<exists>info. lstat os (c_path c) = Inr info \<and> fi_size info = c_size_bytes c
         \<and> objectIdentity info = Inr (c_object_identity c)))
    \<and> (VerifyCandidate os c = Inr StatusNoLongerPresent \<longleftrightarrow>
      (\<exists>e. lstat os (c_path c) = Inl e \<and> err_is ErrNotExist e))
    \<and> (VerifyCandidate os c = Inr StatusChangedSinceReport \<longleftrightarrow>
      (\<exists>info idn. lstat os (c_path c) = Inr info \<and> objectIdentity info = Inr idn
         \<and> (idn \<noteq> c_object_identity c \<or> fi_size info \<noteq> c_size_bytes c)))"
  using assms
  by (cases "lstat os (c_path c)"; cases "objectIdentity (projr (lstat os (c_path c)))")
    (auto simp: VerifyCandidate_def)

theorem VerifyCandidate_exact_witness:
  "VerifyCandidate (demo_after\<lparr>lstat := \<lambda>_. Inl ErrNotExist\<rparr>)
     (candidateFor (\<lambda>s. s) (make_entry 0 ''a.txt'' ''/home/dev/repo/a.txt'' demo_dir_info ''x'')
        StatusPresent []) = Inr StatusNoLongerPresent"
proof -
  let ?c = "candidateFor (\<lambda>s. s) (make_entry 0 ''a.txt'' ''/home/dev/repo/a.txt'' demo_dir_info ''x'')
        StatusPresent []"
  have "c_path ?c \<noteq> []" "c_kind ?c \<in> {CandidateFile, CandidateDirectory}" by simp_all
  from VerifyCandidate_exact [OF this] show ?thesis by simp
qed

text \<open>
  The byte limit is checked on a wrapping total: two files whose sizes add up to more than
  the largest 64-bit integer pass a limit of ten bytes, since the total turns negative.
\<close>

definition demo_huge :: os_view where
  "demo_huge = demo_os\<lparr>lstat := (\<lambda>p. if p \<in> {''/home/dev/repo'', ''/tmp/t''} then Inr demo_dir_info
       else Inr \<lparr>fi_size = (if p = ''/home/dev/repo/a'' then 9 else 2 ^ 63 - 1),
              fi_mtime = time_of_unix 0, fi_mode = 0, fi_stat = Some (1, 2)\<rparr>),
     shape := (\<lambda>p. if p = ''/home/dev/repo'' then DDir [(''a'', DLeaf), (''b'', DLeaf)] else DDir [])\<rparr>"

theorem byte_limit_wraps:
  "is_ok (Capture demo_huge (NewObserver \<lparr>lm_max_entries = 8, lm_max_bytes = 10, lm_max_duration = 0\<rparr>)
     no_timeout (time_of_unix 0) demo_validated)"
  by code_simp

end
