(* ===== verification/Process_Observe.thy ===== *)
theory Process_Observe
  imports Scope_Guard
begin

text \<open>
  Package \<open>process\<close>: attributing processes to a task (\<open>observer.go\<close>,
  \<open>types.go\<close>) over the native adapter, the record of its answers. \<open>Identity\<close> and
  \<open>Port\<close> have the fields of the contract's process and port identities and share their
  records.
\<close>

section \<open>Types\<close>

type_synonym identity = process_identity
type_synonym port = port_identity

record metadata =
  md_identity :: identity
  md_parent_pid :: int
  md_working_dir :: string

datatype attribution =
    AttributionEvent
  | AttributionReceipt
  | AttributionWorkingDirectory
  | AttributionOpenPath
  | AttributionDescendant

record evidence =
  ev_identity :: identity
  ev_parent_pid :: int
  ev_reason :: attribution
  ev_ports :: "port list"

record limitation =
  li_operation :: string
  li_detail :: string

record hints =
  h_event_processes :: "identity list"
  h_receipt_processes :: "identity list"
  h_candidate_paths :: "string list"

record proc_baseline =
  pb_captured_at :: gtime
  pb_processes :: "metadata list"

text \<open>
  A Go map from PIDs to attributions is an association list with distinct keys in insertion
  order; the order in which \<open>range\<close> visits it is chosen by the runtime and is part of
  the environment (\<open>na_range\<close>), next to the three queries of \<open>NativeAdapter\<close>.
  \<open>na_quote\<close> is \<open>strconv.Quote\<close>, which error texts use.
\<close>

type_synonym attributed = "(int \<times> attribution) list"

record native_adapter =
  na_snapshot :: "metadata list res"
  na_ports :: "identity \<Rightarrow> port list res"
  na_holds :: "identity \<Rightarrow> string list \<Rightarrow> bool res"
  na_range :: "attributed \<Rightarrow> attributed"
  na_quote :: "string \<Rightarrow> string"

abbreviation md_pid :: "metadata \<Rightarrow> int" where
  "md_pid m \<equiv> pi_pid (md_identity m)"

abbreviation ev_pid :: "evidence \<Rightarrow> int" where
  "ev_pid e \<equiv> pi_pid (ev_identity e)"

section \<open>Operations of the observer\<close>

definition clean_resolved :: "os_view \<Rightarrow> string \<Rightarrow> string" where
  "clean_resolved os path =
     (let c = path_clean path in case eval_symlinks os c of Inl _ \<Rightarrow> c | Inr r \<Rightarrow> r)"

definition NewProcessObserver :: "os_view \<Rightarrow> string list \<Rightarrow> string list" where
  "NewProcessObserver os roots = map (clean_resolved os) roots"

definition md_less :: "metadata \<Rightarrow> metadata \<Rightarrow> bool" where
  "md_less a b \<longleftrightarrow> md_pid a < md_pid b"

definition sortMetadata :: "metadata list \<Rightarrow> metadata list" where
  "sortMetadata = sort_by md_less"

definition process_baseline :: "native_adapter \<Rightarrow> gtime \<Rightarrow> proc_baseline res" where
  "process_baseline na now =
     and_then (na_snapshot na) (\<lambda>ps.
       Inr \<lparr>pb_captured_at = time_utc now, pb_processes = sortMetadata ps\<rparr>)"

definition sameIdentity :: "identity \<Rightarrow> identity \<Rightarrow> bool" where
  "sameIdentity l r \<longleftrightarrow> pi_pid l = pi_pid r \<and> time_equal (pi_created_at l) (pi_created_at r)"

definition byPID :: "metadata list \<Rightarrow> int \<Rightarrow> metadata option" where
  "byPID ps pid = map_of (rev (map (\<lambda>m. (md_pid m, m)) ps)) pid"

definition has_key :: "attributed \<Rightarrow> int \<Rightarrow> bool" where
  "has_key att pid \<longleftrightarrow> map_of att pid \<noteq> None"

fun bindStableHints ::
    "attributed \<Rightarrow> (int \<Rightarrow> metadata option) \<Rightarrow> identity list \<Rightarrow> attribution \<Rightarrow> attributed" where
  "bindStableHints att procs [] reason = att"
| "bindStableHints att procs (hint # hints) reason =
     (case procs (pi_pid hint) of
        None \<Rightarrow> bindStableHints att procs hints reason
      | Some m \<Rightarrow>
          if \<not> sameIdentity (md_identity m) hint then bindStableHints att procs hints reason
          else if \<not> has_key att (pi_pid hint)
          then bindStableHints (att @ [(pi_pid hint, reason)]) procs hints reason
          else bindStableHints att procs hints reason)"

definition withinTaskRoot :: "os_view \<Rightarrow> string list \<Rightarrow> string \<Rightarrow> bool" where
  "withinTaskRoot os roots path \<longleftrightarrow>
     (if path = [] then False
      else let cleanPath = clean_resolved os path
           in \<exists>root \<in> set roots.
                case path_rel root cleanPath of
                  Inl _ \<Rightarrow> False
                | Inr relative \<Rightarrow> relative \<noteq> ''..'' \<and> \<not> has_prefix relative (''..'' @ [sep]))"

fun bind_working_dirs :: "(string \<Rightarrow> bool) \<Rightarrow> attributed \<Rightarrow> metadata list \<Rightarrow> attributed" where
  "bind_working_dirs inside att [] = att"
| "bind_working_dirs inside att (m # ms) =
     (if inside (md_working_dir m) \<and> \<not> has_key att (md_pid m)
      then bind_working_dirs inside (att @ [(md_pid m, AttributionWorkingDirectory)]) ms
      else bind_working_dirs inside att ms)"

definition appendLimitationOnce :: "limitation list \<Rightarrow> limitation \<Rightarrow> limitation list" where
  "appendLimitationOnce values value =
     (if \<exists>existing \<in> set values. li_operation existing = li_operation value
           \<and> li_detail existing = li_detail value
      then values else values @ [value])"

fun bind_open_paths ::
    "native_adapter \<Rightarrow> string list \<Rightarrow> attributed \<Rightarrow> limitation list \<Rightarrow> metadata list
       \<Rightarrow> attributed \<times> limitation list" where
  "bind_open_paths na paths att lims [] = (att, lims)"
| "bind_open_paths na paths att lims (m # ms) =
     (if has_key att (md_pid m) then bind_open_paths na paths att lims ms
      else case na_holds na (md_identity m) paths of
        Inl e \<Rightarrow>
          bind_open_paths na paths att
            (appendLimitationOnce lims
               \<lparr>li_operation = ''open_path_attribution'', li_detail = err_text (na_quote na) e\<rparr>) ms
      | Inr True \<Rightarrow> bind_open_paths na paths (att @ [(md_pid m, AttributionOpenPath)]) lims ms
      | Inr False \<Rightarrow> bind_open_paths na paths att lims ms)"

text \<open>One pass of the loop over descendants, and the loop until a pass changes nothing.\<close>

fun descend_pass :: "metadata list \<Rightarrow> attributed \<Rightarrow> attributed \<times> bool" where
  "descend_pass [] att = (att, False)"
| "descend_pass (m # ms) att =
     (if has_key att (md_pid m) then descend_pass ms att
      else if has_key att (md_parent_pid m)
      then (fst (descend_pass ms (att @ [(md_pid m, AttributionDescendant)])), True)
      else descend_pass ms att)"

lemma has_key_iff: "has_key att pid \<longleftrightarrow> pid \<in> fst ` set att"
  by (simp add: has_key_def map_of_eq_None_iff)

lemma descend_pass_mono: "fst ` set att \<subseteq> fst ` set (fst (descend_pass ps att))"
  by (induction ps att rule: descend_pass.induct) auto

lemma descend_pass_new:
  "snd (descend_pass ps att) \<Longrightarrow> \<exists>m \<in> set ps. \<not> has_key att (md_pid m)
     \<and> has_key (fst (descend_pass ps att)) (md_pid m)"
proof (induction ps att rule: descend_pass.induct)
  case (2 m ms att)
  show ?case
  proof (cases "\<not> has_key att (md_pid m) \<and> has_key att (md_parent_pid m)")
    case True
    let ?a = "att @ [(md_pid m, AttributionDescendant)]"
    have "has_key (fst (descend_pass ms ?a)) (md_pid m)"
      using descend_pass_mono [of ?a ms] by (auto simp: has_key_iff)
    with True show ?thesis by auto
  next
    case False
    with 2 show ?thesis by (auto split: if_splits)
  qed
qed simp

function descend :: "metadata list \<Rightarrow> attributed \<Rightarrow> attributed" where
  "descend ps att =
     (let (att', changed) = descend_pass ps att in if changed then descend ps att' else att')"
  by auto
termination
proof (relation "measure (\<lambda>(ps, att). length (filter (\<lambda>m. \<not> has_key att (md_pid m)) ps))")
  fix ps att x att' changed
  assume x: "x = descend_pass ps att" "(att', changed) = x" and changed
  then have ne: "\<exists>m \<in> set ps. \<not> has_key att (md_pid m) \<and> has_key att' (md_pid m)"
    using descend_pass_new [of ps att] by (metis fst_conv snd_conv)
  have "\<forall>p. has_key att p \<longrightarrow> has_key att' p"
    using descend_pass_mono [of att ps] x by (metis fst_conv has_key_iff subsetD)
  then have sub: "filter (\<lambda>m. \<not> has_key att' (md_pid m)) ps =
      filter (\<lambda>m. \<not> has_key att' (md_pid m)) (filter (\<lambda>m. \<not> has_key att (md_pid m)) ps)"
    by (simp add: conj_commute) (metis)
  from ne have "\<exists>m \<in> set (filter (\<lambda>m. \<not> has_key att (md_pid m)) ps). \<not> \<not> has_key att' (md_pid m)" by auto
  then have "length (filter (\<lambda>m. \<not> has_key att' (md_pid m)) (filter (\<lambda>m. \<not> has_key att (md_pid m)) ps))
      < length (filter (\<lambda>m. \<not> has_key att (md_pid m)) ps)"
    using length_filter_less by metis
  then show "((ps, att'), (ps, att)) \<in> measure (\<lambda>(ps, att). length (filter (\<lambda>m. \<not> has_key att (md_pid m)) ps))"
    using sub by simp
qed simp

declare descend.simps [simp del]

definition port_less :: "port \<Rightarrow> port \<Rightarrow> bool" where
  "port_less a b \<longleftrightarrow>
     (if po_protocol a = po_protocol b then
        if po_address a = po_address b then po_number a < po_number b
        else po_address a < po_address b
      else po_protocol a < po_protocol b)"

definition evidence_less :: "evidence \<Rightarrow> evidence \<Rightarrow> bool" where
  "evidence_less a b \<longleftrightarrow> ev_pid a < ev_pid b"

definition zero_time :: gtime where
  "zero_time = \<lparr>t_ns = 0, t_zone = None\<rparr>"

definition zero_metadata :: metadata where
  "zero_metadata = \<lparr>md_identity = \<lparr>pi_pid = 0, pi_created_at = zero_time\<rparr>, md_parent_pid = 0,
     md_working_dir = []\<rparr>"

fun collect_evidence ::
    "native_adapter \<Rightarrow> (int \<Rightarrow> metadata option) \<Rightarrow> attributed \<Rightarrow> limitation list
       \<Rightarrow> evidence list \<times> limitation list" where
  "collect_evidence na procs [] lims = ([], lims)"
| "collect_evidence na procs ((pid, reason) # rest) lims =
     (let m = (case procs pid of None \<Rightarrow> zero_metadata | Some m \<Rightarrow> m);
          (ports, lims') =
            (case na_ports na (md_identity m) of
               Inl e \<Rightarrow> ([], lims @ [\<lparr>li_operation = ''listening_ports'',
                 li_detail = ''pid '' @ itoa pid @ '': '' @ err_text (na_quote na) e\<rparr>])
             | Inr ports \<Rightarrow> (sort_by port_less ports, lims));
          (evs, lims'') = collect_evidence na procs rest lims'
      in (\<lparr>ev_identity = md_identity m, ev_parent_pid = md_parent_pid m, ev_reason = reason,
           ev_ports = ports\<rparr> # evs, lims''))"

text \<open>The attribution phase of \<open>Resolve\<close>, then \<open>Resolve\<close> itself.\<close>

definition attribute ::
    "os_view \<Rightarrow> string list \<Rightarrow> native_adapter \<Rightarrow> hints \<Rightarrow> metadata list
       \<Rightarrow> attributed \<times> limitation list" where
  "attribute os roots na h ps =
     (let a1 = bindStableHints [] (byPID ps) (h_receipt_processes h) AttributionReceipt;
          a2 = bindStableHints a1 (byPID ps) (h_event_processes h) AttributionEvent;
          a3 = bind_working_dirs (withinTaskRoot os roots) a2 ps;
          (a4, lims) = (if h_candidate_paths h \<noteq> []
                        then bind_open_paths na (h_candidate_paths h) a3 [] ps else (a3, []))
      in (descend ps a4, lims))"

definition proc_resolve ::
    "os_view \<Rightarrow> string list \<Rightarrow> native_adapter \<Rightarrow> hints \<Rightarrow> evidence list \<times> limitation list" where
  "proc_resolve os roots na h =
     (case na_snapshot na of
        Inl e \<Rightarrow> ([], [\<lparr>li_operation = ''process_snapshot'', li_detail = err_text (na_quote na) e\<rparr>])
      | Inr ps \<Rightarrow>
          let (att, lims) = attribute os roots na h ps;
              (evs, lims') = collect_evidence na (byPID ps) (na_range na att) lims
          in (sort_by evidence_less evs, lims'))"

fun verify_loop :: "identity list \<Rightarrow> evidence list \<Rightarrow> (int \<times> evidence) list \<Rightarrow> (int \<times> evidence) list" where
  "verify_loop identities [] verified = verified"
| "verify_loop identities (item # items) verified =
     (if \<exists>i \<in> set identities. sameIdentity (ev_identity item) i
      then verify_loop identities items (AList.update (ev_pid item) item verified)
      else verify_loop identities items verified)"

definition proc_verify ::
    "os_view \<Rightarrow> string list \<Rightarrow> native_adapter \<Rightarrow> identity list
       \<Rightarrow> (int \<times> evidence) list \<times> limitation list" where
  "proc_verify os roots na identities =
     (let (evs, lims) = proc_resolve os roots na
            \<lparr>h_event_processes = identities, h_receipt_processes = [], h_candidate_paths = []\<rparr>
      in (verify_loop identities evs [], lims))"

text \<open>\<open>time.UnixMilli(ms).UTC()\<close>, the creation times of the process table.\<close>

definition time_unix_milli :: "int \<Rightarrow> gtime" where
  "time_unix_milli ms = \<lparr>t_ns = unix_epoch * second_ns + ms * 1000000, t_zone = None\<rparr>"

section \<open>What each phase adds\<close>

text \<open>
  Every phase keeps the attributions it finds and adds one reason for the PIDs its criterion
  selects: the shape of all of them.
\<close>

definition extends :: "attributed \<Rightarrow> attributed \<Rightarrow> (int \<Rightarrow> bool) \<Rightarrow> attribution \<Rightarrow> bool" where
  "extends att att' sel reason \<longleftrightarrow>
     (\<forall>pid. map_of att' pid = (case map_of att pid of
        Some r \<Rightarrow> Some r | None \<Rightarrow> if sel pid then Some reason else None))
     \<and> (distinct (map fst att) \<longrightarrow> distinct (map fst att'))"

lemma map_of_snoc:
  "\<not> has_key att p \<Longrightarrow> map_of (att @ [(p, r)]) q = (if q = p then Some r else map_of att q)"
  by (auto simp: map_add_def has_key_def split: option.splits)

lemma extends_refl: "\<forall>pid. sel pid \<longrightarrow> has_key att pid \<Longrightarrow> extends att att sel reason"
  by (auto simp: extends_def has_key_def split: option.splits)

lemma extends_skip:
  assumes "extends att att' sel reason" "\<And>q. \<not> has_key att q \<Longrightarrow> sel' q \<longleftrightarrow> sel q"
  shows "extends att att' sel' reason"
  using assms by (auto simp: extends_def has_key_def split: option.splits)

lemma extends_step:
  assumes ext: "extends (att @ [(p, reason)]) att' sel reason" and p: "\<not> has_key att p"
    and sel': "\<And>q. sel' q \<longleftrightarrow> q = p \<or> sel q"
  shows "extends att att' sel' reason"
proof -
  have "map_of att p = None" using p by (simp add: has_key_def)
  then have "map_of att' q = (case map_of att q of
      Some r \<Rightarrow> Some r | None \<Rightarrow> if sel' q then Some reason else None)" for q
    using ext sel' unfolding extends_def map_of_snoc [OF p] by (simp split: if_splits)
  moreover have "distinct (map fst att) \<Longrightarrow> distinct (map fst att')"
    using ext p by (simp add: extends_def has_key_iff)
  ultimately show ?thesis by (simp add: extends_def)
qed

definition hinted :: "(int \<Rightarrow> metadata option) \<Rightarrow> identity list \<Rightarrow> int \<Rightarrow> bool" where
  "hinted procs hs pid \<longleftrightarrow>
     (\<exists>h \<in> set hs. pi_pid h = pid \<and> (\<exists>m. procs pid = Some m \<and> sameIdentity (md_identity m) h))"

lemma bindStableHints_extends: "extends att (bindStableHints att procs hs r) (hinted procs hs) r"
proof (induction att procs hs r rule: bindStableHints.induct)
  case (1 att procs reason)
  then show ?case by (simp add: extends_refl hinted_def)
next
  case (2 att procs h hs r)
  show ?case
  proof (cases "\<exists>m. procs (pi_pid h) = Some m \<and> sameIdentity (md_identity m) h")
    case False
    then have "hinted procs (h # hs) = hinted procs hs" by (auto simp: hinted_def fun_eq_iff)
    with False 2 show ?thesis by (auto split: option.splits)
  next
    case True
    then have h: "hinted procs (h # hs) q \<longleftrightarrow> q = pi_pid h \<or> hinted procs hs q" for q
      by (auto simp: hinted_def)
    from True obtain m where m: "procs (pi_pid h) = Some m" "sameIdentity (md_identity m) h" by blast
    show ?thesis
    proof (cases "has_key att (pi_pid h)")
      case True
      with 2(4) m have "extends att (bindStableHints att procs hs r) (hinted procs hs) r" by simp
      then have "extends att (bindStableHints att procs hs r) (hinted procs (h # hs)) r"
        by (rule extends_skip) (use h True in auto)
      then show ?thesis using m True by simp
    next
      case False
      with 2(3) m have "extends (att @ [(pi_pid h, r)]) (bindStableHints (att @ [(pi_pid h, r)]) procs hs r)
          (hinted procs hs) r" by simp
      then have "extends att (bindStableHints (att @ [(pi_pid h, r)]) procs hs r) (hinted procs (h # hs)) r"
        by (rule extends_step) (use False h in auto)
      then show ?thesis using m False by simp
    qed
  qed
qed

text \<open>The criterion of a loop over the snapshot: some process with that PID satisfies \<open>Q\<close>.\<close>

definition some_proc :: "metadata list \<Rightarrow> (metadata \<Rightarrow> bool) \<Rightarrow> int \<Rightarrow> bool" where
  "some_proc ps Q pid \<longleftrightarrow> (\<exists>m \<in> set ps. md_pid m = pid \<and> Q m)"

lemma some_proc_Nil [simp]: "\<not> some_proc [] Q q"
  by (simp add: some_proc_def)

lemma some_proc_Cons: "some_proc (m # ms) Q q \<longleftrightarrow> (q = md_pid m \<and> Q m) \<or> some_proc ms Q q"
  by (auto simp: some_proc_def)

lemma bind_working_dirs_extends:
  "extends att (bind_working_dirs inside att ps)
     (some_proc ps (\<lambda>m. inside (md_working_dir m))) AttributionWorkingDirectory"
proof (induction inside att ps rule: bind_working_dirs.induct)
  case (1 inside att)
  then show ?case by (simp add: extends_refl)
next
  case (2 inside att m ms)
  show ?case
  proof (cases "inside (md_working_dir m) \<and> \<not> has_key att (md_pid m)")
    case True
    from 2(1) [OF True] have "extends att
        (bind_working_dirs inside (att @ [(md_pid m, AttributionWorkingDirectory)]) ms)
        (some_proc (m # ms) (\<lambda>m. inside (md_working_dir m))) AttributionWorkingDirectory"
      by (rule extends_step) (use True in \<open>auto simp: some_proc_Cons\<close>)
    with True show ?thesis by simp
  next
    case False
    from 2(2) [OF False] have "extends att (bind_working_dirs inside att ms)
        (some_proc (m # ms) (\<lambda>m. inside (md_working_dir m))) AttributionWorkingDirectory"
      by (rule extends_skip) (use False in \<open>auto simp: some_proc_Cons\<close>)
    with False show ?thesis by auto
  qed
qed

lemma bind_open_paths_extends:
  "extends att (fst (bind_open_paths na paths att lims ps))
     (some_proc ps (\<lambda>m. na_holds na (md_identity m) paths = Inr True)) AttributionOpenPath"
proof (induction na paths att lims ps rule: bind_open_paths.induct)
  case (1 na paths att lims)
  then show ?case by (simp add: extends_refl)
next
  case (2 na paths att lims m ms)
  let ?sel = "some_proc (m # ms) (\<lambda>m. na_holds na (md_identity m) paths = Inr True)"
  consider (key) "has_key att (md_pid m)"
    | (err) e where "\<not> has_key att (md_pid m)" "na_holds na (md_identity m) paths = Inl e"
    | (no) "\<not> has_key att (md_pid m)" "na_holds na (md_identity m) paths = Inr False"
    | (yes) "\<not> has_key att (md_pid m)" "na_holds na (md_identity m) paths = Inr True"
    by (cases "na_holds na (md_identity m) paths") auto
  then show ?case
  proof cases
    case key
    have "extends att (fst (bind_open_paths na paths att lims ms)) ?sel AttributionOpenPath"
      by (rule extends_skip [OF 2(1) [OF key]]) (use key in \<open>auto simp: some_proc_Cons\<close>)
    with key show ?thesis by simp
  next
    case err
    have "extends att (fst (bind_open_paths na paths att (appendLimitationOnce lims
        \<lparr>li_operation = ''open_path_attribution'', li_detail = err_text (na_quote na) e\<rparr>) ms))
        ?sel AttributionOpenPath"
      by (rule extends_skip [OF 2(2) [OF err]]) (use err in \<open>auto simp: some_proc_Cons\<close>)
    with err show ?thesis by simp
  next
    case no
    have "extends att (fst (bind_open_paths na paths att lims ms)) ?sel AttributionOpenPath"
      by (rule extends_skip [OF 2(4) [OF no]]) (use no in \<open>auto simp: some_proc_Cons\<close>)
    with no show ?thesis by simp
  next
    case yes
    from 2(3) [OF yes(1,2)] have "extends att
        (fst (bind_open_paths na paths (att @ [(md_pid m, AttributionOpenPath)]) lims ms)) ?sel AttributionOpenPath"
      by (rule extends_step) (use yes in \<open>auto simp: some_proc_Cons\<close>)
    with yes show ?thesis by simp
  qed
qed

section \<open>The descendant closure\<close>

inductive_set related :: "metadata list \<Rightarrow> int set \<Rightarrow> int set" for ps S where
  seed: "pid \<in> S \<Longrightarrow> pid \<in> related ps S"
| child: "m \<in> set ps \<Longrightarrow> md_parent_pid m \<in> related ps S \<Longrightarrow> md_pid m \<in> related ps S"

lemma descend_pass_unchanged: "\<not> snd (descend_pass ps att) \<Longrightarrow>
    fst (descend_pass ps att) = att
    \<and> (\<forall>m \<in> set ps. has_key att (md_parent_pid m) \<longrightarrow> has_key att (md_pid m))"
proof (induction ps att rule: descend_pass.induct)
  case (2 m ms att)
  have n: "has_key att (md_pid m) \<or> \<not> has_key att (md_parent_pid m)"
    by (rule ccontr) (use 2(4) in simp)
  then have eq: "descend_pass (m # ms) att = descend_pass ms att" by auto
  have "fst (descend_pass ms att) = att
      \<and> (\<forall>m \<in> set ms. has_key att (md_parent_pid m) \<longrightarrow> has_key att (md_pid m))"
    using 2(1,3,4) n unfolding eq by blast
  with n eq show ?case by (metis set_ConsD)
qed simp

lemma related_idem:
  assumes "T \<subseteq> related ps S" "pid \<in> related ps T" shows "pid \<in> related ps S"
  using assms(2) by induction (use assms(1) in \<open>auto intro: related.intros\<close>)

lemma related_mono: "S \<subseteq> T \<Longrightarrow> pid \<in> related ps S \<Longrightarrow> pid \<in> related ps T"
  by (erule related_idem [rotated]) (auto intro: related.seed)

lemma descend_pass_related:
  "set qs \<subseteq> set ps \<Longrightarrow> fst ` set (fst (descend_pass qs att)) \<subseteq> related ps (fst ` set att)"
proof (induction qs att rule: descend_pass.induct)
  case (1 att)
  then show ?case by (auto intro: related.seed)
next
  case (2 m ms att)
  show ?case
  proof (cases "\<not> has_key att (md_pid m) \<and> has_key att (md_parent_pid m)")
    case True
    let ?a = "att @ [(md_pid m, AttributionDescendant)]"
    have "md_pid m \<in> related ps (fst ` set att)"
      using True 2(4) by (intro related.child related.seed) (auto simp: has_key_iff)
    then have "fst ` set ?a \<subseteq> related ps (fst ` set att)" by (auto intro: related.seed)
    moreover have "fst ` set (fst (descend_pass ms ?a)) \<subseteq> related ps (fst ` set ?a)"
      using 2(2,4) True by auto
    ultimately have "fst ` set (fst (descend_pass ms ?a)) \<subseteq> related ps (fst ` set att)"
      using related_idem [of "fst ` set ?a" ps "fst ` set att"] by blast
    then show ?thesis using True by simp
  next
    case False
    with 2(1,3,4) show ?thesis by (auto split: if_splits)
  qed
qed

text \<open>A pass only adds, with the reason of a descendant.\<close>

lemma descend_pass_extends:
  "extends att (fst (descend_pass ps att)) (has_key (fst (descend_pass ps att))) AttributionDescendant"
proof (induction ps att rule: descend_pass.induct)
  case (1 att)
  then show ?case by (simp add: extends_refl)
next
  case (2 m ms att)
  show ?case
  proof (cases "\<not> has_key att (md_pid m) \<and> has_key att (md_parent_pid m)")
    case True
    let ?a = "att @ [(md_pid m, AttributionDescendant)]"
    have "extends ?a (fst (descend_pass ms ?a)) (has_key (fst (descend_pass ms ?a))) AttributionDescendant"
      using 2(2) True by simp
    moreover have "has_key (fst (descend_pass ms ?a)) (md_pid m)"
      using descend_pass_mono [of ?a ms] by (auto simp: has_key_iff)
    ultimately show ?thesis using True by (auto intro: extends_step)
  next
    case False
    with 2(1,3) show ?thesis by auto
  qed
qed

lemma extends_keys: "extends a b sel r \<Longrightarrow> has_key b p \<longleftrightarrow> has_key a p \<or> sel p"
  by (cases "map_of a p") (simp_all add: extends_def has_key_def)

lemma extends_trans:
  assumes "extends a b s r" "extends b c t r"
  shows "extends a c (\<lambda>p. s p \<or> t p) r"
proof -
  have "map_of c p = (case map_of a p of Some x \<Rightarrow> Some x | None \<Rightarrow> if s p \<or> t p then Some r else None)" for p
    using assms by (cases "map_of a p"; cases "map_of b p") (auto simp: extends_def split: if_splits)
  then show ?thesis using assms by (simp add: extends_def)
qed

lemma descend_spec:
  "fst ` set (descend ps att) = related ps (fst ` set att)
   \<and> extends att (descend ps att) (\<lambda>pid. pid \<in> related ps (fst ` set att)) AttributionDescendant"
proof (induction ps att rule: descend.induct)
  case (1 ps att)
  obtain att' changed where p: "descend_pass ps att = (att', changed)" by force
  have sub: "fst ` set att \<subseteq> fst ` set att'" "fst ` set att' \<subseteq> related ps (fst ` set att)"
    and ext: "extends att att' (\<lambda>pid. pid \<in> fst ` set att') AttributionDescendant"
    using descend_pass_mono [of att ps] descend_pass_related [of ps ps att]
      descend_pass_extends [of att ps] p by (simp_all add: has_key_iff [abs_def])
  show ?case
  proof (cases changed)
    case True
    then have d: "descend ps att = descend ps att'" using p by (simp add: descend.simps [of ps att])
    have IH: "fst ` set (descend ps att') = related ps (fst ` set att')"
      "extends att' (descend ps att') (\<lambda>pid. pid \<in> related ps (fst ` set att')) AttributionDescendant"
      using 1 p True by auto
    have eq: "related ps (fst ` set att') = related ps (fst ` set att)"
      using related_mono [OF sub(1)] related_idem [OF sub(2)] by blast
    have "extends att (descend ps att') (\<lambda>pid. pid \<in> related ps (fst ` set att)) AttributionDescendant"
      by (rule extends_skip [OF extends_trans [OF ext IH(2)]]) (use sub(2) eq in auto)
    with IH(1) eq d show ?thesis by simp
  next
    case False
    have un: "att' = att" "\<forall>m \<in> set ps. has_key att (md_parent_pid m) \<longrightarrow> has_key att (md_pid m)"
      using descend_pass_unchanged [of ps att] p False by simp_all
    have "pid \<in> fst ` set att" if "pid \<in> related ps (fst ` set att)" for pid
      using that by induction (use un(2) in \<open>auto simp: has_key_iff\<close>)
    moreover have "descend ps att = att" using p False un(1) by (simp add: descend.simps [of ps att])
    ultimately have "related ps (fst ` set att) = fst ` set att" "descend ps att = att"
      by (auto intro: related.seed)
    then show ?thesis by (simp add: extends_refl has_key_iff)
  qed
qed

section \<open>The attribution of a task\<close>

text \<open>
  The specification: a process is attributed directly if a receipt or an event names its PID
  together with its creation time, if it works inside a task root, or if it holds a candidate
  path open, in this order of precedence; and indirectly if its parent is attributed.
\<close>

definition direct_reason ::
    "os_view \<Rightarrow> string list \<Rightarrow> native_adapter \<Rightarrow> hints \<Rightarrow> metadata list \<Rightarrow> int \<Rightarrow> attribution option" where
  "direct_reason os roots na h ps pid =
     (if hinted (byPID ps) (h_receipt_processes h) pid then Some AttributionReceipt
      else if hinted (byPID ps) (h_event_processes h) pid then Some AttributionEvent
      else if some_proc ps (\<lambda>m. withinTaskRoot os roots (md_working_dir m)) pid
        then Some AttributionWorkingDirectory
      else if h_candidate_paths h \<noteq> []
          \<and> some_proc ps (\<lambda>m. na_holds na (md_identity m) (h_candidate_paths h) = Inr True) pid
        then Some AttributionOpenPath
      else None)"

definition reason_for ::
    "os_view \<Rightarrow> string list \<Rightarrow> native_adapter \<Rightarrow> hints \<Rightarrow> metadata list \<Rightarrow> int \<Rightarrow> attribution option" where
  "reason_for os roots na h ps pid =
     (case direct_reason os roots na h ps pid of
        Some r \<Rightarrow> Some r
      | None \<Rightarrow> if pid \<in> related ps {p. direct_reason os roots na h ps p \<noteq> None}
                then Some AttributionDescendant else None)"

lemma attribute_spec:
  "map_of (fst (attribute os roots na h ps)) pid = reason_for os roots na h ps pid"
  "distinct (map fst (fst (attribute os roots na h ps)))"
proof -
  define a1 where "a1 = bindStableHints [] (byPID ps) (h_receipt_processes h) AttributionReceipt"
  define a2 where "a2 = bindStableHints a1 (byPID ps) (h_event_processes h) AttributionEvent"
  define a3 where "a3 = bind_working_dirs (withinTaskRoot os roots) a2 ps"
  define a4 where "a4 = (if h_candidate_paths h \<noteq> []
    then fst (bind_open_paths na (h_candidate_paths h) a3 [] ps) else a3)"
  have e1: "extends [] a1 (hinted (byPID ps) (h_receipt_processes h)) AttributionReceipt"
    and e2: "extends a1 a2 (hinted (byPID ps) (h_event_processes h)) AttributionEvent"
    and e3: "extends a2 a3 (some_proc ps (\<lambda>m. withinTaskRoot os roots (md_working_dir m)))
               AttributionWorkingDirectory"
    unfolding a1_def a2_def a3_def
    by (rule bindStableHints_extends bind_working_dirs_extends)+
  have e4: "extends a3 a4 (\<lambda>pid. h_candidate_paths h \<noteq> []
      \<and> some_proc ps (\<lambda>m. na_holds na (md_identity m) (h_candidate_paths h) = Inr True) pid)
      AttributionOpenPath"
    using bind_open_paths_extends [of a3 na "h_candidate_paths h" "[]" ps]
    by (auto simp: a4_def intro: extends_refl)
  have m4: "map_of a4 = direct_reason os roots na h ps"
    using e1 e2 e3 e4 by (auto simp: extends_def direct_reason_def fun_eq_iff)
  have k4: "fst ` set a4 = {p. direct_reason os roots na h ps p \<noteq> None}"
    using m4 by (auto simp flip: dom_map_of_conv_image_fst)
  have d4: "distinct (map fst a4)" using e1 e2 e3 e4 by (simp add: extends_def)
  have "fst (attribute os roots na h ps) = descend ps a4"
    by (auto simp: attribute_def Let_def a1_def a2_def a3_def a4_def split: prod.splits)
  moreover note descend_spec [of ps a4]
  ultimately show "map_of (fst (attribute os roots na h ps)) pid = reason_for os roots na h ps pid"
    "distinct (map fst (fst (attribute os roots na h ps)))"
    using m4 k4 d4 by (auto simp: extends_def reason_for_def)
qed

lemma byPID_Some: "byPID ps pid = Some m \<Longrightarrow> m \<in> set ps \<and> md_pid m = pid"
  by (auto simp: byPID_def dest: map_of_SomeD)

lemma byPID_distinct: "distinct (map md_pid ps) \<Longrightarrow> m \<in> set ps \<Longrightarrow> byPID ps (md_pid m) = Some m"
  unfolding byPID_def by (rule map_of_is_SomeI) (auto simp: comp_def simp flip: rev_map)

lemma reason_for_listed:
  assumes "reason_for os roots na h ps pid = Some r" shows "pid \<in> md_pid ` set ps"
proof -
  have direct: "direct_reason os roots na h ps p = Some q \<Longrightarrow> p \<in> md_pid ` set ps" for p q
    by (auto simp: direct_reason_def hinted_def some_proc_def image_iff dest!: byPID_Some
        split: if_splits) metis+
  have "p \<in> related ps {p. direct_reason os roots na h ps p \<noteq> None} \<Longrightarrow> p \<in> md_pid ` set ps" for p
    by (induction rule: related.induct) (use direct in auto)
  with assms direct show ?thesis by (auto simp: reason_for_def split: option.splits if_splits)
qed

interpretation by_pid: comparator evidence_less
  unfolding evidence_less_def by (rule comparator_key)

lemma strictly_sorted_pids:
  assumes "distinct (map ev_pid evs)"
  shows "sorted_wrt (\<lambda>a b. ev_pid a < ev_pid b) (sort_by evidence_less evs)"
proof -
  have d: "distinct (map ev_pid (sort_by evidence_less evs))"
    using assms by (metis mset_map mset_sort_by mset_eq_imp_distinct_iff)
  show ?thesis
    unfolding sorted_wrt_iff_nth_less
  proof (intro allI impI)
    fix i j assume ij: "i < j" "j < length (sort_by evidence_less evs)"
    then have "ev_pid (sort_by evidence_less evs ! i) \<noteq> ev_pid (sort_by evidence_less evs ! j)"
      using d by (auto simp: distinct_conv_nth)
    moreover have "\<not> evidence_less (sort_by evidence_less evs ! j) (sort_by evidence_less evs ! i)"
      using by_pid.sort_by_sorted [of evs] ij by (simp add: sorted_wrt_iff_nth_less)
    ultimately show "ev_pid (sort_by evidence_less evs ! i) < ev_pid (sort_by evidence_less evs ! j)"
      by (simp add: evidence_less_def)
  qed
qed

text \<open>What one attributed process is reported as.\<close>

definition evidence_of :: "native_adapter \<Rightarrow> metadata \<Rightarrow> attribution \<Rightarrow> evidence" where
  "evidence_of na m r =
     \<lparr>ev_identity = md_identity m, ev_parent_pid = md_parent_pid m, ev_reason = r,
      ev_ports = (case na_ports na (md_identity m) of Inl _ \<Rightarrow> [] | Inr p \<Rightarrow> sort_by port_less p)\<rparr>"

lemma collect_evidence_map:
  "fst (collect_evidence na procs att lims) =
     map (\<lambda>(pid, r). evidence_of na (case procs pid of None \<Rightarrow> zero_metadata | Some m \<Rightarrow> m) r) att"
proof (induction att arbitrary: lims)
  case (Cons a att)
  obtain pid r where a: "a = (pid, r)" by force
  show ?case
    using Cons.IH by (simp add: a evidence_of_def Let_def case_prod_unfold split: sum.splits)
qed simp

lemma proc_resolve_spec:
  assumes snap: "na_snapshot na = Inr ps" and dist: "distinct (map md_pid ps)"
    and range: "\<And>att. mset (na_range na att) = mset att"
  shows "sorted_wrt (\<lambda>a b. ev_pid a < ev_pid b) (fst (proc_resolve os roots na h))"
    "set (fst (proc_resolve os roots na h))
       = {evidence_of na m r |m r. m \<in> set ps \<and> reason_for os roots na h ps (md_pid m) = Some r}"
proof -
  define att where "att = fst (attribute os roots na h ps)"
  define md where "md pid = (case byPID ps pid of None \<Rightarrow> zero_metadata | Some m \<Rightarrow> m)" for pid
  define evs where "evs = map (\<lambda>(pid, r). evidence_of na (md pid) r) (na_range na att)"
  have res: "fst (proc_resolve os roots na h) = sort_by evidence_less evs"
    by (simp add: proc_resolve_def snap evs_def att_def md_def Let_def case_prod_unfold
        collect_evidence_map [unfolded case_prod_unfold])
  have att: "map_of att pid = reason_for os roots na h ps pid" "distinct (map fst att)" for pid
    using attribute_spec [of os roots na h ps] by (auto simp: att_def)
  have att': "set (na_range na att) = set att" "distinct (map fst (na_range na att))"
    using range [of att] att(2) by (metis mset_eq_setD, metis mset_map mset_eq_imp_distinct_iff)
  have mem: "(pid, r) \<in> set att \<longleftrightarrow> reason_for os roots na h ps pid = Some r" for pid r
    using att by (metis map_of_eq_Some_iff)
  have md: "md pid \<in> set ps \<and> md_pid (md pid) = pid" if "(pid, r) \<in> set att" for pid r
    using that reason_for_listed byPID_distinct [OF dist] unfolding mem md_def by fastforce
  have "map ev_pid evs = map fst (na_range na att)"
    using md att'(1) by (auto simp: evs_def evidence_of_def)
  then show "sorted_wrt (\<lambda>a b. ev_pid a < ev_pid b) (fst (proc_resolve os roots na h))"
    using strictly_sorted_pids att'(2) res by simp
  have md_eq: "m \<in> set ps \<Longrightarrow> md (md_pid m) = m" for m
    using byPID_distinct [OF dist] by (simp add: md_def)
  have "set evs = {evidence_of na m r |m r. m \<in> set ps \<and> (md_pid m, r) \<in> set att}"
    unfolding evs_def set_map att'(1)
  proof (intro set_eqI iffI)
    fix ev assume "ev \<in> (\<lambda>(pid, r). evidence_of na (md pid) r) ` set att"
    then obtain pid r where p: "(pid, r) \<in> set att" "ev = evidence_of na (md pid) r" by auto
    with md [OF p(1)] show "ev \<in> {evidence_of na m r |m r. m \<in> set ps \<and> (md_pid m, r) \<in> set att}"
      by (intro CollectI exI [of _ "md pid"] exI [of _ r]) simp
  next
    fix ev assume "ev \<in> {evidence_of na m r |m r. m \<in> set ps \<and> (md_pid m, r) \<in> set att}"
    then show "ev \<in> (\<lambda>(pid, r). evidence_of na (md pid) r) ` set att"
      using md_eq by (force intro: rev_image_eqI)
  qed
  then show "set (fst (proc_resolve os roots na h))
       = {evidence_of na m r |m r. m \<in> set ps \<and> reason_for os roots na h ps (md_pid m) = Some r}"
    by (simp add: res mem)
qed

lemma verify_loop_keys:
  "fst ` set (verify_loop is evs acc) =
     fst ` set acc \<union> {ev_pid e |e. e \<in> set evs \<and> (\<exists>i \<in> set is. sameIdentity (ev_identity e) i)}"
  by (induction "is" evs acc rule: verify_loop.induct) (auto simp: dom_update)

text \<open>
  A machine for the witnesses: a shell in the workspace, its child elsewhere, and a process
  that reuses the PID a past event named.
\<close>

definition demo_proc :: "int \<Rightarrow> int \<Rightarrow> string \<Rightarrow> metadata" where
  "demo_proc pid parent wd = \<lparr>md_identity = \<lparr>pi_pid = pid, pi_created_at = time_unix_milli (1000 * pid)\<rparr>,
     md_parent_pid = parent, md_working_dir = wd\<rparr>"

definition demo_adapter :: native_adapter where
  "demo_adapter = \<lparr>na_snapshot = Inr [demo_proc 12 11 ''/'', demo_proc 11 1 ''/home/dev/repo'',
       demo_proc 40 1 ''/''],
     na_ports = (\<lambda>_. Inr []), na_holds = (\<lambda>_ _. Inr False), na_range = rev, na_quote = (\<lambda>s. s)\<rparr>"

definition demo_hints :: hints where
  "demo_hints = \<lparr>h_event_processes = [\<lparr>pi_pid = 40, pi_created_at = time_unix_milli 5\<rparr>],
     h_receipt_processes = [], h_candidate_paths = []\<rparr>"

section \<open>Properties\<close>

text \<open>
  C19: \<open>Resolve\<close> attributes exactly the right processes: whatever order the runtime
  visits its maps in, the evidence lists, in increasing PID order and once each, precisely the
  processes of the snapshot that a receipt or event names with the same PID and creation time,
  that work inside a task root or hold a candidate path open, and all their descendants; each
  carries the strongest applicable reason and its own identity, parent and sorted ports.
  Relied on: a snapshot lists a PID once.
\<close>

theorem Resolve_attribution_exact:
  assumes "na_snapshot na = Inr ps" and "distinct (map md_pid ps)"
    and "\<And>att. mset (na_range na att) = mset att"
  shows "sorted_wrt (\<lambda>a b. ev_pid a < ev_pid b) (fst (proc_resolve os roots na h))
    \<and> set (fst (proc_resolve os roots na h))
        = {evidence_of na m r |m r. m \<in> set ps \<and> reason_for os roots na h ps (md_pid m) = Some r}"
  using proc_resolve_spec [OF assms] by blast

theorem Resolve_attribution_exact_witness:
  "sorted_wrt (\<lambda>a b. ev_pid a < ev_pid b) (fst (proc_resolve demo_os [''/home/dev/repo''] demo_adapter demo_hints))
   \<and> map (\<lambda>e. (ev_pid e, ev_reason e)) (fst (proc_resolve demo_os [''/home/dev/repo''] demo_adapter demo_hints))
       = [(11, AttributionWorkingDirectory), (12, AttributionDescendant)]"
proof -
  have "map (\<lambda>e. (ev_pid e, ev_reason e)) (fst (proc_resolve demo_os [''/home/dev/repo''] demo_adapter demo_hints))
       = [(11, AttributionWorkingDirectory), (12, AttributionDescendant)]" by code_simp
  moreover have "sorted_wrt (\<lambda>a b. ev_pid a < ev_pid b)
      (fst (proc_resolve demo_os [''/home/dev/repo''] demo_adapter demo_hints))"
    using Resolve_attribution_exact [of demo_adapter
        "[demo_proc 12 11 ''/'', demo_proc 11 1 ''/home/dev/repo'', demo_proc 40 1 ''/'']" demo_os
        "[''/home/dev/repo'']" demo_hints]
    by (simp add: demo_adapter_def demo_proc_def)
  ultimately show ?thesis by simp
qed

lemma proc_verify_keys:
  assumes "na_snapshot na = Inr ps" and "distinct (map md_pid ps)"
    and "\<And>att. mset (na_range na att) = mset att"
  shows "map_of (fst (proc_verify os roots na ids)) pid \<noteq> None \<longleftrightarrow>
    (\<exists>m \<in> set ps. \<exists>i \<in> set ids. md_pid m = pid \<and> sameIdentity (md_identity m) i)"
proof -
  define h where "h = \<lparr>h_event_processes = ids, h_receipt_processes = [], h_candidate_paths = []\<rparr>"
  have key: "map_of (fst (proc_verify os roots na ids)) pid \<noteq> None \<longleftrightarrow>
      (\<exists>e \<in> set (fst (proc_resolve os roots na h)). ev_pid e = pid
         \<and> (\<exists>i \<in> set ids. sameIdentity (ev_identity e) i))"
    by (auto simp: proc_verify_def h_def case_prod_unfold Let_def map_of_eq_None_iff verify_loop_keys)
  have "\<exists>r. reason_for os roots na h ps (md_pid m) = Some r"
    if "m \<in> set ps" "i \<in> set ids" "sameIdentity (md_identity m) i" for m i
  proof -
    have "hinted (byPID ps) (h_event_processes h) (md_pid m)"
      using that byPID_distinct [OF assms(2)] by (force simp: hinted_def h_def sameIdentity_def)
    then show ?thesis by (simp add: reason_for_def direct_reason_def)
  qed
  then show ?thesis
    unfolding key proc_resolve_spec(2) [OF assms] by (fastforce simp: evidence_of_def)
qed

text \<open>
  A process passes verification exactly when the machine now runs a process with the same
  PID and the same creation time: a reused PID is never taken for the process in the report.
\<close>

theorem Verify_no_pid_reuse:
  assumes "na_snapshot na = Inr ps" and "distinct (map md_pid ps)"
    and "\<And>att. mset (na_range na att) = mset att"
  shows "map_of (fst (proc_verify os roots na ids)) pid \<noteq> None \<longleftrightarrow>
    (\<exists>m \<in> set ps. \<exists>i \<in> set ids. md_pid m = pid \<and> sameIdentity (md_identity m) i)"
  by (rule proc_verify_keys [OF assms])

theorem Verify_no_pid_reuse_witness:
  "map_of (fst (proc_verify demo_os [] demo_adapter [\<lparr>pi_pid = 40, pi_created_at = time_unix_milli 5\<rparr>])) 40 = None"
proof -
  have "\<not> map_of (fst (proc_verify demo_os [] demo_adapter [\<lparr>pi_pid = 40, pi_created_at = time_unix_milli 5\<rparr>])) 40 \<noteq> None"
    by (subst Verify_no_pid_reuse
        [of demo_adapter "[demo_proc 12 11 ''/'', demo_proc 11 1 ''/home/dev/repo'', demo_proc 40 1 ''/'']"])
      (auto simp: demo_adapter_def demo_proc_def sameIdentity_def time_equal_def time_unix_milli_def)
  then show ?thesis by blast
qed

end
