(* ===== verification/Event_Normalize.thy ===== *)
theory Event_Normalize
  imports Scope_Guard
begin

text \<open>
  Package \<open>event\<close> (\<open>normalize.go\<close>): validating a batch of task events and
  turning their paths into cleaned absolute paths inside the task's roots, with symbolic
  links of existing prefixes resolved before the containment decision.
\<close>

section \<open>Model\<close>

definition MaxBatchEvents :: int where
  "MaxBatchEvents = 1000"

record summary =
  su_event_id :: string
  su_type :: event_type
  su_timestamp :: gtime
  su_working_dir :: string
  su_command_fingerprint :: string
  su_exit_code :: "int option"
  su_process :: "process_identity option"
  su_declared_outputs :: "string list"
  su_receipt_id :: string

definition pathWithin :: "string \<Rightarrow> string \<Rightarrow> bool" where
  "pathWithin root path \<longleftrightarrow>
     (case path_rel root path of
        Inl _ \<Rightarrow> False
      | Inr relative \<Rightarrow> relative \<noteq> ''..'' \<and> \<not> has_prefix relative (''..'' @ [sep]))"

text \<open>The loop of \<open>resolveExistingPrefix\<close> at one probe; \<open>Dir\<close> climbs until it stands still.\<close>

function resolve_probe :: "os_view \<Rightarrow> string \<Rightarrow> string \<Rightarrow> string res" where
  "resolve_probe os path probe =
     (case lstat os probe of
        Inr _ \<Rightarrow>
          and_then (eval_symlinks os probe) (\<lambda>resolved.
            case path_rel probe path of
              Inl e \<Rightarrow> Inl e
            | Inr remainder \<Rightarrow>
                if remainder = ''.'' then Inr resolved else Inr (path_join resolved remainder))
      | Inl e \<Rightarrow>
          if \<not> err_is ErrNotExist e then Inl e
          else (let parent = path_dir probe
                in if parent = probe then Inr path else resolve_probe os path parent))"
  by pat_completeness auto
termination
  by (relation "measure (\<lambda>(os, path, probe). dir_measure probe)") (auto intro: path_dir_less)

declare resolve_probe.simps [simp del]

definition resolveExistingPrefix :: "os_view \<Rightarrow> string \<Rightarrow> string res" where
  "resolveExistingPrefix os path = resolve_probe os path path"

fun scoped_in :: "os_view \<Rightarrow> string \<Rightarrow> root list \<Rightarrow> string res" where
  "scoped_in os target [] = Inl (errors_new ''path is outside task scope'')"
| "scoped_in os target (r # rs) =
     (if pathWithin (rt_path r) target then
        and_then (eval_symlinks os (rt_path r)) (\<lambda>resolvedRoot.
        and_then (resolveExistingPrefix os target) (\<lambda>resolved.
          if \<not> pathWithin resolvedRoot resolved
          then Inl (errors_new ''path resolves outside task scope'') else Inr target))
      else scoped_in os target rs)"

definition normalizeScopedPath :: "os_view \<Rightarrow> string \<Rightarrow> string \<Rightarrow> validated \<Rightarrow> string res" where
  "normalizeScopedPath os raw base v =
     (if raw = [] \<or> CHR 0x00 \<in> set raw then Inl (errors_new ''path is invalid'')
      else if \<not> is_abs raw \<and> base = [] then Inl (errors_new ''relative path has no working directory'')
      else and_then (path_abs (getwd os) (if is_abs raw then raw else path_join base raw))
             (\<lambda>a. scoped_in os (path_clean a) (vs_roots v)))"

text \<open>One event of the batch; an empty root list makes \<open>validated.Roots[0]\<close> panic.\<close>

definition event_err :: "int \<Rightarrow> string \<Rightarrow> err \<Rightarrow> err" where
  "event_err index what e = Errorf [Lit (''event '' @ itoa index @ what), Wrapped e]"

definition normalize_event ::
    "os_view \<Rightarrow> validated \<Rightarrow> int \<Rightarrow> task_event \<Rightarrow> summary res" where
  "normalize_event os v index e =
     and_then
       (if e_working_dir e \<noteq> [] then
          (case normalizeScopedPath os (e_working_dir e) [] v of
             Inl er \<Rightarrow> Inl (event_err index '' working_directory: '' er)
           | Inr w \<Rightarrow> Inr w)
        else Inr [])
     (\<lambda>workingDir.
       and_then
         (if workingDir = [] then
            (case vs_roots v of [] \<Rightarrow> Inl (GoPanic ''index out of range'') | r # _ \<Rightarrow> Inr (rt_path r))
          else Inr workingDir)
       (\<lambda>base.
         case map_res (\<lambda>output. normalizeScopedPath os output base v) (e_declared_outputs e) of
           Inl er \<Rightarrow> Inl (event_err index '' declared_outputs: '' er)
         | Inr outputs \<Rightarrow>
             Inr \<lparr>su_event_id = e_event_id e, su_type = e_type e,
                  su_timestamp = time_utc (e_timestamp e), su_working_dir = workingDir,
                  su_command_fingerprint = e_command_fingerprint e, su_exit_code = e_exit_code e,
                  su_process = e_process e, su_declared_outputs = outputs,
                  su_receipt_id = e_receipt_id e\<rparr>))"

fun normalize_loop ::
    "os_view \<Rightarrow> validated \<Rightarrow> int \<Rightarrow> string list \<Rightarrow> task_event list \<Rightarrow> summary list res" where
  "normalize_loop os v index seen [] = Inr []"
| "normalize_loop os v index seen (e # es) =
     (case validate_event e of
        Inl er \<Rightarrow> Inl (event_err index '': '' er)
      | Inr _ \<Rightarrow>
        if e_task_id e \<noteq> vs_task_id v then
          Inl (errors_new (''event '' @ itoa index @ '' task_id does not match observed task''))
        else if e_event_id e \<in> set seen then
          Inl (Errorf [Lit ''duplicate event_id '', Quoted (e_event_id e)])
        else
          and_then (normalize_event os v index e) (\<lambda>s.
          and_then (normalize_loop os v (index + 1) (e_event_id e # seen) es) (\<lambda>ss.
            Inr (s # ss))))"

definition summary_less :: "summary \<Rightarrow> summary \<Rightarrow> bool" where
  "summary_less a b \<longleftrightarrow>
     (if time_equal (su_timestamp a) (su_timestamp b) then su_event_id a < su_event_id b
      else time_before (su_timestamp a) (su_timestamp b))"

definition Normalize :: "os_view \<Rightarrow> task_event list \<Rightarrow> validated \<Rightarrow> summary list res" where
  "Normalize os batch v =
     (if int (length batch) > MaxBatchEvents then
        Inl (errors_new (''event batch exceeds '' @ itoa MaxBatchEvents @ '' entries''))
      else if batch = [] then Inr []
      else and_then (normalize_loop os v 0 [] batch) (\<lambda>ss. Inr (sort_by summary_less ss)))"

section \<open>Containment\<close>

lemma pathWithin_canonical:
  assumes "canonical r" "canonical p"
  shows "pathWithin r p \<longleftrightarrow> prefix (rel_parts r) (rel_parts p)"
proof -
  from assms obtain bs ts where "list_all proper bs" "r = abs_path bs" "rel_parts r = bs"
    "list_all proper ts" "p = abs_path ts" "rel_parts p = ts" by (auto elim!: canonicalE)
  then show ?thesis
    using path_rel_within [of bs ts]
    by (cases "path_rel r p") (auto simp: pathWithin_def escapes_def)
qed

text \<open>
  What an accepted path satisfies: it is cleaned and lies in a root, and the place its existing
  prefix really is lies in the place the root really is.
\<close>

definition scoped_path :: "os_view \<Rightarrow> root list \<Rightarrow> string \<Rightarrow> bool" where
  "scoped_path os rs p \<longleftrightarrow>
     canonical p \<and> (\<exists>r \<in> set rs. \<exists>real_root real_path. prefix (rel_parts (rt_path r)) (rel_parts p)
       \<and> eval_symlinks os (rt_path r) = Inr real_root \<and> resolveExistingPrefix os p = Inr real_path
       \<and> pathWithin real_root real_path)"

lemma scoped_in_Inr:
  assumes "scoped_in os p rs = Inr q" "canonical p" "\<forall>r \<in> set rs. canonical (rt_path r)"
  shows "q = p \<and> scoped_path os rs p"
  using assms
proof (induction rs)
  case (Cons r rs)
  then show ?case
    by (cases "pathWithin (rt_path r) p") (auto simp: scoped_path_def pathWithin_canonical res_simps)
qed simp

lemma normalizeScopedPath_scoped:
  assumes "normalizeScopedPath os raw base v = Inr p" "\<forall>r \<in> set (vs_roots v). canonical (rt_path r)"
    and "\<And>wd. getwd os = Inr wd \<Longrightarrow> is_abs wd"
  shows "scoped_path os (vs_roots v) p"
proof -
  from assms(1) obtain raw' a where a: "path_abs (getwd os) raw' = Inr a"
    and s: "scoped_in os (path_clean a) (vs_roots v) = Inr p"
    by (auto simp: normalizeScopedPath_def res_simps split: if_splits)
  obtain cs where "list_all proper cs" "a = abs_path cs" by (rule path_abs_is_clean [OF a assms(3)])
  then have "canonical (path_clean a)" by (auto simp: canonical_def)
  from scoped_in_Inr [OF s this assms(2)] show ?thesis by simp
qed

section \<open>The batch\<close>

interpretation by_time: comparator summary_less
  by unfold_locales (auto simp: summary_less_def time_equal_def time_before_def split: if_splits)

definition summary_of :: "os_view \<Rightarrow> validated \<Rightarrow> task_event \<Rightarrow> summary \<Rightarrow> bool" where
  "summary_of os v e s \<longleftrightarrow>
     event_ok e \<and> e_task_id e = vs_task_id v
     \<and> su_event_id s = e_event_id e \<and> su_type s = e_type e \<and> su_timestamp s = time_utc (e_timestamp e)
     \<and> su_process s = e_process e \<and> su_receipt_id s = e_receipt_id e \<and> su_exit_code s = e_exit_code e
     \<and> su_command_fingerprint s = e_command_fingerprint e
     \<and> (su_working_dir s = [] \<longleftrightarrow> e_working_dir e = [])
     \<and> (su_working_dir s \<noteq> [] \<longrightarrow> scoped_path os (vs_roots v) (su_working_dir s))
     \<and> length (su_declared_outputs s) = length (e_declared_outputs e)
     \<and> (\<forall>p \<in> set (su_declared_outputs s). scoped_path os (vs_roots v) p)"

lemma normalize_event_spec:
  assumes "normalize_event os v i e = Inr s" "event_ok e" "e_task_id e = vs_task_id v"
    "\<forall>r \<in> set (vs_roots v). canonical (rt_path r)" and "\<And>wd. getwd os = Inr wd \<Longrightarrow> is_abs wd"
  shows "summary_of os v e s"
proof -
  have scoped: "normalizeScopedPath os raw base v = Inr p \<Longrightarrow> scoped_path os (vs_roots v) p" for raw base p
    by (rule normalizeScopedPath_scoped [OF _ assms(4,5)])
  from assms(1) obtain wd base outs where
      wd: "if e_working_dir e \<noteq> [] then normalizeScopedPath os (e_working_dir e) [] v = Inr wd else wd = []"
    and outs: "map_res (\<lambda>output. normalizeScopedPath os output base v) (e_declared_outputs e) = Inr outs"
    and s: "s = \<lparr>su_event_id = e_event_id e, su_type = e_type e,
                  su_timestamp = time_utc (e_timestamp e), su_working_dir = wd,
                  su_command_fingerprint = e_command_fingerprint e, su_exit_code = e_exit_code e,
                  su_process = e_process e, su_declared_outputs = outs,
                  su_receipt_id = e_receipt_id e\<rparr>"
    by (auto simp: normalize_event_def res_simps split: if_splits)
  have len: "length outs = length (e_declared_outputs e)" using map_res_length [OF outs] .
  moreover have "\<forall>p \<in> set outs. scoped_path os (vs_roots v) p"
    using outs len scoped unfolding map_res_eq_Inr list_all2_conv_all_nth by (metis in_set_conv_nth)
  moreover have "e_working_dir e \<noteq> [] \<Longrightarrow> scoped_path os (vs_roots v) wd \<and> wd \<noteq> []"
    using wd scoped [of "e_working_dir e" "[]" wd] is_abs_not_Nil [of wd]
    by (auto simp: scoped_path_def)
  ultimately show ?thesis using assms(2,3) wd by (cases "e_working_dir e = []") (auto simp: summary_of_def s)
qed

lemma normalize_loop_spec:
  assumes "normalize_loop os v i seen es = Inr ss"
    "\<forall>r \<in> set (vs_roots v). canonical (rt_path r)" and "\<And>wd. getwd os = Inr wd \<Longrightarrow> is_abs wd"
  shows "list_all2 (summary_of os v) es ss \<and> distinct (map e_event_id es)
    \<and> set (map e_event_id es) \<inter> set seen = {}"
  using assms(1)
proof (induction es arbitrary: i seen ss)
  case (Cons e es)
  from Cons.prems obtain s ss' where
      e: "validate_event e = Inr ()" "e_task_id e = vs_task_id v" "e_event_id e \<notin> set seen"
    and s: "normalize_event os v i e = Inr s" "ss = s # ss'"
    and rest: "normalize_loop os v (i + 1) (e_event_id e # seen) es = Inr ss'"
    by (auto simp: res_simps)
  have "summary_of os v e s"
    using normalize_event_spec [OF s(1) _ e(2) assms(2,3)] e(1) by (simp add: validate_event_iff)
  with Cons.IH [OF rest] e s show ?case by auto
qed simp

text \<open>Which batches are accepted: the exact criterion.\<close>

definition event_paths_ok :: "os_view \<Rightarrow> validated \<Rightarrow> task_event \<Rightarrow> bool" where
  "event_paths_ok os v e \<longleftrightarrow>
     (\<exists>base. (if e_working_dir e = [] then base = rt_path (hd (vs_roots v))
              else normalizeScopedPath os (e_working_dir e) [] v = Inr base)
        \<and> (\<forall>p \<in> set (e_declared_outputs e). is_ok (normalizeScopedPath os p base v)))"

lemma is_ok_map_res: "is_ok (map_res f xs) \<longleftrightarrow> (\<forall>x \<in> set xs. is_ok (f x))"
proof (induction xs)
  case (Cons x xs)
  then show ?case by (cases "f x"; cases "map_res f xs") auto
qed simp

lemma is_ok_iff: "is_ok m \<longleftrightarrow> (\<exists>v. m = Inr v)"
  by (cases m) auto

lemma scoped_not_Nil:
  assumes "normalizeScopedPath os raw base v = Inr p" shows "p \<noteq> []"
proof -
  from assms obtain a where "scoped_in os (path_clean a) (vs_roots v) = Inr p"
    by (auto simp: normalizeScopedPath_def res_simps split: if_splits)
  moreover have "scoped_in os t rs = Inr p \<Longrightarrow> p = t" for t rs
    by (induction os t rs rule: scoped_in.induct) (auto simp: res_simps split: if_splits)
  ultimately show ?thesis by (metis path_clean_not_Nil)
qed

lemma normalize_event_ok:
  assumes "vs_roots v \<noteq> []"
  shows "is_ok (normalize_event os v i e) \<longleftrightarrow> event_paths_ok os v e"
proof -
  obtain r rs where r: "vs_roots v = r # rs" using assms by (cases "vs_roots v") auto
  have fin: "is_ok (case map_res f xs of Inl er \<Rightarrow> Inl (event_err i w er) | Inr outs \<Rightarrow> Inr (g outs))
      \<longleftrightarrow> (\<forall>x \<in> set xs. is_ok (f x))" for f :: "string \<Rightarrow> string res" and xs w and g :: "string list \<Rightarrow> summary"
    using is_ok_map_res [of f xs] by (cases "map_res f xs") auto
  show ?thesis
  proof (cases "e_working_dir e = []")
    case True
    then show ?thesis by (simp add: normalize_event_def event_paths_ok_def r fin)
  next
    case False
    then show ?thesis
      using scoped_not_Nil [of os "e_working_dir e" "[]" v]
      by (cases "normalizeScopedPath os (e_working_dir e) [] v")
        (auto simp: normalize_event_def event_paths_ok_def fin)
  qed
qed

lemma normalize_loop_ok:
  assumes "vs_roots v \<noteq> []"
  shows "is_ok (normalize_loop os v i seen es) \<longleftrightarrow>
    (\<forall>e \<in> set es. event_ok e \<and> e_task_id e = vs_task_id v \<and> event_paths_ok os v e)
    \<and> distinct (map e_event_id es) \<and> set (map e_event_id es) \<inter> set seen = {}"
proof (induction es arbitrary: i seen)
  case (Cons e es)
  have val: "validate_event e = Inr u \<longleftrightarrow> event_ok e" for u by (simp add: validate_event_iff flip: unit_eq)
  show ?case
  proof (cases "event_ok e \<and> e_task_id e = vs_task_id v \<and> e_event_id e \<notin> set seen \<and> event_paths_ok os v e")
    case True
    then obtain s where s: "normalize_event os v i e = Inr s"
      using normalize_event_ok [OF assms, of os i e] by (auto simp: is_ok_iff)
    have "is_ok (normalize_loop os v i seen (e # es)) \<longleftrightarrow>
        is_ok (normalize_loop os v (i + 1) (e_event_id e # seen) es)"
      using True s val [of "()"]
      by (cases "normalize_loop os v (i + 1) (e_event_id e # seen) es") auto
    with Cons.IH [of "i + 1" "e_event_id e # seen"] True show ?thesis by auto
  next
    case False
    have "\<not> is_ok (normalize_loop os v i seen (e # es))"
    proof
      assume "is_ok (normalize_loop os v i seen (e # es))"
      then obtain s where "validate_event e = Inr ()" "e_task_id e = vs_task_id v"
        "e_event_id e \<notin> set seen" "normalize_event os v i e = Inr s"
        by (auto simp: is_ok_iff res_simps split: if_splits)
      with False normalize_event_ok [OF assms, of os i e] show False
        by (auto simp: validate_event_iff is_ok_iff)
    qed
    with False show ?thesis by auto
  qed
qed simp

section \<open>Existing prefixes\<close>

lemma resolve_probe_climbs:
  assumes "list_all proper (bs @ us)" "us \<noteq> [] \<longrightarrow> list_all proper ds"
    "lstat os (abs_path bs) = Inr info" "eval_symlinks os (abs_path bs) = Inr (abs_path ds)"
    "\<forall>k. length bs < k \<and> k \<le> length bs + length vs \<longrightarrow>
       (\<exists>e. lstat os (abs_path (take k (bs @ us))) = Inl e \<and> err_is ErrNotExist e)"
    "prefix vs us"
  shows "resolve_probe os (abs_path (bs @ us)) (abs_path (bs @ vs)) = Inr (abs_path (ds @ us))"
  using assms(5,6)
proof (induction vs rule: rev_induct)
  case Nil
  have "path_rel (abs_path bs) (abs_path (bs @ us)) = Inr (if us = [] then ''.'' else join_with sep us)"
    using assms(1) by (auto simp: path_rel_append)
  then show ?case
    using assms(1-4) join_proper_not_dot [of us]
    by (auto simp: resolve_probe.simps [of _ _ "abs_path bs"] path_join_abs)
next
  case (snoc v vs)
  from snoc.prems(2) obtain ws where us: "us = (vs @ [v]) @ ws" by (auto simp: prefix_def)
  then have pr: "list_all proper ((bs @ vs) @ [v])" using assms(1) by simp
  have k: "take (length bs + length (vs @ [v])) (bs @ us) = bs @ vs @ [v]" by (simp add: us)
  then obtain e where e: "lstat os (abs_path (bs @ vs @ [v])) = Inl e" "err_is ErrNotExist e"
    using snoc.prems(1) [rule_format, of "length bs + length (vs @ [v])"] by auto
  have dir: "path_dir (abs_path (bs @ vs @ [v])) = abs_path (bs @ vs)" using path_dir_snoc [OF pr] by simp
  have "abs_path (bs @ vs) \<noteq> abs_path (bs @ vs @ [v])"
    using abs_path_inject [of "bs @ vs" "bs @ vs @ [v]"] pr by simp
  moreover have "resolve_probe os (abs_path (bs @ us)) (abs_path (bs @ vs)) = Inr (abs_path (ds @ us))"
  proof (rule snoc.IH)
    show "\<forall>k. length bs < k \<and> k \<le> length bs + length vs \<longrightarrow>
       (\<exists>e. lstat os (abs_path (take k (bs @ us))) = Inl e \<and> err_is ErrNotExist e)"
      using snoc.prems(1) by simp
    show "prefix vs us" by (simp add: us)
  qed
  ultimately show ?case
    using e dir by (simp add: resolve_probe.simps [of _ _ "abs_path (bs @ vs @ [v])"])
qed

section \<open>Properties\<close>

text \<open>Data for the witnesses.\<close>

definition demo_event :: "string \<Rightarrow> int \<Rightarrow> task_event" where
  "demo_event i t = \<lparr>e_schema_version = EventSchemaVersion, e_task_id = ''t'', e_event_id = i,
     e_type = EventArtifactDeclared, e_timestamp = time_of_unix t, e_working_dir = ''/home/dev/repo'',
     e_command_fingerprint = [], e_exit_code = None, e_process = None,
     e_declared_outputs = [''out/a.o''], e_receipt_id = []\<rparr>"

lemma demo_validated_roots:
  "scope_ok demo_os demo_validated" "\<forall>r \<in> set (vs_roots demo_validated). canonical (rt_path r)"
  "\<And>wd. getwd demo_os = Inr wd \<Longrightarrow> is_abs wd"
proof -
  show abs: "\<And>wd. getwd demo_os = Inr wd \<Longrightarrow> is_abs wd" by (auto simp: demo_os_def is_abs_def has_prefix_def)
  show "scope_ok demo_os demo_validated" by (rule scope_validate_ok [OF demo_scope_validates abs])
  then show "\<forall>r \<in> set (vs_roots demo_validated). canonical (rt_path r)" by (simp add: scope_ok_def)
qed

text \<open>
  C22: A normalised batch stays inside the task: it holds one summary per event, ordered by
  time and then event id, each for a valid event of this task with its own event id; working
  directories and declared outputs are cleaned absolute paths below a task root whose existing
  part, symbolic links resolved, still lies below the resolved root. Relied on: the working
  directory of the program is absolute.
\<close>

theorem Normalize_contained:
  assumes "Normalize os batch v = Inr ss" "scope_ok os v"
    and "\<And>wd. getwd os = Inr wd \<Longrightarrow> is_abs wd"
  shows "\<exists>raw. mset raw = mset ss \<and> list_all2 (summary_of os v) batch raw
    \<and> distinct (map su_event_id ss) \<and> sorted_wrt (\<lambda>a b. \<not> summary_less b a) ss
    \<and> length batch \<le> 1000"
proof (cases "batch = []")
  case True
  with assms(1) show ?thesis by (auto simp: Normalize_def MaxBatchEvents_def intro: exI [of _ "[]"])
next
  case False
  with assms(1) obtain raw where raw: "normalize_loop os v 0 [] batch = Inr raw"
    and ss: "ss = sort_by summary_less raw" and len: "length batch \<le> 1000"
    by (auto simp: Normalize_def MaxBatchEvents_def res_simps)
  have can: "\<forall>r \<in> set (vs_roots v). canonical (rt_path r)" using assms(2) by (simp add: scope_ok_def)
  have spec: "list_all2 (summary_of os v) batch raw" "distinct (map e_event_id batch)"
    using normalize_loop_spec [OF raw can assms(3)] by simp_all
  have "map su_event_id raw = map e_event_id batch"
    using spec(1) by (induction rule: list_all2_induct) (auto simp: summary_of_def)
  then have "distinct (map su_event_id ss)"
    using spec(2) by (metis mset_map mset_sort_by mset_eq_imp_distinct_iff ss)
  then show ?thesis using spec(1) len by_time.sort_by_sorted [of raw] by (auto simp: ss)
qed

lemma demo_normalize:
  "Normalize demo_os [demo_event ''b'' 2, demo_event ''a'' 1] demo_validated
     = Inr (projr (Normalize demo_os [demo_event ''b'' 2, demo_event ''a'' 1] demo_validated))"
proof -
  have "is_ok (Normalize demo_os [demo_event ''b'' 2, demo_event ''a'' 1] demo_validated)" by code_simp
  then show ?thesis by (auto elim: is_okE)
qed

theorem Normalize_contained_witness:
  "distinct (map su_event_id
     (projr (Normalize demo_os [demo_event ''b'' 2, demo_event ''a'' 1] demo_validated)))"
  using Normalize_contained [OF demo_normalize demo_validated_roots(1,3)] by blast

text \<open>
  C38: \<open>Normalize\<close> accepts exactly the batches it should: at most 1000 events, every
  event valid and of the observed task, no event id twice, and every path accepted by the
  scope check relative to the event's own working directory or else the first root.
\<close>

theorem Normalize_accepts_iff:
  assumes "vs_roots v \<noteq> []"
  shows "is_ok (Normalize os batch v) \<longleftrightarrow>
    length batch \<le> 1000 \<and> distinct (map e_event_id batch)
    \<and> (\<forall>e \<in> set batch. event_ok e \<and> e_task_id e = vs_task_id v \<and> event_paths_ok os v e)"
proof -
  have "is_ok (and_then m (\<lambda>ss. Inr (sort_by summary_less ss))) \<longleftrightarrow> is_ok m" for m :: "summary list res"
    by (cases m) auto
  then show ?thesis
    using normalize_loop_ok [OF assms, of os 0 "[]" batch]
    by (auto simp: Normalize_def MaxBatchEvents_def)
qed

theorem Normalize_accepts_iff_witness:
  "\<not> is_ok (Normalize demo_os [demo_event ''a'' 1, demo_event ''a'' 2] demo_validated)"
  by (subst Normalize_accepts_iff) (simp_all add: demo_validated_def demo_event_def)

text \<open>
  C39: The existing-prefix resolution terminates for every path, and finds the longest existing
  ancestor: if the ancestor at components \<open>bs\<close> exists, really lies at \<open>ds\<close>, and
  every longer ancestor is missing, the result is \<open>ds\<close> followed by the missing
  components.
\<close>

theorem resolveExistingPrefix_longest:
  assumes "list_all proper (bs @ us)" "us \<noteq> [] \<longrightarrow> list_all proper ds"
    "lstat os (abs_path bs) = Inr info" "eval_symlinks os (abs_path bs) = Inr (abs_path ds)"
    "\<forall>k. length bs < k \<and> k \<le> length (bs @ us) \<longrightarrow>
       (\<exists>e. lstat os (abs_path (take k (bs @ us))) = Inl e \<and> err_is ErrNotExist e)"
  shows "resolveExistingPrefix os (abs_path (bs @ us)) = Inr (abs_path (ds @ us))"
  unfolding resolveExistingPrefix_def
  by (rule resolve_probe_climbs [OF assms(1-4)]) (use assms(5) in auto)

theorem resolveExistingPrefix_longest_witness:
  "resolveExistingPrefix (demo_os\<lparr>lstat := \<lambda>p. if p = ''/x'' then Inr demo_dir_info else Inl ErrNotExist,
      eval_symlinks := \<lambda>_. Inr ''/real/dir''\<rparr>) (abs_path ([''x''] @ [''y'', ''z'']))
    = Inr (abs_path ([''real'', ''dir''] @ [''y'', ''z'']))"
proof (rule resolveExistingPrefix_longest [where info = demo_dir_info])
  let ?os = "demo_os\<lparr>lstat := \<lambda>p. if p = ''/x'' then Inr demo_dir_info else Inl ErrNotExist,
      eval_symlinks := \<lambda>_. Inr ''/real/dir''\<rparr>"
  show "\<forall>k. length [''x''] < k \<and> k \<le> length ([''x''] @ [''y'', ''z'']) \<longrightarrow>
     (\<exists>e. lstat ?os (abs_path (take k ([''x''] @ [''y'', ''z'']))) = Inl e \<and> err_is ErrNotExist e)"
  proof (intro allI impI)
    fix k :: nat assume "length [''x''] < k \<and> k \<le> length ([''x''] @ [''y'', ''z''])"
    then have "k = 2 \<or> k = 3" by auto
    then show "\<exists>e. lstat ?os (abs_path (take k ([''x''] @ [''y'', ''z'']))) = Inl e \<and> err_is ErrNotExist e"
      by (auto simp: abs_path_def)
  qed
qed (simp_all add: proper_def abs_path_def)

end
