(* ===== verification/Correlate.thy ===== *)
theory Correlate
  imports Fs_Observe Process_Observe Event_Normalize
begin

text \<open>
  Package \<open>correlate\<close> (\<open>correlate.go\<close>): joining the file-system difference,
  the attributed processes with their ports, and the normalised events into one validated
  report. SHA-256 is a parameter.
\<close>

section \<open>Model\<close>

record correlate_input =
  in_task_id :: string
  in_now :: gtime
  in_diff :: fs_diff
  in_events :: "summary list"
  in_processes :: "evidence list"
  in_process_limitations :: "limitation list"

fun attribution_string :: "attribution \<Rightarrow> string" where
  "attribution_string AttributionEvent = ''event''"
| "attribution_string AttributionReceipt = ''receipt''"
| "attribution_string AttributionWorkingDirectory = ''working_directory''"
| "attribution_string AttributionOpenPath = ''open_candidate_path''"
| "attribution_string AttributionDescendant = ''descendant''"

fun processEvidenceLevel :: "attribution \<Rightarrow> evidence_level" where
  "processEvidenceLevel AttributionReceipt = EvidenceReceiptBound"
| "processEvidenceLevel AttributionEvent = EvidenceEventBound"
| "processEvidenceLevel _ = EvidenceInferred"

fun candidateKindRank :: "candidate_kind \<Rightarrow> int" where
  "candidateKindRank CandidateFile = 0"
| "candidateKindRank CandidateDirectory = 1"
| "candidateKindRank CandidateProcess = 2"
| "candidateKindRank CandidatePort = 3"
| "candidateKindRank _ = 4"

definition identity_string :: "process_identity \<Rightarrow> string" where
  "identity_string i = itoa (pi_pid i) @ '':'' @ rfc3339nano (pi_created_at i)"

definition port_candidate ::
    "(string \<Rightarrow> string) \<Rightarrow> process_identity \<Rightarrow> evidence_level \<Rightarrow> port \<Rightarrow> candidate" where
  "port_candidate sha identity level p =
     (let text = identity_string identity;
          digest = sha (''port'' @ [CHR 0x00] @ text @ [CHR 0x00] @ po_protocol p @ [CHR 0x00]
                        @ po_address p @ [CHR 0x00] @ itoa (po_number p))
      in \<lparr>c_id = ''port-'' @ to_hex (take 12 digest), c_kind = CandidatePort, c_path = [],
          c_object_identity = text @ '':'' @ po_address p @ '':'' @ itoa (po_number p),
          c_process = Some identity, c_parent_pid = 0, c_port = Some p, c_size_bytes = 0,
          c_evidence_level = level, c_current_status = StatusActiveReference,
          c_reason = ''listening port owned by attributed process'', c_recommendation = ''review'',
          c_event_ids = [], c_receipt_ids = [], c_limitations = [], c_conflicts = []\<rparr>)"

definition processCandidates :: "(string \<Rightarrow> string) \<Rightarrow> evidence \<Rightarrow> candidate list" where
  "processCandidates sha ev =
     (let identity = (ev_identity ev)\<lparr>pi_created_at := time_utc (pi_created_at (ev_identity ev))\<rparr>;
          level = processEvidenceLevel (ev_reason ev);
          text = identity_string identity
      in \<lparr>c_id = ''process-'' @ to_hex (take 12 (sha (''process'' @ [CHR 0x00] @ text))),
          c_kind = CandidateProcess, c_path = [], c_object_identity = text,
          c_process = Some identity, c_parent_pid = ev_parent_pid ev, c_port = None,
          c_size_bytes = 0, c_evidence_level = level, c_current_status = StatusActiveReference,
          c_reason = attribution_string (ev_reason ev), c_recommendation = ''review'',
          c_event_ids = [], c_receipt_ids = [], c_limitations = [], c_conflicts = []\<rparr>
         # map (port_candidate sha identity level) (ev_ports ev))"

definition eventMatchesCandidate :: "summary \<Rightarrow> candidate \<Rightarrow> bool" where
  "eventMatchesCandidate s c \<longleftrightarrow>
     (if c_path c = [] then False
      else \<exists>output \<in> set (su_declared_outputs s). path_clean output = path_clean (c_path c))"

fun evidence_rank :: "evidence_level \<Rightarrow> int" where
  "evidence_rank EvidenceUnattributed = 0"
| "evidence_rank EvidenceInferred = 1"
| "evidence_rank EvidenceEventBound = 2"
| "evidence_rank EvidenceReceiptBound = 3"
| "evidence_rank EvidenceBaselineObserved = 4"
| "evidence_rank _ = 0"

definition strongerEvidence :: "evidence_level \<Rightarrow> evidence_level \<Rightarrow> evidence_level" where
  "strongerEvidence current candidate =
     (if evidence_rank candidate > evidence_rank current then candidate else current)"

definition appendUnique :: "string list \<Rightarrow> string \<Rightarrow> string list" where
  "appendUnique values value = (if value \<in> set values then values else values @ [value])"

definition cleanup_conflict :: string where
  "cleanup_conflict = ''cleanup was attempted but the object is still present or its current state is uncertain''"

definition bind_event :: "summary \<Rightarrow> candidate \<Rightarrow> candidate" where
  "bind_event s c =
     (if \<not> eventMatchesCandidate s c then c
      else let bound = (if su_receipt_id s \<noteq> [] then EvidenceReceiptBound else EvidenceEventBound);
               c1 = c\<lparr>c_evidence_level := strongerEvidence (c_evidence_level c) bound\<rparr>;
               c2 = (if su_event_id s \<noteq> []
                     then c1\<lparr>c_event_ids := appendUnique (c_event_ids c1) (su_event_id s)\<rparr> else c1);
               c3 = (if su_receipt_id s \<noteq> []
                     then c2\<lparr>c_receipt_ids := appendUnique (c_receipt_ids c2) (su_receipt_id s)\<rparr> else c2)
           in if su_type s = EventCleanupAttempted \<and> c_current_status c3 \<noteq> StatusNoLongerPresent
              then c3\<lparr>c_conflicts := appendUnique (c_conflicts c3) cleanup_conflict\<rparr> else c3)"

definition bind_candidate :: "summary list \<Rightarrow> candidate \<Rightarrow> candidate" where
  "bind_candidate events c =
     (let b = fold bind_event events c
      in b\<lparr>c_recommendation := ''review'', c_event_ids := sort_strings (c_event_ids b),
           c_receipt_ids := sort_strings (c_receipt_ids b)\<rparr>)"

definition kind_less :: "candidate \<Rightarrow> candidate \<Rightarrow> bool" where
  "kind_less a b \<longleftrightarrow>
     (if candidateKindRank (c_kind a) = candidateKindRank (c_kind b) then c_id a < c_id b
      else candidateKindRank (c_kind a) < candidateKindRank (c_kind b))"

definition BuildReport :: "(string \<Rightarrow> string) \<Rightarrow> gtime \<Rightarrow> correlate_input \<Rightarrow> report res" where
  "BuildReport sha clock input =
     (if in_task_id input = [] then Inl (errors_new ''task_id is required'')
      else
        let now = (if is_zero (in_now input) then time_utc clock else time_utc (in_now input));
            raw = df_candidates (in_diff input)
                  @ concat (map (processCandidates sha) (in_processes input));
            candidates = sort_by kind_less (map (bind_candidate (in_events input)) raw);
            limitations = df_limitations (in_diff input)
              @ map (\<lambda>l. li_operation l @ '': '' @ li_detail l) (in_process_limitations input);
            status = (if limitations \<noteq> [] then ReportPartialEvidence
                      else if candidates \<noteq> [] then ReportReviewRequired else ReportNoCandidates);
            digest = sha (in_task_id input @ [CHR 0x00] @ rfc3339nano now);
            r = \<lparr>r_schema_version = ReportSchemaVersion,
                 r_report_id = ''report-'' @ to_hex (take 12 digest), r_task_id = in_task_id input,
                 r_observation_mode = ObservationOther [], r_status = status, r_created_at = now,
                 r_verified_at = None, r_candidates = candidates, r_limitations = limitations\<rparr>
        in and_then (validate_report r) (\<lambda>_. Inr r))"

section \<open>What binding does to a candidate\<close>

definition bound_level :: "summary \<Rightarrow> evidence_level" where
  "bound_level s = (if su_receipt_id s \<noteq> [] then EvidenceReceiptBound else EvidenceEventBound)"

text \<open>
  The candidate \<open>b\<close> is \<open>c\<close> with the provenance of \<open>es\<close>: same object, the
  ids of exactly the matching events and receipts, the strongest level among its own and the
  matching ones, and the conflict mark exactly after a matching cleanup attempt.
\<close>

definition same_object :: "candidate \<Rightarrow> candidate \<Rightarrow> bool" where
  "same_object c b \<longleftrightarrow>
     c_id b = c_id c \<and> c_kind b = c_kind c \<and> c_path b = c_path c
     \<and> c_object_identity b = c_object_identity c \<and> c_process b = c_process c
     \<and> c_parent_pid b = c_parent_pid c \<and> c_port b = c_port c \<and> c_size_bytes b = c_size_bytes c
     \<and> c_current_status b = c_current_status c \<and> c_reason b = c_reason c
     \<and> c_limitations b = c_limitations c"

definition matching :: "summary list \<Rightarrow> candidate \<Rightarrow> summary set" where
  "matching es c = {s \<in> set es. eventMatchesCandidate s c}"

definition bound_to :: "summary list \<Rightarrow> candidate \<Rightarrow> candidate \<Rightarrow> bool" where
  "bound_to es c b \<longleftrightarrow>
     same_object c b
     \<and> set (c_event_ids b) = set (c_event_ids c) \<union> (su_event_id ` matching es c - {[]})
     \<and> set (c_receipt_ids b) = set (c_receipt_ids c) \<union> (su_receipt_id ` matching es c - {[]})
     \<and> evidence_rank (c_evidence_level b) =
         Max (insert (evidence_rank (c_evidence_level c))
               ((\<lambda>s. evidence_rank (bound_level s)) ` matching es c))
     \<and> c_evidence_level b \<in> insert (c_evidence_level c) (bound_level ` matching es c)
     \<and> set (c_conflicts b) = set (c_conflicts c) \<union>
         (if (\<exists>s \<in> matching es c. su_type s = EventCleanupAttempted)
             \<and> c_current_status c \<noteq> StatusNoLongerPresent then {cleanup_conflict} else {})"

lemma set_appendUnique [simp]: "set (appendUnique xs x) = insert x (set xs)"
  by (auto simp: appendUnique_def)

lemma distinct_appendUnique [simp]: "distinct (appendUnique xs x) \<longleftrightarrow> distinct xs"
  by (auto simp: appendUnique_def)

lemma length_appendUnique: "length (appendUnique xs x) \<le> Suc (length xs)"
  by (auto simp: appendUnique_def)

lemma finite_matching [simp]: "finite (matching es c)"
  by (simp add: matching_def)

lemma matching_Nil [simp]: "matching [] c = {}"
  by (simp add: matching_def)

lemma matching_snoc:
  "matching (es @ [s]) c = (if eventMatchesCandidate s c then insert s (matching es c) else matching es c)"
  by (auto simp: matching_def)

lemma eventMatches_same: "same_object c b \<Longrightarrow> eventMatchesCandidate s b = eventMatchesCandidate s c"
  by (simp add: same_object_def eventMatchesCandidate_def)

lemma strongerEvidence_rank:
  "evidence_rank (strongerEvidence a b) = max (evidence_rank a) (evidence_rank b)"
  "strongerEvidence a b \<in> {a, b}"
  by (auto simp: strongerEvidence_def)

text \<open>One matching event, field by field.\<close>

lemma bind_event_fields:
  "same_object c (bind_event s c)"
  "\<not> eventMatchesCandidate s c \<Longrightarrow> bind_event s c = c"
  "eventMatchesCandidate s c \<Longrightarrow>
     set (c_event_ids (bind_event s c)) = set (c_event_ids c) \<union> ({su_event_id s} - {[]})"
  "eventMatchesCandidate s c \<Longrightarrow>
     set (c_receipt_ids (bind_event s c)) = set (c_receipt_ids c) \<union> ({su_receipt_id s} - {[]})"
  "eventMatchesCandidate s c \<Longrightarrow>
     c_evidence_level (bind_event s c) = strongerEvidence (c_evidence_level c) (bound_level s)"
  "eventMatchesCandidate s c \<Longrightarrow>
     set (c_conflicts (bind_event s c)) = set (c_conflicts c) \<union>
       (if su_type s = EventCleanupAttempted \<and> c_current_status c \<noteq> StatusNoLongerPresent
        then {cleanup_conflict} else {})"
  by (auto simp: bind_event_def same_object_def bound_level_def Let_def)

lemma bind_events_bound: "bound_to es c (fold bind_event es c)"
proof (induction es rule: rev_induct)
  case Nil
  then show ?case by (simp add: bound_to_def same_object_def)
next
  case (snoc s es)
  let ?b = "fold bind_event es c"
  have so: "same_object c ?b" using snoc by (simp add: bound_to_def)
  then have so': "same_object c (bind_event s ?b)"
    using bind_event_fields(1) [of ?b s] by (simp add: same_object_def)
  have st: "c_current_status ?b = c_current_status c" using so by (simp add: same_object_def)
  show ?case
  proof (cases "eventMatchesCandidate s c")
    case False
    with snoc show ?thesis
      using bind_event_fields(2) [of s ?b] eventMatches_same [OF so] by (simp add: bound_to_def matching_snoc)
  next
    case True
    then have m: "eventMatchesCandidate s ?b" using eventMatches_same [OF so] by simp
    have "evidence_rank (c_evidence_level (bind_event s ?b)) =
        Max (insert (evidence_rank (c_evidence_level c))
          ((\<lambda>s. evidence_rank (bound_level s)) ` matching (es @ [s]) c))"
      using snoc True
      by (simp add: bind_event_fields(5) [OF m] strongerEvidence_rank(1) bound_to_def matching_snoc
          insert_commute [of "evidence_rank (c_evidence_level c)"] max.commute)
    moreover have "c_evidence_level (bind_event s ?b)
        \<in> insert (c_evidence_level c) (bound_level ` matching (es @ [s]) c)"
      using snoc True strongerEvidence_rank(2) [of "c_evidence_level ?b" "bound_level s"]
      by (auto simp: bind_event_fields(5) [OF m] bound_to_def matching_snoc)
    ultimately show ?thesis
      using snoc True so' st
      by (auto simp: bound_to_def matching_snoc bind_event_fields(3,4,6) [OF m])
  qed
qed

lemma bind_candidate_bound:
  "bound_to es c (bind_candidate es c)" "c_recommendation (bind_candidate es c) = ''review''"
  "sorted (c_event_ids (bind_candidate es c))" "sorted (c_receipt_ids (bind_candidate es c))"
  using bind_events_bound [of es c]
  by (simp_all add: bind_candidate_def Let_def bound_to_def same_object_def sorted_sort_strings)

section \<open>The report\<close>

definition raw_candidates :: "(string \<Rightarrow> string) \<Rightarrow> correlate_input \<Rightarrow> candidate list" where
  "raw_candidates sha i =
     df_candidates (in_diff i) @ concat (map (processCandidates sha) (in_processes i))"

definition report_limitations :: "correlate_input \<Rightarrow> string list" where
  "report_limitations i = df_limitations (in_diff i)
     @ map (\<lambda>l. li_operation l @ '': '' @ li_detail l) (in_process_limitations i)"

definition report_of :: "(string \<Rightarrow> string) \<Rightarrow> gtime \<Rightarrow> correlate_input \<Rightarrow> report" where
  "report_of sha clock i =
     (let now = (if is_zero (in_now i) then time_utc clock else time_utc (in_now i));
          cs = sort_by kind_less (map (bind_candidate (in_events i)) (raw_candidates sha i))
      in \<lparr>r_schema_version = ReportSchemaVersion,
          r_report_id = ''report-'' @ to_hex (take 12 (sha (in_task_id i @ [CHR 0x00] @ rfc3339nano now))),
          r_task_id = in_task_id i, r_observation_mode = ObservationOther [],
          r_status = (if report_limitations i \<noteq> [] then ReportPartialEvidence
                      else if cs \<noteq> [] then ReportReviewRequired else ReportNoCandidates),
          r_created_at = now, r_verified_at = None, r_candidates = cs,
          r_limitations = report_limitations i\<rparr>)"

lemma BuildReport_eq:
  "BuildReport sha clock i =
     (if in_task_id i = [] then Inl (errors_new ''task_id is required'')
      else and_then (validate_report (report_of sha clock i)) (\<lambda>_. Inr (report_of sha clock i)))"
  by (simp add: BuildReport_def report_of_def raw_candidates_def report_limitations_def Let_def)

interpretation by_kind: comparator kind_less
  unfolding kind_less_def by (rule comparator_lex)

lemma BuildReport_Inr:
  assumes "BuildReport sha clock i = Inr r"
  shows "r = report_of sha clock i" "list_all candidate_ok (r_candidates r)"
    "validate_report r = Inr ()"
  using assms by (auto simp: BuildReport_eq res_simps validate_report_iff split: if_splits)

lemma report_candidate:
  assumes "BuildReport sha clock i = Inr r" "b \<in> set (r_candidates r)"
  shows "\<exists>c \<in> set (raw_candidates sha i). b = bind_candidate (in_events i) c"
  using assms(2) by (auto simp: BuildReport_Inr(1) [OF assms(1)] report_of_def Let_def)

text \<open>Inputs the observers produce: what totality of the report needs.\<close>

definition evidence_ok :: "evidence \<Rightarrow> bool" where
  "evidence_ok ev \<longleftrightarrow>
     0 < ev_pid ev \<and> t_ns (pi_created_at (ev_identity ev)) \<noteq> 0 \<and> 0 \<le> ev_parent_pid ev
     \<and> (\<forall>p \<in> set (ev_ports ev). po_protocol p = ''tcp'' \<and> po_address p \<noteq> [] \<and> 0 < po_number p
          \<and> po_number p \<le> 65535)"

definition fresh_candidate :: "candidate \<Rightarrow> bool" where
  "fresh_candidate c \<longleftrightarrow> candidate_ok c \<and> c_event_ids c = [] \<and> c_receipt_ids c = []"

definition input_ok :: "(string \<Rightarrow> string) \<Rightarrow> gtime \<Rightarrow> correlate_input \<Rightarrow> bool" where
  "input_ok sha clock i \<longleftrightarrow>
     validID (in_task_id i) \<and> t_ns clock \<noteq> 0
     \<and> (\<forall>c \<in> set (df_candidates (in_diff i)). fresh_candidate c)
     \<and> (\<forall>ev \<in> set (in_processes i). evidence_ok ev)
     \<and> (\<forall>s \<in> set (in_events i). validID (su_event_id s) \<and> length (su_receipt_id s) \<le> 256)
     \<and> (\<forall>c \<in> set (df_candidates (in_diff i)).
          card (su_event_id ` matching (in_events i) c) \<le> 128
          \<and> card (su_receipt_id ` matching (in_events i) c - {[]}) \<le> 128)"

lemma validID_hex: "length pre \<le> 16 \<Longrightarrow> pre \<noteq> [] \<Longrightarrow> validID (pre @ to_hex (take 12 s))"
  by (auto simp: validID_def)

lemma processCandidates_fresh:
  assumes "evidence_ok ev" "c \<in> set (processCandidates sha ev)"
  shows "fresh_candidate c" "c_path c = []"
  using assms validID_hex [of "''process-''"] validID_hex [of "''port-''"]
  by (cases "ev_reason ev";
      auto simp: processCandidates_def port_candidate_def Let_def fresh_candidate_def candidate_ok_def
        evidence_ok_def time_utc_def)+

lemma bind_events_distinct:
  "(distinct (c_event_ids c) \<longrightarrow> distinct (c_event_ids (fold bind_event es c)))
   \<and> (distinct (c_receipt_ids c) \<longrightarrow> distinct (c_receipt_ids (fold bind_event es c)))"
proof (induction es arbitrary: c)
  case (Cons s es)
  have "distinct (c_event_ids c) \<Longrightarrow> distinct (c_event_ids (bind_event s c))"
    "distinct (c_receipt_ids c) \<Longrightarrow> distinct (c_receipt_ids (bind_event s c))"
    by (auto simp: bind_event_def Let_def)
  with Cons.IH [of "bind_event s c"] show ?case by auto
qed simp

lemma bind_candidate_ids:
  assumes "c_event_ids c = []" "c_receipt_ids c = []"
  shows "length (c_event_ids (bind_candidate es c)) = card (su_event_id ` matching es c - {[]})"
    "length (c_receipt_ids (bind_candidate es c)) = card (su_receipt_id ` matching es c - {[]})"
proof -
  let ?b = "bind_candidate es c"
  have d: "distinct (c_event_ids ?b)" "distinct (c_receipt_ids ?b)"
    using bind_events_distinct [of c es] assms by (simp_all add: bind_candidate_def Let_def)
  have "set (c_event_ids ?b) = su_event_id ` matching es c - {[]}"
    "set (c_receipt_ids ?b) = su_receipt_id ` matching es c - {[]}"
    using bind_candidate_bound(1) [of es c] assms by (simp_all add: bound_to_def)
  with d show "length (c_event_ids ?b) = card (su_event_id ` matching es c - {[]})"
    "length (c_receipt_ids ?b) = card (su_receipt_id ` matching es c - {[]})"
    by (metis distinct_card)+
qed

lemma bind_candidate_ok:
  assumes "fresh_candidate c" "\<forall>s \<in> set es. validID (su_event_id s) \<and> length (su_receipt_id s) \<le> 256"
    "card (su_event_id ` matching es c) \<le> 128" "card (su_receipt_id ` matching es c - {[]}) \<le> 128"
  shows "candidate_ok (bind_candidate es c)"
proof -
  let ?b = "bind_candidate es c"
  note bnd = bind_candidate_bound [of es c]
  have so: "same_object c ?b" using bnd(1) by (simp add: bound_to_def)
  have lvl: "validEvidenceLevel (c_evidence_level ?b)"
    using bnd(1) assms(1)
    by (auto simp: bound_to_def bound_level_def fresh_candidate_def candidate_ok_def split: if_splits)
  have "card (su_event_id ` matching es c - {[]}) \<le> card (su_event_id ` matching es c)"
    by (intro card_mono) auto
  then have len: "length (c_event_ids ?b) \<le> 128" "length (c_receipt_ids ?b) \<le> 128"
    using bind_candidate_ids [of c es] assms by (simp_all add: fresh_candidate_def)
  have "\<forall>i \<in> set (c_event_ids ?b) \<union> set (c_receipt_ids ?b). validID i"
    using bnd(1) assms(1,2) by (auto simp: bound_to_def fresh_candidate_def matching_def validID_def)
  with so lvl len bnd(2) assms(1) show ?thesis
    by (auto simp: candidate_ok_def same_object_def fresh_candidate_def)
qed

lemma matching_no_path: "c_path c = [] \<Longrightarrow> matching es c = {}"
  by (simp add: matching_def eventMatchesCandidate_def)

lemma report_of_valid:
  assumes "input_ok sha clock i"
  shows "validate_report (report_of sha clock i) = Inr ()"
proof -
  have "candidate_ok (bind_candidate (in_events i) c)" if c: "c \<in> set (raw_candidates sha i)" for c
  proof (rule bind_candidate_ok)
    have "(c \<in> set (df_candidates (in_diff i)) \<and> fresh_candidate c) \<or> (fresh_candidate c \<and> c_path c = [])"
      using c assms processCandidates_fresh by (fastforce simp: raw_candidates_def input_ok_def)
    then show "fresh_candidate c" "card (su_event_id ` matching (in_events i) c) \<le> 128"
      "card (su_receipt_id ` matching (in_events i) c - {[]}) \<le> 128"
      using assms by (auto simp: input_ok_def matching_no_path)
    show "\<forall>s \<in> set (in_events i). validID (su_event_id s) \<and> length (su_receipt_id s) \<le> 256"
      using assms by (simp add: input_ok_def)
  qed
  then show ?thesis
    using assms validID_hex [of "''report-''"]
    by (auto simp: validate_report_iff report_of_def Let_def list_all_iff input_ok_def is_zero_def time_utc_def)
qed

section \<open>Properties\<close>

definition demo_summary :: summary where
  "demo_summary = \<lparr>su_event_id = ''e1'', su_type = EventCleanupAttempted, su_timestamp = time_of_unix 0,
     su_working_dir = ''/home/dev/repo'', su_command_fingerprint = [], su_exit_code = None,
     su_process = None, su_declared_outputs = [''/home/dev/repo/a.o''], su_receipt_id = ''r1''\<rparr>"

definition demo_input :: correlate_input where
  "demo_input = \<lparr>in_task_id = ''t'', in_now = time_of_unix 0,
     in_diff = \<lparr>df_candidates = [candidateFor (\<lambda>s. s)
         (make_entry 0 ''a.o'' ''/home/dev/repo/a.o'' demo_dir_info ''1:2:3'') StatusPresent ''created''],
       df_removed = [], df_limitations = []\<rparr>,
     in_events = [demo_summary],
     in_processes = [\<lparr>ev_identity = \<lparr>pi_pid = 7, pi_created_at = time_of_unix 0\<rparr>, ev_parent_pid = 1,
        ev_reason = AttributionDescendant,
        ev_ports = [\<lparr>po_protocol = ''tcp'', po_address = ''::1'', po_number = 8080\<rparr>]\<rparr>],
     in_process_limitations = []\<rparr>"

lemma demo_input_ok: "input_ok (\<lambda>s. s) (time_of_unix 0) demo_input"
proof -
  let ?c = "candidateFor (\<lambda>s. s)
         (make_entry 0 ''a.o'' ''/home/dev/repo/a.o'' demo_dir_info ''1:2:3'') StatusPresent ''created''"
  have "card (su_event_id ` matching [demo_summary] ?c) \<le> card (su_event_id ` {demo_summary})"
    "card (su_receipt_id ` matching [demo_summary] ?c - {[]}) \<le> card (su_receipt_id ` {demo_summary})"
    by (intro card_mono; auto simp: matching_def)+
  then have "card (su_event_id ` matching [demo_summary] ?c) \<le> 128"
    "card (su_receipt_id ` matching [demo_summary] ?c - {[]}) \<le> 128" by simp_all
  moreover have "candidate_ok ?c \<and> c_event_ids ?c = [] \<and> c_receipt_ids ?c = []"
    by (simp add: candidateFor_def candidate_ok_def Let_def make_entry_def demo_dir_info_def validID_def)
  ultimately show ?thesis
    by (simp add: input_ok_def demo_input_def fresh_candidate_def evidence_ok_def demo_summary_def
        validID_def time_of_unix_def unix_epoch_def second_ns_def)
qed

text \<open>
  C23: A report BuildReport returns is faithful to its inputs: it holds, ordered by kind and then
  id, exactly one valid candidate per observed file-system change, attributed process and
  listening port; each is the observed object with the ids of exactly the matching events and
  receipts, a level that is the strongest of its own and the matching ones (never weakened),
  a conflict mark exactly when a matching event attempted a cleanup, and the recommendation to
  review. The status says partial evidence exactly when there are limitations, otherwise
  whether there is anything to review.
\<close>

theorem BuildReport_faithful:
  assumes "BuildReport sha clock i = Inr r"
  shows "(\<exists>bs. mset bs = mset (r_candidates r)
      \<and> list_all2 (\<lambda>c b. bound_to (in_events i) c b \<and> c_recommendation b = ''review'' \<and> candidate_ok b)
          (raw_candidates sha i) bs)
    \<and> sorted_wrt (\<lambda>a b. \<not> kind_less b a) (r_candidates r)
    \<and> r_task_id r = in_task_id i \<and> r_limitations r = report_limitations i
    \<and> (r_status r = ReportPartialEvidence \<longleftrightarrow> report_limitations i \<noteq> [])
    \<and> (r_status r = ReportNoCandidates \<longleftrightarrow> report_limitations i = [] \<and> raw_candidates sha i = [])
    \<and> (r_status r = ReportReviewRequired \<longleftrightarrow> report_limitations i = [] \<and> raw_candidates sha i \<noteq> [])"
proof -
  let ?bs = "map (bind_candidate (in_events i)) (raw_candidates sha i)"
  note r = BuildReport_Inr [OF assms]
  have cs: "r_candidates r = sort_by kind_less ?bs" by (simp add: r(1) report_of_def Let_def)
  then have "\<forall>b \<in> set ?bs. candidate_ok b" using r(2) by (simp add: list_all_iff)
  then have "list_all2 (\<lambda>c b. bound_to (in_events i) c b \<and> c_recommendation b = ''review'' \<and> candidate_ok b)
          (raw_candidates sha i) ?bs"
    by (simp add: list_all2_map2 list.rel_map bind_candidate_bound list_all2_same)
  moreover have "mset ?bs = mset (r_candidates r)" by (simp add: cs)
  ultimately have "\<exists>bs. mset bs = mset (r_candidates r)
      \<and> list_all2 (\<lambda>c b. bound_to (in_events i) c b \<and> c_recommendation b = ''review'' \<and> candidate_ok b)
          (raw_candidates sha i) bs" by blast
  moreover have "sorted_wrt (\<lambda>a b. \<not> kind_less b a) (r_candidates r)"
    unfolding cs by (rule by_kind.sort_by_sorted)
  ultimately show ?thesis by (simp add: r(1) report_of_def Let_def)
qed

text \<open>
  C37: The report is always produced when its inputs come from the observers in good shape: a
  bounded task id, fresh valid file-system candidates, processes with real identities, and at
  most 128 distinct events and receipts per candidate.
\<close>

theorem BuildReport_total:
  assumes "input_ok sha clock i"
  shows "BuildReport sha clock i = Inr (report_of sha clock i)"
  using report_of_valid [OF assms] assms by (auto simp: BuildReport_eq input_ok_def validID_def)

theorem BuildReport_total_witness:
  "BuildReport (\<lambda>s. s) (time_of_unix 0) demo_input = Inr (report_of (\<lambda>s. s) (time_of_unix 0) demo_input)"
  by (rule BuildReport_total [OF demo_input_ok])

lemma demo_report: "BuildReport (\<lambda>s. s) (time_of_unix 0) demo_input = Inr (report_of (\<lambda>s. s) (time_of_unix 0) demo_input)"
  using report_of_valid [OF demo_input_ok] by (simp add: BuildReport_eq demo_input_def)

theorem BuildReport_faithful_witness:
  "r_status (report_of (\<lambda>s. s) (time_of_unix 0) demo_input) = ReportReviewRequired"
  using BuildReport_faithful [OF demo_report]
  by (simp add: report_limitations_def raw_candidates_def demo_input_def)

text \<open>
  The provenance cap makes a whole report fail: once more than 128 events declare one observed
  path, no report can be built for the task.
\<close>

theorem report_blocked_by_many_events:
  assumes "c \<in> set (df_candidates (in_diff i))" "c_event_ids c = []" "c_receipt_ids c = []"
    "card (su_event_id ` matching (in_events i) c - {[]}) > 128"
  shows "\<not> is_ok (BuildReport sha clock i)"
proof
  assume "is_ok (BuildReport sha clock i)"
  then obtain r where r: "BuildReport sha clock i = Inr r" by (rule is_okE)
  have "bind_candidate (in_events i) c \<in> set (r_candidates r)"
    using assms(1) by (simp add: BuildReport_Inr(1) [OF r] report_of_def Let_def raw_candidates_def)
  then have "length (c_event_ids (bind_candidate (in_events i) c)) \<le> 128"
    using BuildReport_Inr(2) [OF r] by (auto simp: list_all_iff candidate_ok_def)
  with bind_candidate_ids(1) [OF assms(2,3)] assms(4) show False by simp
qed

end
