(* ===== verification/Grouping.thy ===== *)
theory Grouping
  imports Contract
begin

text \<open>
  Package \<open>group\<close> (\<open>group.go\<close>): folding the candidates of a report into groups
  under their directories, and serving the groups page by page.
\<close>

section \<open>Model\<close>

definition descendant :: "string \<Rightarrow> string \<Rightarrow> bool" where
  "descendant parent child \<longleftrightarrow>
     child \<noteq> parent \<and> has_prefix child (trim_suffix parent ''/'' @ ''/'')"

definition path_id_less :: "candidate \<Rightarrow> candidate \<Rightarrow> bool" where
  "path_id_less a b \<longleftrightarrow> (if c_path a = c_path b then c_id a < c_id b else c_path a < c_path b)"

definition group_head :: "candidate \<Rightarrow> candidate_group" where
  "group_head c =
     \<lparr>g_id = c_id c, g_kind = c_kind c, g_path = c_path c, g_evidence_level = c_evidence_level c,
      g_current_status = c_current_status c, g_descendant_count = 0,
      g_aggregate_size_bytes = c_size_bytes c, g_sample_paths = []\<rparr>"

definition absorbs :: "candidate \<Rightarrow> candidate \<Rightarrow> bool" where
  "absorbs c child \<longleftrightarrow>
     descendant (c_path c) (c_path child) \<and> c_evidence_level child = c_evidence_level c
     \<and> c_current_status child = c_current_status c \<and> c_conflicts child = []"

definition add_child :: "candidate_group \<Rightarrow> candidate \<Rightarrow> candidate_group" where
  "add_child g child =
     g\<lparr>g_descendant_count := g_descendant_count g + 1,
       g_aggregate_size_bytes := wrap64 (g_aggregate_size_bytes g + c_size_bytes child),
       g_sample_paths := (if length (g_sample_paths g) < 3
                          then g_sample_paths g @ [c_path child] else g_sample_paths g)\<rparr>"

text \<open>
  The candidates after the current one carry their \<open>used\<close> flag. The inner loop visits
  all of them, flagged or not.
\<close>

type_synonym flagged = "(candidate \<times> bool) list"

fun absorb_children :: "candidate \<Rightarrow> flagged \<Rightarrow> candidate_group \<Rightarrow> candidate_group \<times> flagged" where
  "absorb_children c [] g = (g, [])"
| "absorb_children c ((child, u) # rest) g =
     (if \<not> absorbs c child then
        (let (g', rest') = absorb_children c rest g in (g', (child, u) # rest'))
      else
        (let (g', rest') = absorb_children c rest (add_child g child) in (g', (child, True) # rest')))"

lemma absorb_children_length [simp]: "length (snd (absorb_children c rest g)) = length rest"
  by (induction c rest g rule: absorb_children.induct) (auto split: prod.splits)

definition is_folder :: "candidate \<Rightarrow> bool" where
  "is_folder c \<longleftrightarrow> c_kind c = CandidateDirectory \<and> c_path c \<noteq> []"

function group_loop :: "flagged \<Rightarrow> candidate_group list" where
  "group_loop [] = []"
| "group_loop ((c, used) # rest) =
     (if used then group_loop rest
      else if is_folder c
      then (let r = absorb_children c rest (group_head c) in fst r # group_loop (snd r))
      else group_head c # group_loop rest)"
  by pat_completeness auto
termination
  by (relation "measure length") auto

definition Candidates :: "candidate list \<Rightarrow> candidate_group list" where
  "Candidates input = group_loop (map (\<lambda>c. (c, False)) (sort_by path_id_less input))"

definition Page :: "candidate_group list \<Rightarrow> string \<Rightarrow> int \<Rightarrow> candidate_page res" where
  "Page items cursor limit =
     (if limit < 1 \<or> limit > 100 then Inl (errors_new ''page limit must be between 1 and 100'')
      else and_then
        (if cursor \<noteq> [] then
           (case b64_decode cursor of
              None \<Rightarrow> Inl (errors_new ''invalid page cursor'')
            | Some raw \<Rightarrow>
                (case atoi raw of
                   None \<Rightarrow> Inl (errors_new ''invalid page cursor'')
                 | Some start \<Rightarrow>
                     if start < 0 \<or> start > int (length items)
                     then Inl (errors_new ''invalid page cursor'') else Inr start))
         else Inr 0)
        (\<lambda>start.
          let end = (if start + limit > int (length items) then int (length items) else start + limit)
          in Inr \<lparr>p_items = take (nat end - nat start) (drop (nat start) items),
                  p_total = int (length items),
                  p_next_cursor = (if end < int (length items) then b64_encode (itoa end) else [])\<rparr>))"

section \<open>Descendants and order\<close>

interpretation by_path_id: comparator path_id_less
  unfolding path_id_less_def by (rule comparator_lex)

lemma prefix_le: "prefix (u :: string) v \<Longrightarrow> u \<le> v"
proof -
  assume "prefix u v"
  then obtain zs where "v = u @ zs" by (auto simp: prefix_def)
  then show ?thesis
    by (cases zs) (auto simp: list_le_def list_less_def intro!: lexord_append_rightI)
qed

definition folder_prefix :: "string \<Rightarrow> string" where
  "folder_prefix p = trim_suffix p ''/'' @ ''/''"

lemma descendant_prefix: "descendant p c \<longleftrightarrow> c \<noteq> p \<and> prefix (folder_prefix p) c"
  by (simp add: descendant_def has_prefix_def folder_prefix_def)

lemma trim_slash: "p = trim_suffix p ''/'' \<or> p = folder_prefix p"
  by (auto simp: folder_prefix_def trim_suffix_def has_suffix_def suffix_def)

lemma folder_prefix_bounds: "prefix (trim_suffix p ''/'') p" "prefix p (folder_prefix p)"
  using trim_slash [of p] by (auto simp: folder_prefix_def) (metis prefixI)+

text \<open>Two folders above one path are themselves nested, the earlier in path order outside.\<close>

lemma folders_nested:
  assumes "descendant a d" "descendant b d" "a < b"
  shows "descendant a b"
proof -
  have pre: "prefix (folder_prefix a) d" "prefix (folder_prefix b) d"
    using assms by (simp_all add: descendant_prefix)
  have "\<not> strict_prefix (folder_prefix b) (folder_prefix a)"
  proof
    assume "strict_prefix (folder_prefix b) (folder_prefix a)"
    then have "prefix (folder_prefix b) (trim_suffix a ''/'')"
      by (auto simp: folder_prefix_def [of a] strict_prefix_def)
    then have "prefix (folder_prefix b) a" using folder_prefix_bounds(1) prefix_order.trans by blast
    then have "b \<le> a" using folder_prefix_bounds(2) [of b] prefix_le prefix_order.trans by blast
    with assms(3) show False by simp
  qed
  then consider "folder_prefix a = folder_prefix b" | "strict_prefix (folder_prefix a) (folder_prefix b)"
    using prefix_same_cases [OF pre] by (auto simp: strict_prefix_def)
  then have "prefix (folder_prefix a) b"
  proof cases
    case 1
    then have "trim_suffix a ''/'' = trim_suffix b ''/''" by (simp add: folder_prefix_def)
    with 1 trim_slash [of a] trim_slash [of b] assms(3) show ?thesis
      by (metis (no_types, lifting) folder_prefix_bounds(2) less_le_not_le prefix_le prefix_order.refl)
  next
    case 2
    then have "prefix (folder_prefix a) (trim_suffix b ''/'')"
      by (auto simp: folder_prefix_def [of b] strict_prefix_def)
    then show ?thesis using folder_prefix_bounds(1) prefix_order.trans by blast
  qed
  with assms(3) show ?thesis by (auto simp: descendant_prefix)
qed

section \<open>What a group holds\<close>

lemma absorb_children_flags:
  "snd (absorb_children c rest g) = map (\<lambda>(d, u). (d, u \<or> absorbs c d)) rest"
  by (induction c rest g rule: absorb_children.induct) (auto split: prod.splits)

lemma absorb_children_group:
  "fst (absorb_children c rest g) = fold (\<lambda>d g. add_child g d) (filter (absorbs c) (map fst rest)) g"
  by (induction c rest g rule: absorb_children.induct) (auto split: prod.splits)

lemma add_children_fields:
  "g_id (fold (\<lambda>d g. add_child g d) ds g) = g_id g"
  "g_path (fold (\<lambda>d g. add_child g d) ds g) = g_path g"
  "g_kind (fold (\<lambda>d g. add_child g d) ds g) = g_kind g"
  "g_evidence_level (fold (\<lambda>d g. add_child g d) ds g) = g_evidence_level g"
  "g_current_status (fold (\<lambda>d g. add_child g d) ds g) = g_current_status g"
  "g_descendant_count (fold (\<lambda>d g. add_child g d) ds g) = g_descendant_count g + int (length ds)"
  "length (g_sample_paths g) \<le> 3 \<Longrightarrow>
     g_sample_paths (fold (\<lambda>d g. add_child g d) ds g) = take 3 (g_sample_paths g @ map c_path ds)"
  by (induction ds arbitrary: g) (auto simp: add_child_def take_Cons' le_Suc_eq)

lemma add_children_size:
  "in_i64 (g_aggregate_size_bytes g) \<Longrightarrow>
   g_aggregate_size_bytes (fold (\<lambda>d g. add_child g d) ds g)
     = wrap64 (g_aggregate_size_bytes g + sum_list (map c_size_bytes ds))"
  by (induction ds arbitrary: g) (simp_all add: add_child_def add.assoc)

text \<open>The group a candidate heads, given the candidates after it.\<close>

definition group_of :: "candidate \<Rightarrow> candidate list \<Rightarrow> candidate_group" where
  "group_of c rest =
     (if is_folder c then fold (\<lambda>d g. add_child g d) (filter (absorbs c) rest) (group_head c)
      else group_head c)"

lemma group_loop_Cons:
  "group_loop ((c, used) # rest) =
     (if used then group_loop rest
      else group_of c (map fst rest)
           # group_loop (map (\<lambda>(d, u). (d, u \<or> is_folder c \<and> absorbs c d)) rest))"
  by (auto simp: group_of_def absorb_children_flags absorb_children_group Let_def)

declare group_loop.simps(2) [simp del]

section \<open>The groups as a partition\<close>

text \<open>The loop with the members of each group kept: the head and what it absorbed.\<close>

function group_members :: "flagged \<Rightarrow> (candidate \<times> candidate list) list" where
  "group_members [] = []"
| "group_members ((c, used) # rest) =
     (if used then group_members rest
      else (c, if is_folder c then filter (absorbs c) (map fst rest) else [])
           # group_members (map (\<lambda>(d, u). (d, u \<or> is_folder c \<and> absorbs c d)) rest))"
  by pat_completeness auto
termination
  by (relation "measure length") auto

definition group_with :: "candidate \<times> candidate list \<Rightarrow> candidate_group" where
  "group_with m = fold (\<lambda>d g. add_child g d) (snd m) (group_head (fst m))"

lemma group_loop_members: "group_loop fl = map group_with (group_members fl)"
  by (induction fl rule: group_members.induct)
    (auto simp: group_loop_Cons group_of_def group_with_def)

lemma group_members_absorbed:
  "(c, ds) \<in> set (group_members fl) \<Longrightarrow> \<forall>d \<in> set ds. is_folder c \<and> absorbs c d"
  by (induction fl rule: group_members.induct) (auto split: if_splits)

lemma group_members_cover:
  "(d, False) \<in> set fl \<Longrightarrow> \<exists>(c, ds) \<in> set (group_members fl). d = c \<or> d \<in> set ds"
proof (induction fl rule: group_members.induct)
  case (2 c used rest)
  let ?rest = "map (\<lambda>(d, u). (d, u \<or> is_folder c \<and> absorbs c d)) rest"
  show ?case
  proof (cases "used \<or> (d, False) \<in> set ?rest")
    case True
    show ?thesis
    proof (cases used)
      case True
      with 2 show ?thesis by auto
    next
      case False
      with \<open>used \<or> (d, False) \<in> set ?rest\<close> "2.IH"(2) show ?thesis by auto
    qed
  next
    case False
    have "(d, is_folder c \<and> absorbs c d) \<in> set ?rest" if "(d, False) \<in> set rest"
      using that by force
    then have "d = c \<or> (d, False) \<in> set rest \<and> is_folder c \<and> absorbs c d"
      using False "2.prems" by (cases "is_folder c \<and> absorbs c d") auto
    then have "d = c \<or> d \<in> fst ` set rest \<and> is_folder c \<and> absorbs c d" by force
    with False show ?thesis by auto
  qed
qed simp

text \<open>
  Where folders have distinct paths and no conflicts, nothing is absorbed twice: no folder
  still to be visited absorbs a candidate that is already used.
\<close>

definition fresh_flags :: "flagged \<Rightarrow> bool" where
  "fresh_flags fl \<longleftrightarrow>
     sorted_wrt (\<lambda>p q. \<not> snd p \<and> is_folder (fst p) \<and> snd q \<longrightarrow> \<not> absorbs (fst p) (fst q)) fl"

definition folders_ok :: "candidate list \<Rightarrow> bool" where
  "folders_ok cs \<longleftrightarrow>
     sorted_wrt (\<lambda>c d. is_folder c \<and> is_folder d \<longrightarrow> c_path c < c_path d) cs
     \<and> (\<forall>c \<in> set cs. is_folder c \<longrightarrow> c_conflicts c = [])"

lemma absorbs_nested:
  assumes "absorbs c d" "absorbs x d" "c_path c < c_path x" "c_conflicts x = []"
  shows "absorbs c x"
  using assms folders_nested [of "c_path c" "c_path d" "c_path x"] by (auto simp: absorbs_def)

lemma fresh_flags_step:
  assumes "folders_ok (map fst ((c, False) # rest))" "fresh_flags rest" "is_folder c"
  shows "fresh_flags (map (\<lambda>(d, u). (d, u \<or> is_folder c \<and> absorbs c d)) rest)"
  unfolding fresh_flags_def sorted_wrt_map
proof (rule sorted_wrt_mono_rel [OF _ assms(2) [unfolded fresh_flags_def]], intro impI)
  fix p q
  assume p: "p \<in> set rest" and q: "q \<in> set rest"
    and old: "\<not> snd p \<and> is_folder (fst p) \<and> snd q \<longrightarrow> \<not> absorbs (fst p) (fst q)"
    and new: "\<not> snd (case p of (d, u) \<Rightarrow> (d, u \<or> is_folder c \<and> absorbs c d))
      \<and> is_folder (fst (case p of (d, u) \<Rightarrow> (d, u \<or> is_folder c \<and> absorbs c d)))
      \<and> snd (case q of (d, u) \<Rightarrow> (d, u \<or> is_folder c \<and> absorbs c d))"
  obtain x u d w where xd: "p = (x, u)" "q = (d, w)" by (metis surj_pair)
  have x: "\<not> u" "\<not> absorbs c x" "is_folder x" "w \<or> absorbs c d" using new assms(3) by (auto simp: xd)
  have "c_path c < c_path x" "c_conflicts x = []"
    using assms(1,3) x(3) p by (force simp: folders_ok_def xd)+
  then have "\<not> absorbs x d" using x old absorbs_nested [of c d x] by (auto simp: xd)
  then show "\<not> absorbs (fst (case p of (d, u) \<Rightarrow> (d, u \<or> is_folder c \<and> absorbs c d)))
      (fst (case q of (d, u) \<Rightarrow> (d, u \<or> is_folder c \<and> absorbs c d)))"
    by (simp add: xd)
qed

definition unused :: "flagged \<Rightarrow> candidate list" where
  "unused fl = map fst (filter (\<lambda>p. \<not> snd p) fl)"

lemma unused_step:
  assumes "\<forall>p \<in> set rest. absorbs c (fst p) \<longrightarrow> \<not> snd p"
  shows "mset (unused rest) = mset (filter (absorbs c) (map fst rest))
    + mset (unused (map (\<lambda>(d, u). (d, u \<or> absorbs c d)) rest))"
  using assms by (induction rest) (auto simp: unused_def)

lemma group_members_partition:
  assumes "folders_ok (map fst fl)" "fresh_flags fl"
  shows "mset (concat (map (\<lambda>(c, ds). c # ds) (group_members fl))) = mset (unused fl)"
  using assms
proof (induction fl rule: group_members.induct)
  case (2 c used rest)
  have fr: "fresh_flags rest" and fo: "folders_ok (map fst rest)"
    using "2.prems" by (auto simp: fresh_flags_def folders_ok_def)
  let ?rest = "map (\<lambda>(d, u). (d, u \<or> is_folder c \<and> absorbs c d)) rest"
  have fst_rest: "map fst ?rest = map fst rest" by auto
  show ?case
  proof (cases "used \<or> \<not> is_folder c")
    case True
    then have "\<not> used \<Longrightarrow> ?rest = rest" by (auto intro: map_idI)
    with True 2 fr fo show ?thesis by (auto simp: unused_def)
  next
    case False
    then have f: "fresh_flags ?rest" using fresh_flags_step [of c rest] "2.prems"(1) fr by auto
    have n: "\<forall>p \<in> set rest. absorbs c (fst p) \<longrightarrow> \<not> snd p"
      using "2.prems"(2) False by (auto simp: fresh_flags_def)
    have "mset (concat (map (\<lambda>(c, ds). c # ds) (group_members ?rest))) = mset (unused ?rest)"
      by (rule "2.IH"(2)) (use False fo f in \<open>simp_all only: fst_rest de_Morgan_disj not_False_eq_True\<close>)
    with False unused_step [OF n] show ?thesis by (simp add: unused_def)
  qed
qed (simp add: unused_def)

lemma Candidates_members:
  "Candidates input = map group_with (group_members (map (\<lambda>c. (c, False)) (sort_by path_id_less input)))"
  by (simp add: Candidates_def group_loop_members)

text \<open>Distinct folder paths and no conflict on a folder, in terms of the input.\<close>

definition groupable :: "candidate list \<Rightarrow> bool" where
  "groupable input \<longleftrightarrow>
     distinct (map c_path (filter is_folder input)) \<and> (\<forall>c \<in> set input. is_folder c \<longrightarrow> c_conflicts c = [])"

lemma distinct_map_perm:
  "mset xs = mset ys \<Longrightarrow> distinct (map f xs) \<longleftrightarrow> distinct (map f ys)"
  by (metis mset_map mset_eq_imp_distinct_iff)

lemma sorted_folders:
  "sorted_wrt (\<lambda>a b. \<not> path_id_less b a) xs \<Longrightarrow> distinct (map c_path (filter is_folder xs)) \<Longrightarrow>
     sorted_wrt (\<lambda>c d. is_folder c \<and> is_folder d \<longrightarrow> c_path c < c_path d) xs"
proof (induction xs)
  case (Cons x xs)
  have "c_path x < c_path y" if "y \<in> set xs" "is_folder x" "is_folder y" for y
  proof -
    have "c_path x \<noteq> c_path y" using Cons.prems(2) that by auto
    moreover have "\<not> path_id_less y x" using Cons.prems(1) that by simp
    ultimately show ?thesis by (auto simp: path_id_less_def)
  qed
  with Cons show ?case by (auto split: if_splits)
qed simp

lemma folders_ok_sorted:
  assumes "groupable input" shows "folders_ok (sort_by path_id_less input)"
proof -
  let ?s = "sort_by path_id_less input"
  have "distinct (map c_path (filter is_folder ?s))"
    using assms distinct_map_perm [of "filter is_folder ?s" "filter is_folder input" c_path]
    by (simp add: groupable_def)
  then show ?thesis
    using sorted_folders [OF by_path_id.sort_by_sorted] assms by (simp add: folders_ok_def groupable_def)
qed

lemma Candidates_partition:
  assumes "groupable input"
  shows "mset (concat (map (\<lambda>(c, ds). c # ds)
      (group_members (map (\<lambda>c. (c, False)) (sort_by path_id_less input))))) = mset input"
proof -
  let ?fl = "map (\<lambda>c. (c, False)) (sort_by path_id_less input)"
  have "fresh_flags ?fl" by (simp add: fresh_flags_def sorted_wrt_map)
  moreover have "folders_ok (map fst ?fl)" using folders_ok_sorted [OF assms] by (simp add: comp_def)
  ultimately have "mset (concat (map (\<lambda>(c, ds). c # ds) (group_members ?fl))) = mset (unused ?fl)"
    by (intro group_members_partition)
  then show ?thesis by (simp add: unused_def filter_map comp_def)
qed

lemma group_with_size:
  assumes "\<forall>d \<in> set (c # ds). 0 \<le> c_size_bytes d" "sum_list (map c_size_bytes (c # ds)) < 2 ^ 63"
  shows "g_aggregate_size_bytes (group_with (c, ds)) = sum_list (map c_size_bytes (c # ds))"
proof -
  have nn: "0 \<le> sum_list (map c_size_bytes ds)" using assms(1) by (intro sum_list_nonneg) auto
  then have "in_i64 (c_size_bytes c)" using assms by (simp add: in_i64_def)
  moreover have "in_i64 (c_size_bytes c + sum_list (map c_size_bytes ds))"
    using assms nn by (simp add: in_i64_def)
  ultimately show ?thesis
    by (simp add: group_with_def add_children_size group_head_def)
qed

lemma sum_list_concat_members:
  "sum_list (map f (concat (map (\<lambda>(c, ds). c # ds) ms))) = sum_list (map (\<lambda>(c, ds). sum_list (map f (c # ds))) ms)"
  for f :: "candidate \<Rightarrow> int"
  by (induction ms) auto

lemma sum_list_mset_cong: "mset xs = mset ys \<Longrightarrow> sum_list (map f xs) = sum_list (map f ys)"
  for f :: "'a \<Rightarrow> int"
  by (metis mset_map sum_mset_sum_list)

lemma member_sum_le:
  assumes "\<forall>c \<in> set cs. (0::int) \<le> f c" "mset (concat (map (\<lambda>(c, ds). c # ds) ms)) = mset cs" "(c, ds) \<in> set ms"
  shows "sum_list (map f (c # ds)) \<le> sum_list (map f cs)"
proof -
  obtain us vs where ms: "ms = us @ (c, ds) # vs" using assms(3) by (meson split_list)
  let ?r = "concat (map (\<lambda>(c, ds). c # ds) us) @ concat (map (\<lambda>(c, ds). c # ds) vs)"
  have "mset cs = mset ((c # ds) @ ?r)" using assms(2) by (simp add: ms union_ac)
  then have "sum_list (map f cs) = sum_list (map f (c # ds)) + sum_list (map f ?r)"
    using sum_list_mset_cong [of cs "(c # ds) @ ?r" f] by simp
  moreover have "\<forall>d \<in> set ?r. 0 \<le> f d"
    using assms(1) \<open>mset cs = _\<close> by (metis Un_iff mset_eq_setD set_append)
  then have "\<forall>x \<in> set (map f ?r). 0 \<le> x" unfolding set_map by blast
  then have "0 \<le> sum_list (map f ?r)" by (intro sum_list_nonneg) blast
  ultimately show ?thesis by simp
qed

section \<open>Properties\<close>

definition demo_candidate :: "string \<Rightarrow> candidate_kind \<Rightarrow> string \<Rightarrow> string list \<Rightarrow> candidate" where
  "demo_candidate i k p conf = \<lparr>c_id = i, c_kind = k, c_path = p, c_object_identity = [], c_process = None,
     c_parent_pid = 0, c_port = None, c_size_bytes = 5, c_evidence_level = EvidenceBaselineObserved,
     c_current_status = StatusPresent, c_reason = [], c_recommendation = ''review'', c_event_ids = [],
     c_receipt_ids = [], c_limitations = [], c_conflicts = conf\<rparr>"

definition demo_candidates :: "candidate list" where
  "demo_candidates = [demo_candidate ''c'' CandidateFile ''/r/d/x'' [], demo_candidate ''a'' CandidateDirectory ''/r'' [],
     demo_candidate ''b'' CandidateDirectory ''/r/d'' []]"

text \<open>
  C24: Grouping loses nothing: every candidate of the report is shown by some group, either as
  its head with its own id, path, level and status, or as a counted descendant of a directory
  group with the same level and status; a candidate with a conflict always heads its own group.
  No group samples more than three paths.
\<close>

theorem Candidates_complete:
  "(\<forall>c \<in> set input. \<exists>g \<in> set (Candidates input).
      g_evidence_level g = c_evidence_level c \<and> g_current_status g = c_current_status c
      \<and> (g_id g = c_id c \<and> g_path g = c_path c \<and> g_kind g = c_kind c
         \<or> g_kind g = CandidateDirectory \<and> descendant (g_path g) (c_path c)
           \<and> 0 < g_descendant_count g \<and> c_conflicts c = []))
   \<and> (\<forall>g \<in> set (Candidates input). length (g_sample_paths g) \<le> 3)"
proof (intro conjI ballI)
  fix d assume "d \<in> set input"
  let ?fl = "map (\<lambda>c. (c, False)) (sort_by path_id_less input)"
  have "(d, False) \<in> set ?fl" using \<open>d \<in> set input\<close> by auto
  then obtain c ds where m: "(c, ds) \<in> set (group_members ?fl)" "d = c \<or> d \<in> set ds"
    using group_members_cover by blast
  then have "group_with (c, ds) \<in> set (Candidates input)" by (auto simp: Candidates_members)
  moreover have "d = c \<or> is_folder c \<and> absorbs c d \<and> ds \<noteq> []"
    using m group_members_absorbed [OF m(1)] by auto
  ultimately show "\<exists>g \<in> set (Candidates input).
      g_evidence_level g = c_evidence_level d \<and> g_current_status g = c_current_status d
      \<and> (g_id g = c_id d \<and> g_path g = c_path d \<and> g_kind g = c_kind d
         \<or> g_kind g = CandidateDirectory \<and> descendant (g_path g) (c_path d)
           \<and> 0 < g_descendant_count g \<and> c_conflicts d = [])"
    by (intro bexI [of _ "group_with (c, ds)"])
      (auto simp: group_with_def add_children_fields group_head_def absorbs_def is_folder_def)
next
  fix g assume "g \<in> set (Candidates input)"
  then show "length (g_sample_paths g) \<le> 3"
    by (auto simp: Candidates_members group_with_def add_children_fields group_head_def)
qed

theorem Candidates_complete_witness:
  "map (\<lambda>g. (g_id g, g_descendant_count g, g_aggregate_size_bytes g)) (Candidates demo_candidates) = [(''a'', 2, 15)]
   \<and> length (g_sample_paths (hd (Candidates demo_candidates))) \<le> 3"
proof -
  have "map (\<lambda>g. (g_id g, g_descendant_count g, g_aggregate_size_bytes g)) (Candidates demo_candidates) = [(''a'', 2, 15)]"
    by code_simp
  then show ?thesis using Candidates_complete [of demo_candidates] by (cases "Candidates demo_candidates") auto
qed

text \<open>
  Grouping counts nothing twice, provided directory candidates have distinct paths and no
  conflicts: heads and descendants together number exactly the candidates, and the aggregate
  sizes add up to the total size as long as that fits a 64-bit integer.
\<close>

theorem Candidates_conserve:
  assumes "groupable input"
  shows "sum_list (map (\<lambda>g. 1 + g_descendant_count g) (Candidates input)) = int (length input)
    \<and> ((\<forall>c \<in> set input. 0 \<le> c_size_bytes c) \<and> sum_list (map c_size_bytes input) < 2 ^ 63 \<longrightarrow>
        sum_list (map g_aggregate_size_bytes (Candidates input)) = sum_list (map c_size_bytes input))"
proof (intro conjI impI)
  let ?ms = "group_members (map (\<lambda>c. (c, False)) (sort_by path_id_less input))"
  note part = Candidates_partition [OF assms]
  have "sum_list (map (\<lambda>g. 1 + g_descendant_count g) (Candidates input))
      = sum_list (map (\<lambda>(c, ds). sum_list (map (\<lambda>_. 1) (c # ds))) ?ms)"
    by (auto simp: Candidates_members group_with_def add_children_fields group_head_def comp_def
        sum_list_triv case_prod_unfold)
  also have "\<dots> = sum_list (map (\<lambda>_. 1) input)"
    using sum_list_mset_cong [OF part, of "\<lambda>_. 1"] unfolding sum_list_concat_members by simp
  finally show "sum_list (map (\<lambda>g. 1 + g_descendant_count g) (Candidates input)) = int (length input)"
    by (simp add: sum_list_triv)
  assume sz: "(\<forall>c \<in> set input. 0 \<le> c_size_bytes c) \<and> sum_list (map c_size_bytes input) < 2 ^ 63"
  have "g_aggregate_size_bytes (group_with m) = (case m of (c, ds) \<Rightarrow> sum_list (map c_size_bytes (c # ds)))"
    if "m \<in> set ?ms" for m
  proof -
    obtain c ds where m: "m = (c, ds)" by force
    then have mem: "(c, ds) \<in> set ?ms" using that by simp
    have "set (c # ds) \<subseteq> set (concat (map (\<lambda>(c, ds). c # ds) ?ms))" using mem by force
    then have "set (c # ds) \<subseteq> set input" unfolding mset_eq_setD [OF part] .
    then show ?thesis
      using sz member_sum_le [OF conjunct1 [OF sz] part mem] m
      by (simp only: m prod.case) (rule group_with_size; force)
  qed
  then have "sum_list (map g_aggregate_size_bytes (Candidates input))
      = sum_list (map (\<lambda>(c, ds). sum_list (map c_size_bytes (c # ds))) ?ms)"
    unfolding Candidates_members map_map comp_def by (intro arg_cong [where f = sum_list] map_cong) auto
  also have "\<dots> = sum_list (map c_size_bytes input)"
    using sum_list_mset_cong [OF part, of c_size_bytes] unfolding sum_list_concat_members by simp
  finally show "sum_list (map g_aggregate_size_bytes (Candidates input)) = sum_list (map c_size_bytes input)" .
qed

theorem Candidates_conserve_witness:
  "sum_list (map (\<lambda>g. 1 + g_descendant_count g) (Candidates demo_candidates)) = 3"
proof -
  have "groupable demo_candidates"
    by (simp add: groupable_def demo_candidates_def demo_candidate_def is_folder_def)
  then show ?thesis using Candidates_conserve [of demo_candidates] by (simp add: demo_candidates_def)
qed

text \<open>
  The inner loop does not look at the \<open>used\<close> flags. A directory with a conflict heads its
  own group inside an outer directory, and both groups count the same file.
\<close>

theorem conflict_counts_twice:
  "sum_list (map (\<lambda>g. 1 + g_descendant_count g)
     (Candidates [demo_candidate ''a'' CandidateDirectory ''/r'' [],
        demo_candidate ''b'' CandidateDirectory ''/r/d'' [''cleanup''],
        demo_candidate ''c'' CandidateFile ''/r/d/x'' []])) = 4"
  by code_simp

section \<open>Paging\<close>

lemma Page_at:
  assumes "1 \<le> limit" "limit \<le> 100" "start \<le> length items"
    "cursor = (if start = 0 then [] else b64_encode (itoa (int start)))" "length items < 2 ^ 63"
  shows "Page items cursor limit = Inr \<lparr>p_items = take (nat limit) (drop start items),
    p_total = int (length items),
    p_next_cursor = (if start + nat limit < length items then b64_encode (itoa (int (start + nat limit))) else [])\<rparr>"
proof -
  have "in_i64 (int start)" using assms(3,5) by (simp add: in_i64_def)
  then have at: "atoi (itoa (int start)) = Some (int start)" by (rule atoi_itoa)
  have ne: "b64_encode (itoa (int start)) \<noteq> []" by (simp add: b64_encode_Nil_iff)
  have st: "(if cursor \<noteq> [] then
       (case b64_decode cursor of None \<Rightarrow> Inl (errors_new ''invalid page cursor'')
        | Some raw \<Rightarrow> (case atoi raw of None \<Rightarrow> Inl (errors_new ''invalid page cursor'')
            | Some s \<Rightarrow> if s < 0 \<or> s > int (length items) then Inl (errors_new ''invalid page cursor'') else Inr s))
       else Inr 0) = Inr (int start)"
    using assms(3,4) ne at by (auto simp: b64_decode_encode)
  have lim: "int (nat limit) = limit" using assms(1) by simp
  show ?thesis
  proof (cases "start + nat limit < length items")
    case True
    then have lt: "int start + limit < int (length items)" using lim by linarith
    then have "(if int start + limit > int (length items) then int (length items) else int start + limit)
        = int start + limit" by simp
    moreover have "nat (int start + limit) - nat (int start) = nat limit" using assms(1) by linarith
    ultimately show ?thesis using assms(1,2) True lim lt by (simp only: Page_def st Let_def) simp
  next
    case False
    have "take (length items - start) (drop start items) = take (nat limit) (drop start items)"
      using False by simp
    moreover have "int (length items) \<le> int start + limit" using False lim by linarith
    then have "(if int start + limit > int (length items) then int (length items) else int start + limit)
        = int (length items)" by simp
    ultimately show ?thesis using assms(1,2) False by (simp add: Page_def st Let_def)
  qed
qed

text \<open>A client that follows the cursors until none is left, with a bound on its requests.\<close>

fun read_pages :: "nat \<Rightarrow> candidate_group list \<Rightarrow> string \<Rightarrow> int \<Rightarrow> candidate_group list option" where
  "read_pages 0 items cursor limit = None"
| "read_pages (Suc n) items cursor limit =
     (case Page items cursor limit of
        Inl _ \<Rightarrow> None
      | Inr page \<Rightarrow>
          if p_next_cursor page = [] then Some (p_items page)
          else map_option (\<lambda>more. p_items page @ more) (read_pages n items (p_next_cursor page) limit))"

lemma read_pages_from:
  assumes "1 \<le> limit" "limit \<le> 100" "length items < 2 ^ 63" "start \<le> length items" "length items - start < n"
    "cursor = (if start = 0 then [] else b64_encode (itoa (int start)))"
  shows "read_pages n items cursor limit = Some (drop start items)"
  using assms(4-6)
proof (induction n arbitrary: start cursor)
  case (Suc n)
  let ?next = "start + nat limit"
  note page = Page_at [OF assms(1,2) Suc.prems(1,3) assms(3)]
  show ?case
  proof (cases "?next < length items")
    case True
    have "read_pages n items (b64_encode (itoa (int ?next))) limit = Some (drop ?next items)"
      using True Suc.prems assms(1) by (intro Suc.IH) auto
    moreover have "take (nat limit) (drop start items) @ drop ?next items = drop start items"
      by (metis add.commute append_take_drop_id drop_drop)
    ultimately show ?thesis using True page by (simp add: b64_encode_Nil_iff)
  next
    case False
    then show ?thesis using page by simp
  qed
qed simp

text \<open>
  C25: Paging enumerates the groups: for every admissible limit, a client that starts without a
  cursor and follows the returned cursors ends after finitely many requests, no more than one
  per group and one, with all groups in order, each exactly once.
\<close>

theorem Page_enumerates:
  assumes "1 \<le> limit" "limit \<le> 100" "length items < 2 ^ 63"
  shows "read_pages (Suc (length items)) items [] limit = Some items"
  using read_pages_from [OF assms, of 0 "Suc (length items)" "[]"] by simp

theorem Page_enumerates_witness:
  "read_pages (Suc (length (replicate 7 (group_head (demo_candidate ''a'' CandidateFile ''/r'' [])))))
     (replicate 7 (group_head (demo_candidate ''a'' CandidateFile ''/r'' []))) [] 2
   = Some (replicate 7 (group_head (demo_candidate ''a'' CandidateFile ''/r'' [])))"
  by (rule Page_enumerates) simp_all

end
