(* ===== verification/Native_Adapter.thy ===== *)
theory Native_Adapter
  imports Process_Observe
begin

text \<open>
  The native adapter behind the process observer (\<open>native.go\<close>, \<open>connections.go\<close>)
  with the files a build selects for its platform (\<open>observer_linux.go\<close>,
  \<open>observer_windows.go\<close>, \<open>observer_darwin.go\<close> with its C function,
  \<open>observer_darwin_nocgo.go\<close>). What gopsutil, libproc and the user database answer is a
  parameter.
\<close>

section \<open>Answers of the operating system\<close>

text \<open>
  One row of the process table with the answers gopsutil gives for it, the lookup of a row by
  PID, and the user the program runs as.
\<close>

record psproc =
  ps_pid :: int
  ps_uids :: "int list res"
  ps_username :: "string res"
  ps_create_millis :: "int res"
  ps_ppid :: "int res"
  ps_cwd :: "string res"
  ps_open_files :: "string list res"

record connection =
  cn_status :: string
  cn_laddr_ip :: string
  cn_laddr_port :: int
  cn_raddr_port :: int

text \<open>
  libproc: the flags and addresses of one socket (\<open>inet_ntop\<close> of its address in either
  family, the port in network byte order), a descriptor whose socket information may be
  unavailable, and the two calls that list descriptors, with their result and \<open>errno\<close>.
\<close>

record socket_info =
  si_tcp :: bool
  si_listen :: bool
  si_ipv4 :: bool
  si_ipv6 :: bool
  si_ntop4 :: "string option"
  si_ntop6 :: "string option"
  si_lport :: int

record fd_info =
  fd_is_socket :: bool
  fd_socket :: "socket_info option"

record libproc =
  lp_size :: "int \<Rightarrow> int \<times> int"
  lp_malloc :: "int \<Rightarrow> bool"
  lp_list :: "int \<Rightarrow> int \<Rightarrow> int \<times> int \<times> fd_info list"

record ps_view =
  pv_processes :: "psproc list res"
  pv_new_process :: "int \<Rightarrow> psproc res"
  pv_connections :: "int \<Rightarrow> connection list res"
  pv_getuid :: int
  pv_current_user :: "string res"
  pv_equal_fold :: "string \<Rightarrow> string \<Rightarrow> bool"
  pv_windows_clean :: "string \<Rightarrow> string"
  pv_libproc :: libproc

datatype platform = Linux | Windows | Darwin | DarwinNoCgo

section \<open>Shared operations\<close>

definition int32 :: "int \<Rightarrow> int" where
  "int32 x = (x + 2 ^ 31) mod 2 ^ 32 - 2 ^ 31"

definition processStillMatches :: "ps_view \<Rightarrow> identity \<Rightarrow> unit res" where
  "processStillMatches pv i =
     and_then (pv_new_process pv (int32 (pi_pid i))) (\<lambda>p.
     and_then (ps_create_millis p) (\<lambda>ms.
       if \<not> time_equal (time_unix_milli ms) (pi_created_at i)
       then Inl (errors_new ''process identity changed'') else Inr ()))"

text \<open>
  \<open>strings.EqualFold\<close> against \<open>"LISTEN"\<close>: ASCII letters fold as usual, and the
  only other character that folds to a letter of that word is the long s, U+017F.
\<close>

definition lower_char :: "char \<Rightarrow> char" where
  "lower_char c = (if 65 \<le> (of_char c :: nat) \<and> (of_char c :: nat) \<le> 90
                   then char_of ((of_char c :: nat) + 32) else c)"

fun fold_case :: "string \<Rightarrow> string" where
  "fold_case (a # b # s) =
     (if a = CHR 0xC5 \<and> b = CHR 0xBF then CHR ''s'' # fold_case s
      else lower_char a # fold_case (b # s))"
| "fold_case [a] = [lower_char a]"
| "fold_case [] = []"

definition listeningConnections :: "connection list \<Rightarrow> port list" where
  "listeningConnections cs =
     map (\<lambda>c. \<lparr>po_protocol = ''tcp'', po_address = cn_laddr_ip c, po_number = cn_laddr_port c\<rparr>)
       (filter (\<lambda>c. fold_case (cn_status c) = ''listen'' \<and> cn_raddr_port c = 0) cs)"

section \<open>Platform files\<close>

text \<open>\<open>observer_linux.go\<close>\<close>

definition owned_linux :: "ps_view \<Rightarrow> psproc \<Rightarrow> bool res" where
  "owned_linux pv p =
     (case ps_uids p of
        Inl e \<Rightarrow> Inl e
      | Inr [] \<Rightarrow> Inr False
      | Inr (uid # _) \<Rightarrow> Inr (uid = pv_getuid pv mod 2 ^ 32))"

definition ports_linux :: "ps_view \<Rightarrow> identity \<Rightarrow> port list res" where
  "ports_linux pv i =
     and_then (processStillMatches pv i) (\<lambda>_.
     and_then (pv_connections pv (int32 (pi_pid i))) (\<lambda>cs. Inr (listeningConnections cs)))"

definition holds_linux :: "psproc \<Rightarrow> string set \<Rightarrow> bool res" where
  "holds_linux p paths =
     and_then (ps_open_files p) (\<lambda>files. Inr (\<exists>f \<in> set files. f \<in> paths))"

text \<open>\<open>observer_windows.go\<close>: the owner is compared by name; folding Unicode is a parameter.\<close>

definition owned_windows :: "ps_view \<Rightarrow> psproc \<Rightarrow> bool res" where
  "owned_windows pv p =
     and_then (pv_current_user pv) (\<lambda>current.
     and_then (ps_username p) (\<lambda>owner. Inr (pv_equal_fold pv owner current)))"

definition ports_windows :: "ps_view \<Rightarrow> identity \<Rightarrow> port list res" where
  "ports_windows pv i =
     and_then (processStillMatches pv i) (\<lambda>_.
     and_then (pv_connections pv (int32 (pi_pid i))) (\<lambda>cs. Inr (listeningConnections cs)))"

definition holds_windows :: "psproc \<Rightarrow> string set \<Rightarrow> bool res" where
  "holds_windows p paths =
     and_then (ps_open_files p) (\<lambda>files. Inr (\<exists>f \<in> set files. f \<in> paths))"

text \<open>
  \<open>observer_darwin.go\<close>. The C function writes at most \<open>capacity\<close> ports; a negative
  result is an error number. A descriptor entry has 8 bytes; \<open>ntohs\<close> swaps the bytes.
\<close>

definition ntohs :: "int \<Rightarrow> int" where
  "ntohs x = (x mod 256) * 256 + (x mod 65536) div 256"

definition fd_port :: "fd_info \<Rightarrow> (string \<times> int) option" where
  "fd_port fd =
     (if \<not> fd_is_socket fd then None
      else case fd_socket fd of
        None \<Rightarrow> None
      | Some si \<Rightarrow>
          if \<not> si_tcp si then None
          else if \<not> si_listen si then None
          else let address = (if si_ipv4 si then si_ntop4 si else if si_ipv6 si then si_ntop6 si else None)
               in (case address of None \<Rightarrow> None | Some a \<Rightarrow> Some (a, ntohs (si_lport si))))"

fun port_loop :: "nat \<Rightarrow> fd_info list \<Rightarrow> (string \<times> int) list \<Rightarrow> (string \<times> int) list" where
  "port_loop capacity [] written = written"
| "port_loop capacity (fd # fds) written =
     (if \<not> length written < capacity then written
      else case fd_port fd of
        None \<Rightarrow> port_loop capacity fds written
      | Some p \<Rightarrow> port_loop capacity fds (written @ [p]))"

definition are_listening_ports :: "libproc \<Rightarrow> int \<Rightarrow> nat \<Rightarrow> int \<times> (string \<times> int) list" where
  "are_listening_ports lp pid capacity =
     (let (bytes, errno) = lp_size lp pid
      in if bytes \<le> 0 then (- errno, [])
         else if \<not> lp_malloc lp bytes then (- 12, [])
         else let (bytes, errno, fds) = lp_list lp pid bytes
              in if bytes \<le> 0 then (- errno, [])
                 else let ports = port_loop capacity (take (nat (bytes div 8)) fds) []
                      in (int (length ports), ports))"

definition owned_darwin :: "ps_view \<Rightarrow> psproc \<Rightarrow> bool res" where
  "owned_darwin pv p =
     (case ps_uids p of
        Inl e \<Rightarrow> Inl e
      | Inr [] \<Rightarrow> Inr False
      | Inr (uid # _) \<Rightarrow> Inr (uid = pv_getuid pv mod 2 ^ 32))"

definition ports_darwin :: "ps_view \<Rightarrow> identity \<Rightarrow> port list res" where
  "ports_darwin pv i =
     and_then (processStillMatches pv i) (\<lambda>_.
       let (count, buffer) = are_listening_ports (pv_libproc pv) (int32 (pi_pid i)) 4096
       in if count < 0 then Inl (Errorf [Lit (''proc_pidinfo failed with errno '' @ itoa (- count))])
          else Inr (map (\<lambda>(address, number). \<lparr>po_protocol = ''tcp'', po_address = address, po_number = number\<rparr>)
                      (take (nat count) buffer)))"

definition holds_darwin :: "psproc \<Rightarrow> string set \<Rightarrow> bool res" where
  "holds_darwin p paths = Inr False"

text \<open>\<open>observer_darwin_nocgo.go\<close>\<close>

definition owned_nocgo :: "psproc \<Rightarrow> bool res" where
  "owned_nocgo p = Inl (errors_new ''macOS native process observation requires cgo'')"

definition ports_nocgo :: "identity \<Rightarrow> port list res" where
  "ports_nocgo i = Inl (errors_new ''macOS native port observation requires cgo'')"

definition holds_nocgo :: "psproc \<Rightarrow> string set \<Rightarrow> bool res" where
  "holds_nocgo p paths = Inl (errors_new ''macOS native process observation requires cgo'')"

text \<open>The function a build links.\<close>

definition processOwnedByCurrentUser :: "platform \<Rightarrow> ps_view \<Rightarrow> psproc \<Rightarrow> bool res" where
  "processOwnedByCurrentUser pf pv =
     (case pf of Linux \<Rightarrow> owned_linux pv | Windows \<Rightarrow> owned_windows pv | Darwin \<Rightarrow> owned_darwin pv | DarwinNoCgo \<Rightarrow> owned_nocgo)"

definition nativeListeningPorts :: "platform \<Rightarrow> ps_view \<Rightarrow> identity \<Rightarrow> port list res" where
  "nativeListeningPorts pf pv =
     (case pf of Linux \<Rightarrow> ports_linux pv | Windows \<Rightarrow> ports_windows pv | Darwin \<Rightarrow> ports_darwin pv | DarwinNoCgo \<Rightarrow> ports_nocgo)"

definition nativeHoldsAnyPath :: "platform \<Rightarrow> psproc \<Rightarrow> string set \<Rightarrow> bool res" where
  "nativeHoldsAnyPath pf =
     (case pf of Linux \<Rightarrow> holds_linux | Windows \<Rightarrow> holds_windows | Darwin \<Rightarrow> holds_darwin | DarwinNoCgo \<Rightarrow> holds_nocgo)"

section \<open>The adapter\<close>

definition snapshot_row :: "(psproc \<Rightarrow> bool res) \<Rightarrow> psproc \<Rightarrow> metadata option" where
  "snapshot_row owned p =
     (case owned p of
        Inr True \<Rightarrow>
          (case ps_create_millis p of
             Inl _ \<Rightarrow> None
           | Inr ms \<Rightarrow>
               if ms \<le> 0 then None
               else (case ps_ppid p of
                       Inl _ \<Rightarrow> None
                     | Inr parent \<Rightarrow>
                         Some \<lparr>md_identity = \<lparr>pi_pid = ps_pid p, pi_created_at = time_unix_milli ms\<rparr>,
                               md_parent_pid = parent,
                               md_working_dir = (case ps_cwd p of Inl _ \<Rightarrow> [] | Inr d \<Rightarrow> d)\<rparr>))
      | _ \<Rightarrow> None)"

definition native_Snapshot :: "platform \<Rightarrow> ps_view \<Rightarrow> metadata list res" where
  "native_Snapshot pf pv =
     and_then (pv_processes pv) (\<lambda>all. Inr (List.map_filter (snapshot_row (processOwnedByCurrentUser pf pv)) all))"

text \<open>\<open>filepath.Clean\<close> is that of the platform.\<close>

definition clean_of :: "platform \<Rightarrow> ps_view \<Rightarrow> string \<Rightarrow> string" where
  "clean_of pf pv = (if pf = Windows then pv_windows_clean pv else path_clean)"

definition cleanPathSet :: "(string \<Rightarrow> string) \<Rightarrow> string list \<Rightarrow> string set" where
  "cleanPathSet clean paths = clean ` set paths"

definition native_HoldsAnyPath :: "platform \<Rightarrow> ps_view \<Rightarrow> identity \<Rightarrow> string list \<Rightarrow> bool res" where
  "native_HoldsAnyPath pf pv i paths =
     (if paths = [] then Inr False
      else and_then (pv_new_process pv (int32 (pi_pid i))) (\<lambda>p.
        case ps_create_millis p of
          Inl _ \<Rightarrow> Inl (errors_new ''process identity changed'')
        | Inr ms \<Rightarrow>
            if \<not> time_equal (time_unix_milli ms) (pi_created_at i)
            then Inl (errors_new ''process identity changed'')
            else nativeHoldsAnyPath pf p (cleanPathSet (clean_of pf pv) paths)))"

definition nativeAdapter ::
    "platform \<Rightarrow> ps_view \<Rightarrow> (attributed \<Rightarrow> attributed) \<Rightarrow> (string \<Rightarrow> string) \<Rightarrow> native_adapter" where
  "nativeAdapter pf pv visit quote =
     \<lparr>na_snapshot = native_Snapshot pf pv, na_ports = nativeListeningPorts pf pv,
      na_holds = native_HoldsAnyPath pf pv, na_range = visit, na_quote = quote\<rparr>"

section \<open>Whom the observer asks about\<close>

text \<open>Two adapters that show the same process table and answer alike about the processes in it.\<close>

definition agree_on_rows :: "native_adapter \<Rightarrow> native_adapter \<Rightarrow> bool" where
  "agree_on_rows na na' \<longleftrightarrow> na_snapshot na' = na_snapshot na \<and> na_range na' = na_range na \<and> na_quote na' = na_quote na
     \<and> (\<forall>ps m. na_snapshot na = Inr ps \<longrightarrow> m \<in> set ps \<longrightarrow> na_ports na' (md_identity m) = na_ports na (md_identity m)
          \<and> na_holds na' (md_identity m) = na_holds na (md_identity m))"

lemma bind_open_paths_rows:
  assumes "na_quote na' = na_quote na" "\<forall>m \<in> set ms. na_holds na' (md_identity m) = na_holds na (md_identity m)"
  shows "bind_open_paths na' paths att lims ms = bind_open_paths na paths att lims ms"
  using assms
  by (induction na paths att lims ms rule: bind_open_paths.induct) (auto split: sum.splits bool.splits)

lemma attribute_rows:
  assumes "na_quote na' = na_quote na" "\<forall>m \<in> set ps. na_holds na' (md_identity m) = na_holds na (md_identity m)"
  shows "attribute os roots na' h ps = attribute os roots na h ps"
  unfolding attribute_def Let_def bind_open_paths_rows [OF assms] ..

text \<open>An attributed PID is in the process table, so its row is found there.\<close>

lemma attributed_row:
  assumes "(pid, r) \<in> set (na_range na (fst (attribute os roots na h ps)))" "\<And>att. mset (na_range na att) = mset att"
  obtains m where "m \<in> set ps" "byPID ps pid = Some m"
proof -
  have "(pid, r) \<in> set (fst (attribute os roots na h ps))" using assms mset_eq_setD by blast
  then have "map_of (fst (attribute os roots na h ps)) pid = Some r" using attribute_spec(2) by simp
  then have "pid \<in> md_pid ` set ps" using reason_for_listed by (simp add: attribute_spec(1))
  then have "byPID ps pid \<noteq> None" by (simp add: byPID_def map_of_eq_None_iff image_image)
  then show ?thesis using that byPID_Some by blast
qed

lemma proc_resolve_rows:
  assumes "na_snapshot na = Inr ps" "\<And>att. mset (na_range na att) = mset att" "ev \<in> set (fst (proc_resolve os roots na h))"
  obtains m r where "m \<in> set ps" "ev = evidence_of na m r"
proof -
  have "ev \<in> set (fst (collect_evidence na (byPID ps) (na_range na (fst (attribute os roots na h ps))) (snd (attribute os roots na h ps))))"
    using assms(1,3) by (simp add: proc_resolve_def Let_def case_prod_unfold)
  then obtain pid r where ev: "(pid, r) \<in> set (na_range na (fst (attribute os roots na h ps)))"
      "ev = evidence_of na (case byPID ps pid of None \<Rightarrow> zero_metadata | Some m \<Rightarrow> m) r"
    by (auto simp: collect_evidence_map)
  obtain m where "m \<in> set ps" "byPID ps pid = Some m" by (rule attributed_row [OF ev(1) assms(2)])
  with that ev(2) show ?thesis by simp
qed

lemma collect_evidence_rows:
  assumes "na_quote na' = na_quote na"
    "\<And>pid r. (pid, r) \<in> set att \<Longrightarrow> \<exists>m. procs pid = Some m \<and> na_ports na' (md_identity m) = na_ports na (md_identity m)"
  shows "collect_evidence na' procs att lims = collect_evidence na procs att lims"
  using assms(2)
proof (induction att arbitrary: lims)
  case (Cons a att)
  obtain pid r where a: "a = (pid, r)" by force
  obtain m where m: "procs pid = Some m" "na_ports na' (md_identity m) = na_ports na (md_identity m)" using Cons.prems a by auto
  have "collect_evidence na' procs att lims = collect_evidence na procs att lims" for lims using Cons.IH Cons.prems by auto
  with m a assms(1) show ?case by (simp split: sum.split)
qed simp

text \<open>So what the observer reports depends on answers about the processes of the table only.\<close>

lemma proc_resolve_local:
  assumes "agree_on_rows na na'" "\<And>att. mset (na_range na att) = mset att"
  shows "proc_resolve os roots na' h = proc_resolve os roots na h"
proof (cases "na_snapshot na")
  case (Inl e)
  with assms(1) show ?thesis by (simp add: proc_resolve_def agree_on_rows_def)
next
  case (Inr ps)
  with assms(1) have rows: "na_quote na' = na_quote na" "na_range na' = na_range na" "na_snapshot na' = Inr ps"
      "\<forall>m \<in> set ps. na_holds na' (md_identity m) = na_holds na (md_identity m)"
      "\<And>m. m \<in> set ps \<Longrightarrow> na_ports na' (md_identity m) = na_ports na (md_identity m)"
    by (simp_all add: agree_on_rows_def)
  have "collect_evidence na' (byPID ps) (na_range na (fst (attribute os roots na h ps))) lims
      = collect_evidence na (byPID ps) (na_range na (fst (attribute os roots na h ps))) lims" for lims
  proof (rule collect_evidence_rows [OF rows(1)])
    fix pid r assume "(pid, r) \<in> set (na_range na (fst (attribute os roots na h ps)))"
    from attributed_row [OF this assms(2)] rows(5)
    show "\<exists>m. byPID ps pid = Some m \<and> na_ports na' (md_identity m) = na_ports na (md_identity m)" by metis
  qed
  with rows Inr show ?thesis
    by (simp add: proc_resolve_def Let_def case_prod_unfold attribute_rows [OF rows(1,4)])
qed

section \<open>What every build keeps to\<close>

text \<open>
  The contract between the adapter and the file a build selects: processes it calls own are own,
  and it lists ports only of a process that still has the recorded identity. What the observer
  makes of any such build follows.
\<close>

lemma snapshot_row_Some:
  "snapshot_row owned p = Some m \<Longrightarrow> owned p = Inr True
     \<and> (\<exists>ms. ps_create_millis p = Inr ms \<and> 0 < ms \<and> md_identity m = \<lparr>pi_pid = ps_pid p, pi_created_at = time_unix_milli ms\<rparr>)"
  by (auto simp: snapshot_row_def split: sum.splits bool.splits if_splits)

text \<open>A process of the table, as it was identified.\<close>

definition identifies :: "identity \<Rightarrow> psproc \<Rightarrow> bool" where
  "identifies i p \<longleftrightarrow> (\<exists>ms. ps_create_millis p = Inr ms \<and> 0 < ms \<and> i = \<lparr>pi_pid = ps_pid p, pi_created_at = time_unix_milli ms\<rparr>)"

locale platform_build =
  fixes owned :: "psproc \<Rightarrow> bool res" and ports :: "identity \<Rightarrow> port list res"
    and own :: "psproc \<Rightarrow> bool" and same :: "identity \<Rightarrow> bool"
  assumes owned_own: "owned p = Inr True \<Longrightarrow> own p" and ports_same: "ports i = Inr ps \<Longrightarrow> same i"
begin

lemma rows_own: "m \<in> set (List.map_filter (snapshot_row owned) all) \<Longrightarrow> \<exists>p \<in> set all. identifies (md_identity m) p \<and> own p"
  using snapshot_row_Some owned_own by (fastforce simp: List.map_filter_def identifies_def)

lemma evidence_own:
  assumes "na_snapshot na = Inr (List.map_filter (snapshot_row owned) all)" "na_ports na = ports"
    "\<And>att. mset (na_range na att) = mset att" "ev \<in> set (fst (proc_resolve os roots na h))"
  shows "(\<exists>p \<in> set all. identifies (ev_identity ev) p \<and> own p) \<and> (ev_ports ev \<noteq> [] \<longrightarrow> same (ev_identity ev))"
proof -
  obtain m r where m: "m \<in> set (List.map_filter (snapshot_row owned) all)" "ev = evidence_of na m r"
    by (rule proc_resolve_rows [OF assms(1,3,4)])
  have "same (md_identity m)" if "ev_ports ev \<noteq> []"
    using that ports_same m(2) assms(2) by (cases "ports (md_identity m)") (auto simp: evidence_of_def)
  with rows_own [OF m(1)] m(2) show ?thesis by (simp add: evidence_of_def)
qed

end

definition own_process :: "platform \<Rightarrow> ps_view \<Rightarrow> psproc \<Rightarrow> bool" where
  "own_process pf pv p \<longleftrightarrow>
     (case pf of
        DarwinNoCgo \<Rightarrow> False
      | Windows \<Rightarrow> (\<exists>u v. pv_current_user pv = Inr u \<and> ps_username p = Inr v \<and> pv_equal_fold pv v u)
      | _ \<Rightarrow> (\<exists>uids. ps_uids p = Inr ((pv_getuid pv mod 2 ^ 32) # uids)))"

definition still_there :: "ps_view \<Rightarrow> identity \<Rightarrow> bool" where
  "still_there pv i \<longleftrightarrow> (\<exists>p ms. pv_new_process pv (int32 (pi_pid i)) = Inr p \<and> ps_create_millis p = Inr ms
     \<and> time_equal (time_unix_milli ms) (pi_created_at i))"

lemma processStillMatches_iff: "processStillMatches pv i = Inr u \<longleftrightarrow> still_there pv i"
  by (auto simp: processStillMatches_def still_there_def res_simps)

lemma owned_uid:
  "owned_linux pv p = Inr True \<Longrightarrow> \<exists>uids. ps_uids p = Inr ((pv_getuid pv mod 2 ^ 32) # uids)"
  "owned_darwin pv p = Inr True \<Longrightarrow> \<exists>uids. ps_uids p = Inr ((pv_getuid pv mod 2 ^ 32) # uids)"
  by (auto simp: owned_linux_def owned_darwin_def split: sum.splits list.splits)

interpretation build: platform_build "processOwnedByCurrentUser pf pv" "nativeListeningPorts pf pv" "own_process pf pv"
  "still_there pv" for pf pv
proof
  fix p i ps
  show "processOwnedByCurrentUser pf pv p = Inr True \<Longrightarrow> own_process pf pv p"
    using owned_uid [of pv p]
    by (cases pf) (auto simp: processOwnedByCurrentUser_def own_process_def owned_windows_def owned_nocgo_def res_simps)
  show "nativeListeningPorts pf pv i = Inr ps \<Longrightarrow> still_there pv i"
    by (cases pf) (auto simp: nativeListeningPorts_def ports_linux_def ports_windows_def ports_darwin_def ports_nocgo_def
        res_simps processStillMatches_iff)
qed

lemma native_HoldsAnyPath_checked:
  assumes "native_HoldsAnyPath pf pv i paths = Inr answer" "paths \<noteq> []"
  shows "still_there pv i"
proof -
  from assms obtain p where p: "pv_new_process pv (int32 (pi_pid i)) = Inr p"
    by (auto simp: native_HoldsAnyPath_def res_simps)
  with assms show ?thesis
    by (cases "ps_create_millis p") (auto simp: native_HoldsAnyPath_def still_there_def split: if_splits)
qed

text \<open>
  C36: On every platform the observer reads the current user's processes only: the process table
  of the native adapter lists own processes, each with its PID and creation time; the observer
  asks about the processes of that table only, in that its results do not depend on what the
  adapter would say of any other identity; so all evidence is about own processes, and the ports in it
  are those of a process that still has the recorded creation time. Whichever identity the adapter
  is asked about, it answers a question about ports or open files, positively or negatively, only while the process at
  that PID has the recorded creation time.
\<close>

theorem native_reads_only_own:
  assumes "na = nativeAdapter pf pv visit quote" "\<And>att. mset (visit att) = mset att"
  shows "(\<forall>ps m. na_snapshot na = Inr ps \<and> m \<in> set ps \<longrightarrow>
      (\<exists>all p. pv_processes pv = Inr all \<and> p \<in> set all \<and> identifies (md_identity m) p \<and> own_process pf pv p))
   \<and> (\<forall>na'. agree_on_rows na na' \<longrightarrow> proc_resolve os roots na' h = proc_resolve os roots na h
        \<and> proc_verify os roots na' ids = proc_verify os roots na ids)
   \<and> (\<forall>ev \<in> set (fst (proc_resolve os roots na h)).
        (\<exists>all p. pv_processes pv = Inr all \<and> p \<in> set all \<and> identifies (ev_identity ev) p \<and> own_process pf pv p)
        \<and> (ev_ports ev \<noteq> [] \<longrightarrow> still_there pv (ev_identity ev)))
   \<and> (\<forall>i. is_ok (na_ports na i) \<longrightarrow> still_there pv i)
   \<and> (\<forall>i paths. paths \<noteq> [] \<and> is_ok (na_holds na i paths) \<longrightarrow> still_there pv i)"
proof (intro conjI allI impI ballI; (elim conjE)?)
  have na: "na_snapshot na = native_Snapshot pf pv" "na_ports na = nativeListeningPorts pf pv"
    "na_holds na = native_HoldsAnyPath pf pv" "\<And>att. mset (na_range na att) = mset att"
    using assms by (simp_all add: nativeAdapter_def)
  have table: "\<exists>all. pv_processes pv = Inr all \<and> ps = List.map_filter (snapshot_row (processOwnedByCurrentUser pf pv)) all"
    if "na_snapshot na = Inr ps" for ps
    using that by (auto simp: na native_Snapshot_def res_simps)
  show "\<exists>all p. pv_processes pv = Inr all \<and> p \<in> set all \<and> identifies (md_identity m) p \<and> own_process pf pv p"
    if "na_snapshot na = Inr ps" "m \<in> set ps" for ps m
    using table [OF that(1)] that(2) build.rows_own by blast
  show "proc_resolve os roots na' h = proc_resolve os roots na h" if "agree_on_rows na na'" for na'
    by (rule proc_resolve_local [OF that na(4)])
  show "proc_verify os roots na' ids = proc_verify os roots na ids" if "agree_on_rows na na'" for na'
    by (simp add: proc_verify_def proc_resolve_local [OF that na(4)])
  fix ev assume ev: "ev \<in> set (fst (proc_resolve os roots na h))"
  then obtain ps where ps: "na_snapshot na = Inr ps" by (cases "na_snapshot na") (auto simp: proc_resolve_def)
  then obtain all where all: "pv_processes pv = Inr all" "na_snapshot na = Inr (List.map_filter (snapshot_row (processOwnedByCurrentUser pf pv)) all)"
    using table by blast
  note own = build.evidence_own [OF all(2) na(2,4) ev]
  then show "\<exists>all p. pv_processes pv = Inr all \<and> p \<in> set all \<and> identifies (ev_identity ev) p \<and> own_process pf pv p" using all(1) by blast
  show "still_there pv (ev_identity ev)" if "ev_ports ev \<noteq> []" using own that by blast
next
  fix i assume "is_ok (na_ports na i)"
  then show "still_there pv i" using build.ports_same by (auto simp: assms(1) nativeAdapter_def elim!: is_okE)
next
  fix i and paths :: "string list" assume "paths \<noteq> []" "is_ok (na_holds na i paths)"
  then show "still_there pv i" using native_HoldsAnyPath_checked by (auto simp: assms(1) nativeAdapter_def elim!: is_okE)
qed

section \<open>The C function\<close>

lemma port_loop_take:
  "length written \<le> capacity \<Longrightarrow>
     port_loop capacity fds written = written @ take (capacity - length written) (List.map_filter fd_port fds)"
proof (induction capacity fds written rule: port_loop.induct)
  case (2 capacity fd fds written)
  then show ?case
    by (cases "fd_port fd"; cases "length written < capacity")
      (simp_all add: List.map_filter_simps take_Cons' Suc_diff_Suc)
qed (simp add: List.map_filter_simps)

text \<open>
  When the two calls of libproc succeed, the ports are exactly those of the first 4096 listening
  TCP sockets among the descriptors, in their order.
\<close>

lemma ports_darwin_exact:
  assumes "still_there pv i" "lp_size (pv_libproc pv) (int32 (pi_pid i)) = (bytes, e)" "0 < bytes" "lp_malloc (pv_libproc pv) bytes"
    "lp_list (pv_libproc pv) (int32 (pi_pid i)) bytes = (8 * int (length fds), e', fds)" "fds \<noteq> []"
  shows "nativeListeningPorts Darwin pv i
    = Inr (map (\<lambda>(a, n). \<lparr>po_protocol = ''tcp'', po_address = a, po_number = n\<rparr>) (take 4096 (List.map_filter fd_port fds)))"
proof -
  have "processStillMatches pv i = Inr ()" using assms(1) by (simp add: processStillMatches_iff)
  moreover have "take (min (length xs) 4096) xs = take 4096 xs" for xs :: "(string \<times> int) list" by (simp add: min_def)
  ultimately show ?thesis using assms(2-6)
    by (simp add: nativeListeningPorts_def ports_darwin_def are_listening_ports_def port_loop_take Let_def)
qed

text \<open>Without cgo the snapshot is empty, and the reason is lost.\<close>

lemma nocgo_snapshot_empty: "pv_processes pv = Inr all \<Longrightarrow> native_Snapshot DarwinNoCgo pv = Inr []"
  by (simp add: native_Snapshot_def processOwnedByCurrentUser_def List.map_filter_def snapshot_row_def owned_nocgo_def)

section \<open>Witness\<close>

definition demo_table_row :: psproc where
  "demo_table_row = \<lparr>ps_pid = 7, ps_uids = Inr [1000], ps_username = Inr ''dev'', ps_create_millis = Inr 5, ps_ppid = Inr 1,
     ps_cwd = Inr ''/'', ps_open_files = Inr []\<rparr>"

definition demo_ps :: ps_view where
  "demo_ps = \<lparr>pv_processes = Inr [demo_table_row, demo_table_row\<lparr>ps_pid := 1, ps_uids := Inr [0]\<rparr>],
     pv_new_process = (\<lambda>_. Inr demo_table_row), pv_connections = (\<lambda>_. Inr []), pv_getuid = 1000,
     pv_current_user = Inr ''dev'', pv_equal_fold = (=), pv_windows_clean = id,
     pv_libproc = \<lparr>lp_size = (\<lambda>_. (0, 0)), lp_malloc = (\<lambda>_. True), lp_list = (\<lambda>_ _. (0, 0, []))\<rparr>\<rparr>"

theorem native_reads_only_own_witness:
  "still_there demo_ps \<lparr>pi_pid = 7, pi_created_at = time_unix_milli 5\<rparr>
   \<and> map (\<lambda>e. ev_pid e) (fst (proc_resolve demo_os [''/''] (nativeAdapter Darwin demo_ps rev id)
        \<lparr>h_event_processes = [], h_receipt_processes = [], h_candidate_paths = []\<rparr>)) = [7]
   \<and> own_process Darwin demo_ps demo_table_row"
proof -
  let ?i = "\<lparr>pi_pid = 7, pi_created_at = time_unix_milli 5\<rparr>" and ?na = "nativeAdapter Darwin demo_ps rev id"
  let ?h = "\<lparr>h_event_processes = [], h_receipt_processes = [], h_candidate_paths = []\<rparr>"
  have ok: "is_ok (na_ports ?na ?i)"
    by (simp add: nativeAdapter_def nativeListeningPorts_def ports_darwin_def are_listening_ports_def processStillMatches_def
        demo_ps_def demo_table_row_def time_equal_def Let_def)
  have pids: "map (\<lambda>e. ev_pid e) (fst (proc_resolve demo_os [''/''] ?na ?h)) = [7]" by code_simp
  then obtain ev where ev: "ev \<in> set (fst (proc_resolve demo_os [''/''] ?na ?h))" "ev_pid ev = 7" by auto
  from native_reads_only_own [OF refl, of rev Darwin demo_ps id demo_os "[''/'']" ?h "[]"] ok ev(1)
  have "still_there demo_ps ?i"
    "\<exists>all p. pv_processes demo_ps = Inr all \<and> p \<in> set all \<and> identifies (ev_identity ev) p \<and> own_process Darwin demo_ps p"
    by simp_all
  then show ?thesis using pids ev(2) by (auto simp: demo_ps_def identifies_def demo_table_row_def)
qed

end
