(* ===== verification/World.thy ===== *)
theory World
  imports Go_Time Go_Path
begin

text \<open>
  The file system, clock and random source as the store uses them, with failures. A world is
  the files by full path, the existing directories, the permission bits, and three oracles: the answer to the
  \<open>n\<close>-th system call (a text makes that call fail with it, without effect), the \<open>n\<close>-th
  reading of the clock and the bytes of the \<open>n\<close>-th draw from the random source, which
  fills the whole buffer or fails. Operations are functions
  from a world to a result and the world after it. File contents are the type parameter.
\<close>

section \<open>Worlds\<close>

record 'c world =
  w_files :: "(string \<times> 'c) list"
  w_dirs :: "string list"
  w_modes :: "(string \<times> nat) list"
  w_fault :: "nat \<Rightarrow> string option"
  w_calls :: nat
  w_clock :: "nat \<Rightarrow> gtime"
  w_reads :: nat
  w_rand :: "nat \<Rightarrow> (nat \<Rightarrow> char) res"
  w_draws :: nat

type_synonym ('c, 'a) io = "'c world \<Rightarrow> 'a res \<times> 'c world"

definition io_return :: "'a \<Rightarrow> ('c, 'a) io" where
  "io_return v w = (Inr v, w)"

definition io_fail :: "err \<Rightarrow> ('c, 'a) io" where
  "io_fail e w = (Inl e, w)"

definition io_bind :: "('c, 'a) io \<Rightarrow> ('a \<Rightarrow> ('c, 'b) io) \<Rightarrow> ('c, 'b) io" where
  "io_bind m f w = (case m w of (Inl e, w') \<Rightarrow> (Inl e, w') | (Inr v, w') \<Rightarrow> f v w')"

text \<open>The outcome of a step as a value, for code that inspects the error.\<close>

definition io_try :: "('c, 'a) io \<Rightarrow> ('c, 'a res) io" where
  "io_try m w = (case m w of (r, w') \<Rightarrow> (Inr r, w'))"

definition io_lift :: "'a res \<Rightarrow> ('c, 'a) io" where
  "io_lift r w = (r, w)"

definition denied :: "('c, 'a) io" where
  "denied = io_fail ErrAccessDenied"

text \<open>A step whose every error becomes \<open>capability.ErrAccessDenied\<close>.\<close>

definition or_denied :: "('c, 'a) io \<Rightarrow> ('c, 'a) io" where
  "or_denied m w = (case m w of (Inl _, w') \<Rightarrow> (Inl ErrAccessDenied, w') | (Inr v, w') \<Rightarrow> (Inr v, w'))"

definition read_clock :: "('c, gtime) io" where
  "read_clock w = (Inr (w_clock w (w_reads w)), w\<lparr>w_reads := Suc (w_reads w)\<rparr>)"

definition draw_random :: "nat \<Rightarrow> ('c, string) io" where
  "draw_random n w =
     (case w_rand w (w_draws w) of Inl e \<Rightarrow> Inl e | Inr bytes \<Rightarrow> Inr (map bytes [0..<n]),
      w\<lparr>w_draws := Suc (w_draws w)\<rparr>)"

text \<open>One system call: it fails as the oracle says, or does what it is meant to do.\<close>

definition sys :: "('c world \<Rightarrow> 'a res \<times> 'c world) \<Rightarrow> ('c, 'a) io" where
  "sys f w = (case w_fault w (w_calls w) of
     Some e \<Rightarrow> (Inl (ErrOS e), w\<lparr>w_calls := Suc (w_calls w)\<rparr>)
   | None \<Rightarrow> f (w\<lparr>w_calls := Suc (w_calls w)\<rparr>))"

section \<open>System calls\<close>

definition file_at :: "'c world \<Rightarrow> string \<Rightarrow> 'c option" where
  "file_at w path = map_of (w_files w) path"

definition set_file :: "string \<Rightarrow> 'c \<Rightarrow> 'c world \<Rightarrow> 'c world" where
  "set_file path c w = w\<lparr>w_files := AList.update path c (w_files w)\<rparr>"

definition drop_file :: "string \<Rightarrow> 'c world \<Rightarrow> 'c world" where
  "drop_file path w = w\<lparr>w_files := AList.delete path (w_files w)\<rparr>"

definition mode_at :: "'c world \<Rightarrow> string \<Rightarrow> nat option" where
  "mode_at w path = map_of (w_modes w) path"

definition set_mode :: "string \<Rightarrow> nat \<Rightarrow> 'c world \<Rightarrow> 'c world" where
  "set_mode path m w = w\<lparr>w_modes := AList.update path m (w_modes w)\<rparr>"

text \<open>\<open>os.MkdirAll\<close> makes the directory and its missing ancestors.\<close>

function ancestors :: "string \<Rightarrow> string list" where
  "ancestors p = (if path_dir p = p then [p] else p # ancestors (path_dir p))"
  by pat_completeness auto
termination
  by (relation "measure dir_measure") (auto intro: path_dir_less)

declare ancestors.simps [simp del]

definition os_mkdir_all :: "string \<Rightarrow> nat \<Rightarrow> ('c, unit) io" where
  "os_mkdir_all path m = sys (\<lambda>w.
     if \<exists>a \<in> set (ancestors path). file_at w a \<noteq> None then (Inl (ErrOS ''not a directory''), w)
     else (Inr (), fold (\<lambda>a. set_mode a m) (filter (\<lambda>a. a \<notin> set (w_dirs w)) (ancestors path))
                     (w\<lparr>w_dirs := List.union (ancestors path) (w_dirs w)\<rparr>)))"

definition os_chmod :: "string \<Rightarrow> nat \<Rightarrow> ('c, unit) io" where
  "os_chmod path m = sys (\<lambda>w.
     if file_at w path \<noteq> None \<or> path \<in> set (w_dirs w) then (Inr (), set_mode path m w)
     else (Inl ErrNotExist, w))"

definition os_stat :: "string \<Rightarrow> ('c, unit) io" where
  "os_stat path = sys (\<lambda>w.
     if file_at w path \<noteq> None \<or> path \<in> set (w_dirs w) then (Inr (), w) else (Inl ErrNotExist, w))"

definition os_open_dir :: "string \<Rightarrow> ('c, unit) io" where
  "os_open_dir path = sys (\<lambda>w.
     if file_at w path \<noteq> None \<or> path \<in> set (w_dirs w) then (Inr (), w) else (Inl ErrNotExist, w))"

definition os_read_file :: "string \<Rightarrow> ('c, 'c) io" where
  "os_read_file path = sys (\<lambda>w.
     case file_at w path of Some c \<Rightarrow> (Inr c, w) | None \<Rightarrow> (Inl ErrNotExist, w))"

definition children :: "'c world \<Rightarrow> string \<Rightarrow> string list" where
  "children w path =
     filter (\<lambda>p. p \<noteq> path \<and> path_dir p = path) (map fst (w_files w) @ w_dirs w)"

definition os_remove :: "string \<Rightarrow> ('c, unit) io" where
  "os_remove path = sys (\<lambda>w.
     if file_at w path \<noteq> None then (Inr (), drop_file path w)
     else if path \<in> set (w_dirs w) then
       if children w path \<noteq> [] then (Inl (ErrOS ''directory not empty''), w)
       else (Inr (), w\<lparr>w_dirs := removeAll path (w_dirs w)\<rparr>)
     else (Inl ErrNotExist, w))"

text \<open>
  \<open>os.CreateTemp\<close>: the name its retries settle on is drawn; an existing file is never
  reused. The file is made with mode \<open>0600\<close>, which is 384.
\<close>

definition temp_name :: "string \<Rightarrow> string" where
  "temp_name r = ''.write-'' @ itoa (foldl (\<lambda>n c. 256 * n + of_char c) 0 r) @ ''.tmp''"

definition os_create_temp :: "string \<Rightarrow> 'c \<Rightarrow> ('c, string) io" where
  "os_create_temp dir blank =
     io_bind (draw_random 4) (\<lambda>r. sys (\<lambda>w.
       let path = path_join dir (temp_name r)
       in if dir \<notin> set (w_dirs w) then (Inl ErrNotExist, w)
          else if file_at w path \<noteq> None \<or> path \<in> set (w_dirs w) then (Inl ErrExist, w)
          else (Inr path, set_mode path 384 (set_file path blank w))))"

definition os_write :: "string \<Rightarrow> 'c \<Rightarrow> ('c, unit) io" where
  "os_write path c = sys (\<lambda>w. (Inr (), set_file path c w))"

definition os_sync :: "('c, unit) io" where
  "os_sync = sys (\<lambda>w. (Inr (), w))"

definition os_close :: "('c, unit) io" where
  "os_close = sys (\<lambda>w. (Inr (), w))"

definition os_rename :: "string \<Rightarrow> string \<Rightarrow> ('c, unit) io" where
  "os_rename src dst = sys (\<lambda>w.
     case file_at w src of
       None \<Rightarrow> (Inl ErrNotExist, w)
     | Some c \<Rightarrow>
         if dst \<in> set (w_dirs w) then (Inl ErrExist, w)
         else if path_dir dst \<notin> set (w_dirs w) then (Inl ErrNotExist, w)
         else (Inr (), set_file dst c (drop_file src
                 (case mode_at w src of None \<Rightarrow> w | Some m \<Rightarrow> set_mode dst m w))))"

text \<open>\<open>os.ReadDir\<close>: the entries' names, sorted, each with whether it is a directory.\<close>

definition path_base :: "string \<Rightarrow> string" where
  "path_base p = last (path_parts p)"

definition entry_less :: "string \<times> bool \<Rightarrow> string \<times> bool \<Rightarrow> bool" where
  "entry_less a b \<longleftrightarrow> fst a < fst b"

definition os_read_dir :: "string \<Rightarrow> ('c, (string \<times> bool) list) io" where
  "os_read_dir path = sys (\<lambda>w.
     if path \<notin> set (w_dirs w) then (Inl ErrNotExist, w)
     else (Inr (sort_by entry_less
             (map (\<lambda>p. (path_base p, file_at w p = None)) (remdups (children w path)))), w))"

section \<open>Running steps\<close>

lemma io_bind_simps [simp]:
  "m w = (Inl e, w') \<Longrightarrow> io_bind m f w = (Inl e, w')"
  "m w = (Inr v, w') \<Longrightarrow> io_bind m f w = f v w'"
  by (simp_all add: io_bind_def)

lemma io_bind_Inr:
  assumes "io_bind m f w = (Inr y, w'')"
  obtains v w' where "m w = (Inr v, w')" "f v w' = (Inr y, w'')"
  using assms by (cases "m w"; cases "fst (m w)") (auto simp: io_bind_def)

text \<open>
  What an operation may touch: all files outside a set of paths keep their contents.
\<close>

definition preserves :: "string set \<Rightarrow> ('c, 'a) io \<Rightarrow> bool" where
  "preserves P m \<longleftrightarrow> (\<forall>w q. q \<notin> P \<longrightarrow> file_at (snd (m w)) q = file_at w q)"

lemma preserves_bind_res:
  assumes "preserves P m" "\<And>w v w'. m w = (Inr v, w') \<Longrightarrow> preserves P (f v)"
  shows "preserves P (io_bind m f)"
  unfolding preserves_def
proof (intro allI impI)
  fix w q assume q: "q \<notin> P"
  obtain r w' where m: "m w = (r, w')" by force
  have "file_at w' q = file_at w q" using assms(1) q m unfolding preserves_def by (metis snd_conv)
  with m q show "file_at (snd (io_bind m f w)) q = file_at w q"
    using assms(2) by (cases r) (auto simp: io_bind_def preserves_def)
qed

lemma preserves_bind:
  "preserves P m \<Longrightarrow> (\<And>v. preserves P (f v)) \<Longrightarrow> preserves P (io_bind m f)"
  by (rule preserves_bind_res)

lemma preserves_sys:
  assumes "\<And>w q. q \<notin> P \<Longrightarrow> file_at (snd (f w)) q = file_at w q"
  shows "preserves P (sys f)"
  using assms by (auto simp: preserves_def sys_def file_at_def split: option.splits)

lemma file_at_set [simp]: "file_at (set_file p c w) q = (if q = p then Some c else file_at w q)"
  by (simp add: file_at_def set_file_def update_conv')

lemma file_at_drop [simp]: "file_at (drop_file p w) q = (if q = p then None else file_at w q)"
  by (simp add: file_at_def drop_file_def delete_conv')

lemma file_at_dirs [simp]: "file_at (w\<lparr>w_dirs := ds\<rparr>) q = file_at w q"
  "file_at (w\<lparr>w_calls := n\<rparr>) q = file_at w q" "file_at (w\<lparr>w_reads := n\<rparr>) q = file_at w q"
  "file_at (w\<lparr>w_draws := n\<rparr>) q = file_at w q" "file_at (w\<lparr>w_modes := ms\<rparr>) q = file_at w q"
  "file_at (set_mode p m w) q = file_at w q"
  by (simp_all add: file_at_def set_mode_def)

lemma file_at_fold_mode [simp]: "file_at (fold (\<lambda>a. set_mode a m) as w) q = file_at w q"
  by (induction as arbitrary: w) simp_all

lemma preserves_pure [simp]:
  "preserves P (io_return v)" "preserves P (io_fail e)" "preserves P (io_lift r)"
  "preserves P read_clock" "preserves P (draw_random n)"
  by (simp_all add: preserves_def io_return_def io_fail_def io_lift_def read_clock_def draw_random_def)

lemma preserves_try: "preserves P m \<Longrightarrow> preserves P (io_try m)"
  by (auto simp: preserves_def io_try_def split: prod.splits) (metis snd_conv)

lemma preserves_calls [simp]:
  "preserves P (os_mkdir_all d m)" "preserves P (os_chmod p m)" "preserves P (os_stat p)"
  "preserves P (os_read_file p)" "preserves P (os_read_dir p)" "preserves P os_sync" "preserves P os_close"
  "preserves P (os_open_dir p)"
  unfolding os_mkdir_all_def os_chmod_def os_stat_def os_read_file_def os_read_dir_def os_sync_def os_close_def
    os_open_dir_def
  by (rule preserves_sys; auto split: option.splits)+

lemma preserves_remove: "p \<in> P \<Longrightarrow> preserves P (os_remove p)"
  unfolding os_remove_def by (rule preserves_sys) (auto split: option.splits)

lemma preserves_write: "p \<in> P \<Longrightarrow> preserves P (os_write p c)"
  unfolding os_write_def by (rule preserves_sys) auto

lemma preserves_rename: "p \<in> P \<Longrightarrow> q \<in> P \<Longrightarrow> preserves P (os_rename p q)"
  unfolding os_rename_def by (rule preserves_sys) (auto split: option.splits)

text \<open>Steps that touch no file at all, in sequences.\<close>

lemma keeps_files: "preserves {} m \<Longrightarrow> m w = (r, w') \<Longrightarrow> file_at w' = file_at w"
  unfolding preserves_def by (metis emptyE snd_conv ext)

lemma bind_keeps:
  assumes "preserves {} m" "io_bind m f w = (r, w')"
  obtains (fail) e where "r = Inl e" "file_at w' = file_at w"
  | (run) v w1 where "file_at w1 = file_at w" "f v w1 = (r, w')"
proof -
  obtain s w1 where m: "m w = (s, w1)" by force
  then have k: "file_at w1 = file_at w" using keeps_files [OF assms(1)] by blast
  show ?thesis
  proof (cases s)
    case (Inl e)
    then have "r = Inl e" "w' = w1" using assms(2) m by simp_all
    with k fail show ?thesis by blast
  next
    case (Inr v)
    with assms(2) m k run show ?thesis by simp
  qed
qed

lemma preserves_or_denied: "preserves P m \<Longrightarrow> preserves P (or_denied m)"
  by (auto simp: preserves_def or_denied_def split: prod.splits sum.splits) (metis snd_conv)+

lemma preserves_denied [simp]: "preserves P denied"
  by (simp add: denied_def)

lemma preserves_mono: "preserves P m \<Longrightarrow> P \<subseteq> Q \<Longrightarrow> preserves Q m"
  by (auto simp: preserves_def)

text \<open>A failing call changes no file.\<close>

lemma sys_cases:
  assumes "sys f w = (r, w')"
  obtains (fault) e where "r = Inl (ErrOS e)" "file_at w' = file_at w"
  | (ran) w1 where "w_files w1 = w_files w" "w_dirs w1 = w_dirs w" "file_at w1 = file_at w" "f w1 = (r, w')"
proof (cases "w_fault w (w_calls w)")
  case (Some e)
  with assms have "r = Inl (ErrOS e)" "w' = w\<lparr>w_calls := Suc (w_calls w)\<rparr>" by (simp_all add: sys_def)
  then show ?thesis by (intro fault [of e]) (simp_all add: fun_eq_iff)
next
  case None
  with assms have "f (w\<lparr>w_calls := Suc (w_calls w)\<rparr>) = (r, w')" by (simp add: sys_def)
  then show ?thesis by (intro ran) (simp_all add: fun_eq_iff)
qed

section \<open>Outcomes by their effect on files\<close>

text \<open>
  \<open>after fm m Q\<close>: run in any world whose files are \<open>fm\<close>, whatever the clock, the
  random source and the failures of system calls, \<open>m\<close> ends with a result and files
  that satisfy \<open>Q\<close>.
\<close>

definition after :: "(string \<Rightarrow> 'c option) \<Rightarrow> ('c, 'a) io \<Rightarrow> ('a res \<Rightarrow> (string \<Rightarrow> 'c option) \<Rightarrow> bool) \<Rightarrow> bool" where
  "after fm m Q \<longleftrightarrow> (\<forall>w. file_at w = fm \<longrightarrow> (case m w of (r, w') \<Rightarrow> Q r (file_at w')))"

lemma afterD: "after fm m Q \<Longrightarrow> file_at w = fm \<Longrightarrow> m w = (r, w') \<Longrightarrow> Q r (file_at w')"
  by (auto simp: after_def)

lemma afterI: "(\<And>w r w'. file_at w = fm \<Longrightarrow> m w = (r, w') \<Longrightarrow> Q r (file_at w')) \<Longrightarrow> after fm m Q"
  by (auto simp: after_def split: prod.splits)

lemma after_mono:
  "after fm m Q \<Longrightarrow> (\<And>r fm'. Q r fm' \<Longrightarrow> Q' r fm') \<Longrightarrow> after fm m Q'"
  by (fastforce simp: after_def split: prod.splits)

lemma after_bind:
  assumes "after fm m (\<lambda>r fm'. case r of Inl e \<Rightarrow> Q (Inl e) fm' | Inr v \<Rightarrow> after fm' (f v) Q)"
  shows "after fm (io_bind m f) Q"
proof (rule afterI)
  fix w r w' assume w: "file_at w = fm" and run: "io_bind m f w = (r, w')"
  obtain s w1 where m: "m w = (s, w1)" by force
  note post = afterD [OF assms w m]
  show "Q r (file_at w')"
  proof (cases s)
    case (Inl e)
    with post run m show ?thesis by simp
  next
    case (Inr v)
    with post have "after (file_at w1) (f v) Q" by simp
    from afterD [OF this refl] run m Inr show ?thesis by simp
  qed
qed

lemma after_try:
  assumes "after fm m (\<lambda>r. Q (Inr r))"
  shows "after fm (io_try m) Q"
  using assms by (auto simp: after_def io_try_def split: prod.splits)

lemma after_or_denied:
  assumes "after fm m (\<lambda>r fm'. case r of Inl _ \<Rightarrow> Q (Inl ErrAccessDenied) fm' | Inr v \<Rightarrow> Q (Inr v) fm')"
  shows "after fm (or_denied m) Q"
  using assms by (fastforce simp: after_def or_denied_def split: prod.splits sum.splits)

lemma after_pure:
  "Q (Inr v) fm \<Longrightarrow> after fm (io_return v) Q"
  "Q (Inl e) fm \<Longrightarrow> after fm (io_fail e) Q"
  "Q r fm \<Longrightarrow> after fm (io_lift r) Q"
  by (simp_all add: after_def io_return_def io_fail_def io_lift_def)

lemma after_denied: "Q (Inl ErrAccessDenied) fm \<Longrightarrow> after fm denied Q"
  by (simp add: denied_def after_pure)

lemma after_keeps: "preserves {} m \<Longrightarrow> (\<And>r. Q r fm) \<Longrightarrow> after fm m Q"
  by (rule afterI) (metis keeps_files)

lemma after_remove:
  assumes "\<And>e. Q (Inl e) fm" "Q (Inr ()) (fm(p := None))"
  shows "after fm (os_remove p) Q"
proof (rule afterI)
  fix w r w' assume w: "file_at w = fm" and run: "os_remove p w = (r, w')"
  from run show "Q r (file_at w')" unfolding os_remove_def
  proof (cases rule: sys_cases)
    case (ran w1)
    have "fm(p := None) = fm" if "fm p = None" using that by (simp add: fun_eq_iff)
    moreover have "file_at (drop_file p w1) = fm(p := None)" using ran(3) w by (simp add: fun_eq_iff)
    moreover have "file_at (w1\<lparr>w_dirs := ds\<rparr>) = fm" for ds using ran(3) w by (simp add: fun_eq_iff)
    ultimately show ?thesis using ran w assms by (auto split: if_splits)
  qed (use w assms(1) in simp)
qed

lemma after_if: "(c \<Longrightarrow> after fm a Q) \<Longrightarrow> (\<not> c \<Longrightarrow> after fm b Q) \<Longrightarrow> after fm (if c then a else b) Q"
  by simp
end
