(* ===== verification/Envelope.thy ===== *)
theory Envelope
  imports Capability World
begin

text \<open>
  Encrypted records on disk: package \<open>store\<close>, \<open>crypto.go\<close> and the file helpers
  of \<open>store.go\<close> and \<open>atomic_unix.go\<close>. AES-GCM is the pair \<open>aead_seal\<close>
  and \<open>aead_open\<close> of the library parameter; \<open>aes.NewCipher\<close> and
  \<open>cipher.NewGCM\<close> fail for other key lengths than the one checked just before.

  A stored file holds the JSON text of an envelope or other bytes. JSON text of an envelope is
  represented by the envelope itself (\<open>Env\<close>), everything that does not decode to one by
  \<open>Bytes\<close>; \<open>env_size\<close> is the length of the text.
\<close>

section \<open>Model\<close>

record envelope =
  en_format_version :: string
  en_record_kind :: string
  en_opaque_id :: string
  en_revision :: int
  en_created_at :: gtime
  en_expires_at :: gtime
  en_public_key :: string
  en_protected :: bool
  en_nonce :: string
  en_ciphertext :: string

datatype content = Env envelope | Bytes string

record cryptlib = caplib +
  aead_seal :: "string \<Rightarrow> string \<Rightarrow> string \<Rightarrow> string \<Rightarrow> string"
  aead_open :: "string \<Rightarrow> string \<Rightarrow> string \<Rightarrow> string \<Rightarrow> string option"
  env_size :: "envelope \<Rightarrow> int"
  sha256 :: "string \<Rightarrow> string"

definition encryptedFormatVersion :: string where
  "encryptedFormatVersion = ''are-encrypted-record/2.0''"

definition nonce_size :: nat where "nonce_size = 12"

definition auth_failed :: err where
  "auth_failed = errors_new ''encrypted record authentication failed''"

definition associatedData :: "envelope \<Rightarrow> string" where
  "associatedData e =
     en_format_version e @ CHR 0x00 # en_record_kind e @ CHR 0x00 # en_opaque_id e
     @ CHR 0x00 # itoa (en_revision e)
     @ CHR 0x00 # rfc3339nano (time_utc (en_created_at e))
     @ CHR 0x00 # rfc3339nano (time_utc (en_expires_at e))
     @ CHR 0x00 # en_public_key e
     @ CHR 0x00 # (if en_protected e then ''true'' else ''false'')"

definition decodeCanonicalBase64 :: "string \<Rightarrow> string option" where
  "decodeCanonicalBase64 value =
     (case b64_decode value of
        None \<Rightarrow> None
      | Some decoded \<Rightarrow> if b64_encode decoded \<noteq> value then None else Some decoded)"

text \<open>The plaintext argument is the JSON text of the record, or the error of marshalling it.\<close>

definition sealRecord ::
    "'z cryptlib_scheme \<Rightarrow> string \<Rightarrow> string \<Rightarrow> int \<Rightarrow> gtime \<Rightarrow> gtime \<Rightarrow> string \<Rightarrow> bool \<Rightarrow> string
       \<Rightarrow> string res \<Rightarrow> ('c, envelope) io" where
  "sealRecord L kind opaqueID revision createdAt expiresAt publicKey protected key plaintext =
     (if length key \<noteq> 32 \<or> kind = [] \<or> opaqueID = [] \<or> revision < 0 \<or> is_zero createdAt
         \<or> is_zero expiresAt
      then io_fail (errors_new ''invalid encrypted record parameters'')
      else io_bind (draw_random nonce_size) (\<lambda>nonce.
           io_bind (io_lift plaintext) (\<lambda>plain.
             let e = \<lparr>en_format_version = encryptedFormatVersion, en_record_kind = kind,
                      en_opaque_id = opaqueID, en_revision = revision,
                      en_created_at = time_utc createdAt, en_expires_at = time_utc expiresAt,
                      en_public_key = publicKey, en_protected = protected,
                      en_nonce = b64_encode nonce, en_ciphertext = []\<rparr>
             in io_return (e\<lparr>en_ciphertext := b64_encode (aead_seal L key nonce plain (associatedData e))\<rparr>))))"

definition openRecord ::
    "'z cryptlib_scheme \<Rightarrow> (string \<Rightarrow> 'v option) \<Rightarrow> envelope \<Rightarrow> string \<Rightarrow> 'v res" where
  "openRecord L unmarshal e key =
     (if length key \<noteq> 32 \<or> en_format_version e \<noteq> encryptedFormatVersion \<or> en_record_kind e = []
         \<or> en_opaque_id e = [] \<or> en_revision e < 0
      then Inl auth_failed
      else case decodeCanonicalBase64 (en_nonce e) of
        None \<Rightarrow> Inl auth_failed
      | Some nonce \<Rightarrow>
        if length nonce \<noteq> nonce_size then Inl auth_failed
        else case decodeCanonicalBase64 (en_ciphertext e) of
          None \<Rightarrow> Inl auth_failed
        | Some ciphertext \<Rightarrow>
          (case aead_open L key nonce ciphertext (associatedData e) of
             None \<Rightarrow> Inl auth_failed
           | Some plain \<Rightarrow>
             (case unmarshal plain of None \<Rightarrow> Inl auth_failed | Some v \<Rightarrow> Inr v)))"

text \<open>\<open>readJSON\<close> reads at most 128 MiB; longer text ends in the middle.\<close>

definition readJSON :: "'z cryptlib_scheme \<Rightarrow> string \<Rightarrow> (content, envelope) io" where
  "readJSON L path =
     io_bind (os_read_file path) (\<lambda>c.
       case c of
         Env e \<Rightarrow> if env_size L e > 128 * 1024 * 1024 then io_fail (ErrOS ''unexpected EOF'')
                  else io_return e
       | Bytes _ \<Rightarrow> io_fail (errors_new ''invalid JSON''))"

definition readEncryptedEnvelope :: "'z cryptlib_scheme \<Rightarrow> string \<Rightarrow> (content, envelope) io" where
  "readEncryptedEnvelope L path = readJSON L path"

text \<open>The modes \<open>0700\<close> and \<open>0600\<close>.\<close>

definition private_mode :: "bool \<Rightarrow> nat" where
  "private_mode directory = (if directory then 448 else 384)"

definition protectPrivatePath :: "string \<Rightarrow> bool \<Rightarrow> (content, unit) io" where
  "protectPrivatePath path directory = os_chmod path (private_mode directory)"

definition replaceFile :: "string \<Rightarrow> string \<Rightarrow> (content, unit) io" where
  "replaceFile source destination = os_rename source destination"

definition syncDirectory :: "string \<Rightarrow> (content, unit) io" where
  "syncDirectory path =
     io_bind (os_open_dir path) (\<lambda>_.
     io_bind (io_try os_sync) (\<lambda>r.
     io_bind (io_try os_close) (\<lambda>_. io_lift r)))"

text \<open>A step of \<open>atomicWriteJSON\<close> that closes the temporary file when it fails.\<close>

definition or_close :: "(content, unit) io \<Rightarrow> (content, unit) io" where
  "or_close m =
     io_bind (io_try m) (\<lambda>r.
       case r of Inr _ \<Rightarrow> io_return ()
       | Inl e \<Rightarrow> io_bind (io_try os_close) (\<lambda>_. io_fail e))"

definition sync_parent :: "string \<Rightarrow> (content, unit) io" where
  "sync_parent directory =
     io_bind (io_try (syncDirectory directory)) (\<lambda>r.
       case r of Inr _ \<Rightarrow> io_return ()
       | Inl e \<Rightarrow> io_fail (Errorf [Lit ''sync parent directory: '', Wrapped e]))"

definition move_into_place :: "string \<Rightarrow> string \<Rightarrow> string \<Rightarrow> (content, unit) io" where
  "move_into_place directory temporaryPath path =
     io_bind (or_close os_sync) (\<lambda>_.
     io_bind os_close (\<lambda>_.
     io_bind (replaceFile temporaryPath path) (\<lambda>_. sync_parent directory)))"

definition write_temp :: "string \<Rightarrow> string \<Rightarrow> string \<Rightarrow> envelope \<Rightarrow> (content, unit) io" where
  "write_temp directory temporaryPath path value =
     io_bind (or_close (protectPrivatePath temporaryPath False)) (\<lambda>_.
     io_bind (or_close (os_write temporaryPath (Env value))) (\<lambda>_.
     move_into_place directory temporaryPath path))"

definition atomicWriteJSON :: "string \<Rightarrow> envelope \<Rightarrow> (content, unit) io" where
  "atomicWriteJSON path value =
     io_bind (os_create_temp (path_dir path) (Bytes [])) (\<lambda>temporaryPath.
     io_bind (io_try (write_temp (path_dir path) temporaryPath path value)) (\<lambda>r.
       case r of
         Inr _ \<Rightarrow> io_return ()
       | Inl e \<Rightarrow> io_bind (io_try (os_remove temporaryPath)) (\<lambda>_. io_fail e)))"

section \<open>Atomic replacement\<close>

lemma keeps_or_close: "preserves {} m \<Longrightarrow> preserves {} (or_close m)"
  unfolding or_close_def
  by (intro preserves_bind preserves_try) (auto split: sum.splits intro!: preserves_bind preserves_try)

lemma keeps_sync [simp]: "preserves P (syncDirectory d)"
  unfolding syncDirectory_def by (intro preserves_bind preserves_try) simp_all

lemma keeps_chmod [simp]: "preserves P (protectPrivatePath p d)"
  by (simp add: protectPrivatePath_def)

lemma or_close_run:
  assumes "or_close m w = (r, w')"
  obtains e w1 where "m w = (Inl e, w1)" "r = Inl e" "file_at w' = file_at w1"
  | "m w = (Inr (), w')" "r = Inr ()"
proof -
  obtain s w1 where m: "m w = (s, w1)" by force
  show ?thesis
  proof (cases s)
    case (Inl e)
    obtain s2 w2 where c: "os_close w1 = (s2, w2)" by force
    then have "file_at w2 = file_at w1" using keeps_files preserves_calls(7) by blast
    then show ?thesis
      using that(1) [OF m [unfolded Inl]] assms m Inl c
      by (auto simp: or_close_def io_bind_def io_try_def io_fail_def)
  next
    case (Inr u)
    then show ?thesis
      using that(2) assms m by (auto simp: or_close_def io_bind_def io_try_def io_return_def)
  qed
qed

lemma keeps_sync_parent: "preserves {} (sync_parent d)"
  unfolding sync_parent_def by (intro preserves_bind preserves_try) (auto split: sum.splits)

lemma replaceFile_run:
  assumes "replaceFile tmp path w = (r, w')" "file_at w tmp = Some c" "tmp \<noteq> path"
  obtains e where "r = Inl e" "file_at w' = file_at w"
  | "r = Inr ()" "file_at w' = ((file_at w)(tmp := None))(path \<mapsto> c)"
  using assms(1) unfolding replaceFile_def os_rename_def
proof (cases rule: sys_cases)
  case (fault e)
  then show ?thesis using that(1) by blast
next
  case (ran w1)
  then show ?thesis
    using assms(2,3) that by (auto simp: fun_eq_iff split: option.splits if_splits)
qed

text \<open>Moving a filled temporary file into place either has no effect or all of it.\<close>

lemma move_states:
  assumes "move_into_place dir tmp path w = (r, w')" "file_at w tmp = Some c" "tmp \<noteq> path"
  shows "(\<exists>e. r = Inl e) \<and> file_at w' = file_at w \<or> file_at w' = ((file_at w)(tmp := None))(path \<mapsto> c)"
  using keeps_or_close [OF preserves_calls(6)] assms(1) [unfolded move_into_place_def]
proof (cases rule: bind_keeps)
  case (run v1 w1)
  note fm1 = run(1)
  from preserves_calls(7) run(2) show ?thesis
  proof (cases rule: bind_keeps)
    case (run v2 w2)
    obtain s w3 where m: "replaceFile tmp path w2 = (s, w3)" by force
    have "file_at w2 tmp = Some c" using run(1) fm1 assms(2) by simp
    from m this assms(3) show ?thesis
    proof (cases rule: replaceFile_run)
      case (1 e)
      with m run fm1 show ?thesis by auto
    next
      case 2
      with m run(2) have "sync_parent dir w3 = (r, w')" by simp
      from keeps_files [OF keeps_sync_parent this] 2 run(1) fm1 show ?thesis by simp
    qed
  qed (use fm1 in simp)
qed simp

lemma os_write_run:
  assumes "os_write p c w = (r, w')"
  obtains e where "r = Inl e" "file_at w' = file_at w" | "r = Inr ()" "file_at w' = (file_at w)(p \<mapsto> c)"
  using assms unfolding os_write_def
proof (cases rule: sys_cases)
  case (fault e)
  then show ?thesis using that(1) by blast
next
  case (ran w1)
  then show ?thesis using that(2) by (auto simp: fun_eq_iff)
qed

text \<open>The temporary file is never seen half done at the destination.\<close>

lemma write_temp_states:
  assumes "tmp \<noteq> path" "write_temp dir tmp path e w = (r, w')"
  shows "(\<exists>er. r = Inl er) \<and> (\<forall>q. q \<noteq> tmp \<longrightarrow> file_at w' q = file_at w q)
    \<or> file_at w' = ((file_at w)(tmp := None))(path \<mapsto> Env e)"
  using keeps_or_close [OF keeps_chmod] assms(2) [unfolded write_temp_def]
proof (cases rule: bind_keeps)
  case (run v1 w1)
  obtain s w2 where m: "or_close (os_write tmp (Env e)) w1 = (s, w2)" by force
  then show ?thesis
  proof (cases rule: or_close_run)
    case (1 er w3)
    from 1(1) have "file_at w3 = file_at w1" by (cases rule: os_write_run) auto
    with 1 m run show ?thesis by auto
  next
    case 2
    then have fm2: "file_at w2 = (file_at w)(tmp \<mapsto> Env e)"
      using run(1) by (cases rule: os_write_run) auto
    have "move_into_place dir tmp path w2 = (r, w')" using run(2) m 2 by simp
    from move_states [OF this _ assms(1)] fm2 show ?thesis by auto
  qed
qed simp

definition is_temp :: "string \<Rightarrow> string \<Rightarrow> bool" where
  "is_temp dir p \<longleftrightarrow> (\<exists>r. p = path_join dir (temp_name r))"

lemma os_create_temp_run:
  assumes "os_create_temp dir c w = (r, w')"
  obtains e where "r = Inl e" "file_at w' = file_at w"
  | tmp where "r = Inr tmp" "is_temp dir tmp" "file_at w tmp = None" "file_at w' = (file_at w)(tmp \<mapsto> c)"
proof -
  from preserves_pure(5) assms [unfolded os_create_temp_def] show ?thesis
  proof (cases rule: bind_keeps)
    case (fail e)
    then show ?thesis using that(1) by blast
  next
    case (run rnd w1)
    from run(2) show ?thesis
    proof (cases rule: sys_cases)
      case (fault e)
      then show ?thesis using run(1) that(1) by simp
    next
      case (ran w2)
      let ?tmp = "path_join dir (temp_name rnd)"
      have "is_temp dir ?tmp" by (auto simp: is_temp_def)
      with ran show ?thesis
        using run(1) that(1) that(2) [of ?tmp] by (auto simp: Let_def fun_eq_iff split: if_splits)
    qed
  qed
qed

lemma os_remove_only: "os_remove p w = (r, w') \<Longrightarrow> q \<noteq> p \<Longrightarrow> file_at w' q = file_at w q"
  using preserves_remove [of p "{p}"] unfolding preserves_def by (metis singletonD snd_conv insertI1)

text \<open>
  The contract of \<open>atomicWriteJSON\<close>, on every path of failures: success stores exactly the
  envelope and leaves nothing else; an error leaves the old file or, when only the final sync
  failed, the complete new one, and at most a temporary file behind.
\<close>

lemma atomicWriteJSON_states:
  assumes "\<not> is_temp (path_dir path) path" "atomicWriteJSON path e w = (r, w')"
  shows "r = Inr () \<and> file_at w' = (file_at w)(path \<mapsto> Env e)
    \<or> (\<exists>er. r = Inl er) \<and> file_at w' path \<in> {file_at w path, Some (Env e)}
       \<and> (\<forall>q. q \<noteq> path \<and> \<not> is_temp (path_dir path) q \<longrightarrow> file_at w' q = file_at w q)"
proof -
  let ?d = "path_dir path"
  obtain s w1 where c: "os_create_temp ?d (Bytes []) w = (s, w1)" by force
  then show ?thesis
  proof (cases rule: os_create_temp_run)
    case (1 er)
    with assms(2) c have "r = Inl er" "w' = w1" by (simp_all add: atomicWriteJSON_def)
    with 1 show ?thesis by simp
  next
    case (2 tmp)
    then have ne: "tmp \<noteq> path" using assms(1) by blast
    obtain t w2 where wt: "write_temp ?d tmp path e w1 = (t, w2)" by force
    note st = write_temp_states [OF ne wt]
    show ?thesis
    proof (cases t)
      case (Inr u)
      then have "file_at w2 = ((file_at w1)(tmp := None))(path \<mapsto> Env e)" using st by auto
      also have "\<dots> = (file_at w)(path \<mapsto> Env e)" using 2 by (simp add: fun_eq_iff)
      finally show ?thesis
        using assms(2) c 2 wt Inr
        by (simp add: atomicWriteJSON_def io_bind_def io_try_def io_return_def)
    next
      case (Inl er)
      obtain x w3 where rm: "os_remove tmp w2 = (x, w3)" by force
      have out: "r = Inl er" "w' = w3"
        using assms(2) c 2 wt Inl rm
        by (simp_all add: atomicWriteJSON_def io_bind_def io_try_def io_fail_def)
      have eq: "file_at w' q = file_at w2 q" if "q \<noteq> tmp" for q
        using os_remove_only [OF rm that] out by simp
      have w2: "file_at w2 q = file_at w q" if "q \<noteq> tmp" "q \<noteq> path" for q
        using st 2(4) that by auto
      have "file_at w2 path \<in> {file_at w path, Some (Env e)}" using st 2(4) ne by auto
      then have "file_at w' path \<in> {file_at w path, Some (Env e)}" using eq [of path] ne by simp
      moreover have "file_at w' q = file_at w q" if "q \<noteq> path" "\<not> is_temp ?d q" for q
      proof -
        have "q \<noteq> tmp" using that(2) 2(2) by blast
        then show ?thesis using eq w2 that(1) by simp
      qed
      ultimately show ?thesis using out(1) by blast
    qed
  qed
qed

section \<open>Sealing and opening\<close>

lemma decode_canonical_encode [simp]: "decodeCanonicalBase64 (b64_encode s) = Some s"
  by (simp add: decodeCanonicalBase64_def b64_decode_encode)

lemma decode_canonical_Some: "decodeCanonicalBase64 v = Some d \<longleftrightarrow> v = b64_encode d"
  by (auto simp: decodeCanonicalBase64_def b64_decode_encode split: option.splits if_splits)

lemma associatedData_ciphertext [simp]: "associatedData (e\<lparr>en_ciphertext := c\<rparr>) = associatedData e"
  by (simp add: associatedData_def)

definition aead_ok :: "'z cryptlib_scheme \<Rightarrow> bool" where
  "aead_ok L \<longleftrightarrow> (\<forall>k n p a. aead_open L k n (aead_seal L k n p a) a = Some p)"

text \<open>What sealing returns; the only step it takes in the world is one draw.\<close>

definition sealed_as ::
    "'z cryptlib_scheme \<Rightarrow> string \<Rightarrow> string \<Rightarrow> int \<Rightarrow> gtime \<Rightarrow> gtime \<Rightarrow> string \<Rightarrow> bool \<Rightarrow> string
       \<Rightarrow> string res \<Rightarrow> envelope \<Rightarrow> bool" where
  "sealed_as L kind opq rvn cr ex pub prot key plain e \<longleftrightarrow>
     (\<exists>nonce p. plain = Inr p \<and> length nonce = nonce_size \<and> length key = 32 \<and> kind \<noteq> [] \<and> opq \<noteq> []
        \<and> 0 \<le> rvn \<and> en_format_version e = encryptedFormatVersion \<and> en_record_kind e = kind
        \<and> en_opaque_id e = opq \<and> en_revision e = rvn \<and> en_created_at e = time_utc cr
        \<and> en_expires_at e = time_utc ex \<and> en_public_key e = pub \<and> en_protected e = prot
        \<and> en_nonce e = b64_encode nonce
        \<and> en_ciphertext e = b64_encode (aead_seal L key nonce p (associatedData e)))"

lemma draw_random_run:
  assumes "draw_random n w = (r, w')"
  shows "w' = w\<lparr>w_draws := Suc (w_draws w)\<rparr>" "r = Inr b \<Longrightarrow> length b = n"
  using assms by (auto simp: draw_random_def split: sum.splits)

lemma sealRecord_run:
  assumes "sealRecord L kind opq rvn cr ex pub prot key plain w = (Inr e, w')"
  shows "sealed_as L kind opq rvn cr ex pub prot key plain e" "w' = w\<lparr>w_draws := Suc (w_draws w)\<rparr>"
proof -
  have "\<not> (length key \<noteq> 32 \<or> kind = [] \<or> opq = [] \<or> rvn < 0 \<or> is_zero cr \<or> is_zero ex)"
    using assms by (auto simp: sealRecord_def io_fail_def split: if_splits)
  with assms obtain nonce p w1 where run: "draw_random nonce_size w = (Inr nonce, w1)" "plain = Inr p"
      "w' = w1" "e = (let e = \<lparr>en_format_version = encryptedFormatVersion, en_record_kind = kind,
                      en_opaque_id = opq, en_revision = rvn, en_created_at = time_utc cr,
                      en_expires_at = time_utc ex, en_public_key = pub, en_protected = prot,
                      en_nonce = b64_encode nonce, en_ciphertext = []\<rparr>
             in e\<lparr>en_ciphertext := b64_encode (aead_seal L key nonce p (associatedData e))\<rparr>)"
    and ok: "length key = 32" "kind \<noteq> []" "opq \<noteq> []" "0 \<le> rvn"
    by (auto simp: sealRecord_def io_lift_def io_return_def Let_def elim!: io_bind_Inr)
  show "w' = w\<lparr>w_draws := Suc (w_draws w)\<rparr>" using run draw_random_run(1) by blast
  have "length nonce = nonce_size" using run(1) draw_random_run(2) by blast
  moreover have "associatedData e = associatedData (e\<lparr>en_ciphertext := []\<rparr>)" by (simp add: associatedData_ciphertext)
  ultimately show "sealed_as L kind opq rvn cr ex pub prot key plain e"
    using run ok unfolding sealed_as_def by (intro exI [of _ nonce] exI [of _ p]) (simp add: Let_def)
qed

lemma openRecord_sealed:
  assumes "sealed_as L kind opq rvn cr ex pub prot key (Inr p) e" "aead_ok L"
  shows "openRecord L unmarshal e key = (case unmarshal p of None \<Rightarrow> Inl auth_failed | Some v \<Rightarrow> Inr v)"
  using assms by (auto simp: sealed_as_def openRecord_def aead_ok_def)

lemma openRecord_sealRecord:
  assumes "sealRecord L kind opq rvn cr ex pub prot key (Inr p) w = (Inr e, w')"
    "aead_ok L" "unmarshal p = Some v"
  shows "openRecord L unmarshal e key = Inr v"
  using openRecord_sealed [OF sealRecord_run(1) [OF assms(1)] assms(2), of unmarshal] assms(3) by simp

text \<open>Everything \<open>openRecord\<close> accepts was authenticated with the metadata of its envelope.\<close>

lemma openRecord_Inr:
  assumes "openRecord L unmarshal e key = Inr v"
  obtains nonce ct p where "en_nonce e = b64_encode nonce" "en_ciphertext e = b64_encode ct"
    "aead_open L key nonce ct (associatedData e) = Some p" "unmarshal p = Some v"
    "en_format_version e = encryptedFormatVersion" "length key = 32"
  using assms
  by (auto simp: openRecord_def decode_canonical_Some split: if_splits option.splits)

section \<open>Effects of the record helpers on files\<close>

lemma preserves_readJSON [simp]: "preserves P (readEncryptedEnvelope L p)"
  unfolding readEncryptedEnvelope_def readJSON_def
  by (intro preserves_bind) (auto split: content.splits)

lemma preserves_sealRecord [simp]: "preserves P (sealRecord L k opq rv cr ex pub prot key plain)"
  unfolding sealRecord_def Let_def by (auto intro!: preserves_bind)

lemma readEncryptedEnvelope_Inr:
  assumes "readEncryptedEnvelope L p w = (Inr e, w')"
  shows "file_at w p = Some (Env e)"
  using assms
  by (auto simp: readEncryptedEnvelope_def readJSON_def os_read_file_def sys_def io_return_def io_fail_def
      elim!: io_bind_Inr split: option.splits content.splits if_splits)

lemma after_read:
  assumes "\<And>e. Q (Inl e) fm" "\<And>e. fm p = Some (Env e) \<Longrightarrow> Q (Inr e) fm"
  shows "after fm (readEncryptedEnvelope L p) Q"
proof (rule afterI)
  fix w r w' assume w: "file_at w = fm" and run: "readEncryptedEnvelope L p w = (r, w')"
  have "file_at w' = fm" using keeps_files [OF preserves_readJSON run] w by simp
  then show "Q r (file_at w')" using assms w run readEncryptedEnvelope_Inr [of L p w] by (cases r) auto
qed

lemma after_seal:
  assumes "\<And>er. Q (Inl er) fm"
    "\<And>e. sealed_as L kind opq rvn cr ex pub prot key plain e \<Longrightarrow> Q (Inr e) fm"
  shows "after fm (sealRecord L kind opq rvn cr ex pub prot key plain) Q"
proof (rule afterI)
  fix w r w' assume w: "file_at w = fm"
    and run: "sealRecord L kind opq rvn cr ex pub prot key plain w = (r, w')"
  have "file_at w' = fm" using keeps_files [OF preserves_sealRecord run] w by simp
  then show "Q r (file_at w')" using assms run by (cases r) (auto dest!: sealRecord_run(1))
qed

lemma after_atomicWrite:
  assumes "\<not> is_temp (path_dir path) path" "Q (Inr ()) (fm(path \<mapsto> Env e))"
    "\<And>er fm'. fm' path \<in> {fm path, Some (Env e)} \<Longrightarrow>
       \<forall>q. q \<noteq> path \<and> \<not> is_temp (path_dir path) q \<longrightarrow> fm' q = fm q \<Longrightarrow> Q (Inl er) fm'"
  shows "after fm (atomicWriteJSON path e) Q"
proof (rule afterI)
  fix w r w' assume "file_at w = fm" "atomicWriteJSON path e w = (r, w')"
  with atomicWriteJSON_states [OF assms(1), of e w r w'] assms(2,3) show "Q r (file_at w')" by auto
qed

lemma preserves_write_temp:
  assumes "tmp \<in> P" "path \<in> P"
  shows "preserves P (write_temp dir tmp path e)"
  unfolding write_temp_def move_into_place_def or_close_def replaceFile_def sync_parent_def
  by (intro preserves_bind preserves_try) (auto intro!: preserves_bind preserves_try preserves_write preserves_rename assms split: sum.splits)

lemma preserves_atomicWrite:
  assumes "path \<in> P" "\<And>q. is_temp (path_dir path) q \<Longrightarrow> q \<in> P"
  shows "preserves P (atomicWriteJSON path e)"
  unfolding atomicWriteJSON_def
proof (rule preserves_bind_res)
  have "file_at w' q = file_at w q" if "os_create_temp (path_dir path) (Bytes []) w = (r, w')" "q \<notin> P" for w r w' q
    using that(1) by (cases rule: os_create_temp_run) (use assms(2) that(2) in auto)
  then show "preserves P (os_create_temp (path_dir path) (Bytes []))" unfolding preserves_def by (metis prod.collapse)
  fix w tmp w' assume "os_create_temp (path_dir path) (Bytes []) w = (Inr tmp, w')"
  then have "tmp \<in> P" by (cases rule: os_create_temp_run) (use assms(2) in auto)
  then show "preserves P (io_bind (io_try (write_temp (path_dir path) tmp path e)) (\<lambda>r.
      case r of Inr _ \<Rightarrow> io_return () | Inl e \<Rightarrow> io_bind (io_try (os_remove tmp)) (\<lambda>_. io_fail e)))"
    by (intro preserves_bind preserves_try preserves_write_temp assms(1))
      (auto intro!: preserves_bind preserves_try preserves_remove split: sum.splits)
qed

section \<open>Properties\<close>

text \<open>Data for the witnesses: a transparent cipher, a quiet machine, one record.\<close>

definition demo_world :: "content world" where
  "demo_world = \<lparr>w_files = [], w_dirs = [''/s'', ''/s/tasks'', ''/s/reports'', ''/s/grants'', ''/s/events''],
     w_modes = [], w_fault = (\<lambda>_. None), w_calls = 0, w_clock = (\<lambda>n. time_of_unix (int n)), w_reads = 0,
     w_rand = (\<lambda>_. Inr (\<lambda>_. CHR ''r'')), w_draws = 0\<rparr>"

definition demo_cryptlib :: cryptlib where
  "demo_cryptlib = \<lparr>json_owner = json_owner demo_caplib, unjson_owner = unjson_owner demo_caplib,
     json_executor = json_executor demo_caplib, unjson_executor = unjson_executor demo_caplib,
     json_claims = json_claims demo_caplib, ed_public = ed_public demo_caplib,
     ed_sign = ed_sign demo_caplib, ed_verify = ed_verify demo_caplib,
     aead_seal = (\<lambda>k n p a. p), aead_open = (\<lambda>k n c a. Some c), env_size = (\<lambda>_. 100), sha256 = (\<lambda>s. s)\<rparr>"

definition demo_key :: string where
  "demo_key = replicate 32 CHR ''k''"

lemma demo_sealed:
  "sealRecord demo_cryptlib ''task'' ''id'' 0 (time_of_unix 0) (time_of_unix 9) ''pub'' False demo_key (Inr ''text'') demo_world
     = (Inr (projr (fst (sealRecord demo_cryptlib ''task'' ''id'' 0 (time_of_unix 0) (time_of_unix 9) ''pub'' False demo_key (Inr ''text'') demo_world))),
        snd (sealRecord demo_cryptlib ''task'' ''id'' 0 (time_of_unix 0) (time_of_unix 9) ''pub'' False demo_key (Inr ''text'') demo_world))"
  by (simp add: sealRecord_def io_bind_def draw_random_def io_lift_def io_return_def Let_def demo_key_def
      demo_world_def is_zero_def time_of_unix_def unix_epoch_def second_ns_def)

text \<open>
  A record opened with the key it was sealed with is the record that was sealed, whatever
  its metadata. Relied on: the cipher opens what it sealed, and JSON decodes what it encoded for this record.
\<close>

theorem record_roundtrip:
  assumes "sealRecord L kind opq rvn cr ex pub prot key (Inr p) w = (Inr e, w')"
    "aead_ok L" "unmarshal p = Some v"
  shows "openRecord L unmarshal e key = Inr v"
  by (rule openRecord_sealRecord) (rule assms)+

theorem record_roundtrip_witness:
  "openRecord demo_cryptlib Some
     (projr (fst (sealRecord demo_cryptlib ''task'' ''id'' 0 (time_of_unix 0) (time_of_unix 9) ''pub'' False demo_key (Inr ''text'') demo_world)))
     demo_key = Inr ''text''"
  by (rule record_roundtrip [OF demo_sealed])
    (simp_all add: aead_ok_def demo_world_def demo_cryptlib_def)

lemma nul_not_digit [simp]: "CHR 0x00 \<notin> set (dec_digits n)" "CHR 0x00 \<notin> set (itoa n)"
  using dec_digits_digits [of "CHR 0x00"] by (auto simp: itoa_def is_digit_def)

lemma nul_notin_pad [simp]: "CHR 0x00 \<notin> set (pad_int n i)"
  by (simp add: pad_int_def pad_digits_def Let_def)

lemma nul_notin_time [simp]: "CHR 0x00 \<notin> set (rfc3339nano t)"
proof -
  have "CHR 0x00 \<notin> set (frac_text n)" for n
    by (auto simp: frac_text_def dest!: set_dropWhileD)
  moreover have "CHR 0x00 \<notin> set (zone_text n)" for n
    by (simp add: zone_text_def Let_def)
  ultimately show ?thesis by (simp add: rfc3339nano_def Let_def split: prod.splits)
qed

definition nul_free :: "envelope \<Rightarrow> bool" where
  "nul_free e \<longleftrightarrow> CHR 0x00 \<notin> set (en_format_version e) \<union> set (en_record_kind e)
     \<union> set (en_opaque_id e) \<union> set (en_public_key e)"

text \<open>
  The cipher's associated data pins the metadata down: for fields without zero bytes, two
  envelopes with the same associated data agree in format, kind, opaque id, revision, public
  key and protection, and show the same creation and expiry time.
\<close>

theorem metadata_bound:
  assumes "nul_free e" "nul_free f" "associatedData e = associatedData f"
  shows "en_format_version e = en_format_version f \<and> en_record_kind e = en_record_kind f
    \<and> en_opaque_id e = en_opaque_id f \<and> en_revision e = en_revision f
    \<and> en_public_key e = en_public_key f \<and> en_protected e = en_protected f
    \<and> rfc3339nano (time_utc (en_created_at e)) = rfc3339nano (time_utc (en_created_at f))
    \<and> rfc3339nano (time_utc (en_expires_at e)) = rfc3339nano (time_utc (en_expires_at f))"
  using assms by (simp add: associatedData_def nul_free_def sep_append_inject split: if_splits)

definition demo_envelope :: envelope where
  "demo_envelope = \<lparr>en_format_version = encryptedFormatVersion, en_record_kind = ''task'', en_opaque_id = ''id'',
     en_revision = 0, en_created_at = time_of_unix 0, en_expires_at = time_of_unix 9, en_public_key = ''pub'',
     en_protected = False, en_nonce = [], en_ciphertext = []\<rparr>"

theorem metadata_bound_witness:
  "associatedData demo_envelope \<noteq> associatedData (demo_envelope\<lparr>en_protected := True\<rparr>)"
proof
  assume "associatedData demo_envelope = associatedData (demo_envelope\<lparr>en_protected := True\<rparr>)"
  from metadata_bound [OF _ _ this] show False
    by (simp add: nul_free_def demo_envelope_def encryptedFormatVersion_def)
qed

lemma proper_temp_name: "proper (temp_name r)"
  by (auto simp: temp_name_def proper_def)

lemma record_not_temp:
  assumes "list_all proper cs" "proper (n @ ''.are'')"
  shows "\<not> is_temp (path_dir (abs_path (cs @ [n @ ''.are'']))) (abs_path (cs @ [n @ ''.are'']))"
proof
  assume "is_temp (path_dir (abs_path (cs @ [n @ ''.are'']))) (abs_path (cs @ [n @ ''.are'']))"
  then obtain r where r: "abs_path (cs @ [n @ ''.are'']) = path_join (abs_path cs) (temp_name r)"
    using assms by (auto simp: is_temp_def path_dir_snoc)
  also have "\<dots> = abs_path (cs @ [temp_name r])"
    using path_join_abs [of cs "[temp_name r]"] assms(1) proper_temp_name by simp
  finally have "n @ ''.are'' = temp_name r"
    using assms proper_temp_name abs_path_inject [of "cs @ [n @ ''.are'']" "cs @ [temp_name r]"] by simp
  then have "last (n @ ''.are'') = last (temp_name r)" by simp
  then show False by (simp add: temp_name_def)
qed

text \<open>
  C30: Writing a record is atomic under every pattern of failing system calls: on success the
  file holds exactly the new record and no other file has changed; on an error the file holds
  its old contents or the complete new record, never a partial one, and no other file has
  changed except leftover temporary files of this directory.
\<close>

theorem atomic_write:
  assumes "\<not> is_temp (path_dir path) path" "atomicWriteJSON path e w = (r, w')"
  shows "r = Inr () \<and> file_at w' = (file_at w)(path \<mapsto> Env e)
    \<or> (\<exists>er. r = Inl er) \<and> file_at w' path \<in> {file_at w path, Some (Env e)}
       \<and> (\<forall>q. q \<noteq> path \<and> \<not> is_temp (path_dir path) q \<longrightarrow> file_at w' q = file_at w q)"
  by (rule atomicWriteJSON_states [OF assms])


theorem atomic_write_witness:
  "file_at (snd (atomicWriteJSON ''/s/tasks/id.are'' demo_envelope demo_world)) ''/s/tasks/id.are'' = Some (Env demo_envelope)"
proof -
  have p: "''/s/tasks/id.are'' = abs_path ([''s'', ''tasks''] @ [''id'' @ ''.are''])" by (simp add: abs_path_def)
  have "\<not> is_temp (path_dir ''/s/tasks/id.are'') ''/s/tasks/id.are''"
    unfolding p by (rule record_not_temp) (simp_all add: proper_def)
  moreover have "is_ok (fst (atomicWriteJSON ''/s/tasks/id.are'' demo_envelope demo_world))" by code_simp
  ultimately show ?thesis
    using atomic_write [of "''/s/tasks/id.are''" demo_envelope demo_world
        "fst (atomicWriteJSON ''/s/tasks/id.are'' demo_envelope demo_world)"
        "snd (atomicWriteJSON ''/s/tasks/id.are'' demo_envelope demo_world)"] by auto
qed

end
