(* ===== verification/Windows_Files.thy ===== *)
theory Windows_Files
  imports Path_Alias Fs_Observe Envelope
begin

text \<open>
  The file adapters of a Windows build: the identity of an object (\<open>identity_windows.go\<close> of
  \<open>fsobserve\<close> and of \<open>pathalias\<close>), replacing a file (\<open>atomic_windows.go\<close>) and
  its access list (\<open>permissions_windows.go\<close>). The calls of the Windows API are parameters;
  their flags are symbolic.
\<close>

section \<open>The API\<close>

text \<open>\<open>UTF16PtrFromString\<close> refuses a string with a NUL byte.\<close>

definition UTF16PtrFromString :: "string \<Rightarrow> string res" where
  "UTF16PtrFromString s = (if CHR 0x00 \<in> set s then Inl (ErrOS ''invalid argument'') else Inr s)"

datatype file_flag =
    FILE_SHARE_READ | FILE_SHARE_WRITE | FILE_SHARE_DELETE
  | FILE_FLAG_BACKUP_SEMANTICS | FILE_FLAG_OPEN_REPARSE_POINT

datatype move_flag = MOVEFILE_REPLACE_EXISTING | MOVEFILE_WRITE_THROUGH

datatype security_flag = DACL_SECURITY_INFORMATION | PROTECTED_DACL_SECURITY_INFORMATION

record by_handle_info =
  bh_volume :: int
  bh_index_high :: int
  bh_index_low :: int

text \<open>One \<open>EXPLICIT_ACCESS\<close> entry of an access list: full access granted to a user.\<close>

record explicit_access =
  ea_generic_all :: bool
  ea_grant :: bool
  ea_inherit :: bool
  ea_trustee_sid :: string

record win_api =
  wa_create_file :: "string \<Rightarrow> file_flag list \<Rightarrow> file_flag list \<Rightarrow> nat res"
  wa_file_info :: "nat \<Rightarrow> by_handle_info res"
  wa_move_file_ex :: "string \<Rightarrow> string \<Rightarrow> move_flag list \<Rightarrow> (content, unit) io"
  wa_token_user :: "string res"
  wa_acl_from_entries :: "explicit_access list \<Rightarrow> explicit_access list res"
  wa_set_security :: "string \<Rightarrow> security_flag list \<Rightarrow> explicit_access list \<Rightarrow> (content, unit) io"

section \<open>Identities\<close>

definition windows_identity_text :: "by_handle_info \<Rightarrow> file_mode \<Rightarrow> string" where
  "windows_identity_text bh ty =
     itoa (bh_volume bh) @ '':'' @ itoa (bh_index_high bh) @ '':'' @ itoa (bh_index_low bh) @ '':'' @ itoa (uint ty)"

definition objectIdentity_windows :: "win_api \<Rightarrow> string \<Rightarrow> finfo \<Rightarrow> string res" where
  "objectIdentity_windows wa path info =
     and_then (UTF16PtrFromString path) (\<lambda>pathPtr.
     and_then (wa_create_file wa pathPtr [FILE_SHARE_READ, FILE_SHARE_WRITE, FILE_SHARE_DELETE]
                 [FILE_FLAG_BACKUP_SEMANTICS, FILE_FLAG_OPEN_REPARSE_POINT]) (\<lambda>handle.
     and_then (wa_file_info wa handle) (\<lambda>fileInfo.
       Inr (windows_identity_text fileInfo (fi_mode info AND ModeType)))))"

definition stableIdentity_windows :: "win_api \<Rightarrow> os_view \<Rightarrow> string \<Rightarrow> string res" where
  "stableIdentity_windows wa os path =
     and_then (lstat os path) (\<lambda>info.
     and_then (UTF16PtrFromString path) (\<lambda>pathPtr.
     and_then (wa_create_file wa pathPtr [FILE_SHARE_READ, FILE_SHARE_WRITE, FILE_SHARE_DELETE]
                 [FILE_FLAG_BACKUP_SEMANTICS, FILE_FLAG_OPEN_REPARSE_POINT]) (\<lambda>handle.
     and_then (wa_file_info wa handle) (\<lambda>fileInfo.
       Inr (windows_identity_text fileInfo (fi_mode info AND ModeType))))))"

section \<open>Replacing and protecting files\<close>

definition replaceFile_windows :: "win_api \<Rightarrow> string \<Rightarrow> string \<Rightarrow> (content, unit) io" where
  "replaceFile_windows wa source destination =
     io_bind (io_lift (UTF16PtrFromString source)) (\<lambda>sourcePointer.
     io_bind (io_lift (UTF16PtrFromString destination)) (\<lambda>destinationPointer.
       wa_move_file_ex wa sourcePointer destinationPointer [MOVEFILE_REPLACE_EXISTING, MOVEFILE_WRITE_THROUGH]))"

definition syncDirectory_windows :: "string \<Rightarrow> (content, unit) io" where
  "syncDirectory_windows path = io_return ()"

definition protectPrivatePath_windows :: "win_api \<Rightarrow> string \<Rightarrow> bool \<Rightarrow> (content, unit) io" where
  "protectPrivatePath_windows wa path directory =
     io_bind (io_lift (wa_token_user wa)) (\<lambda>sid.
     io_bind (io_lift (wa_acl_from_entries wa
                 [\<lparr>ea_generic_all = True, ea_grant = True, ea_inherit = directory, ea_trustee_sid = sid\<rparr>])) (\<lambda>acl.
       wa_set_security wa path [DACL_SECURITY_INFORMATION, PROTECTED_DACL_SECURITY_INFORMATION] acl))"

section \<open>Properties\<close>

text \<open>
  The identity text determines volume, file index and type, and the two packages compute the same
  one, so a root bound by the alias table is compared with the object that was observed.
\<close>

lemma windows_identity_inject:
  "windows_identity_text b t = windows_identity_text b' t' \<longleftrightarrow>
     bh_volume b = bh_volume b' \<and> bh_index_high b = bh_index_high b' \<and> bh_index_low b = bh_index_low b' \<and> t = t'"
  by (auto simp: windows_identity_text_def sep_append_inject word_uint_eq_iff)

lemma windows_identities_agree:
  "lstat os path = Inr info \<Longrightarrow> stableIdentity_windows wa os path = objectIdentity_windows wa path info"
  by (simp add: stableIdentity_windows_def objectIdentity_windows_def)

text \<open>
  When moving a file is one system call that replaces the destination, the Windows file
  operations of an atomic write are those of Unix on names without NUL, and only the file
  moved and its destination can change.
\<close>

lemma replaceFile_windows_unix:
  assumes "\<And>a b. wa_move_file_ex wa a b [MOVEFILE_REPLACE_EXISTING, MOVEFILE_WRITE_THROUGH] = os_rename a b"
    "CHR 0x00 \<notin> set source" "CHR 0x00 \<notin> set destination"
  shows "replaceFile_windows wa source destination = replaceFile source destination"
  using assms by (simp add: fun_eq_iff replaceFile_windows_def replaceFile_def UTF16PtrFromString_def io_bind_def io_lift_def)

lemma replaceFile_windows_frame:
  assumes "\<And>a b. wa_move_file_ex wa a b [MOVEFILE_REPLACE_EXISTING, MOVEFILE_WRITE_THROUGH] = os_rename a b"
  shows "preserves {source, destination} (replaceFile_windows wa source destination)"
proof (cases "CHR 0x00 \<in> set source \<or> CHR 0x00 \<in> set destination")
  case True
  then have "replaceFile_windows wa source destination = io_fail (ErrOS ''invalid argument'')"
    by (auto simp: fun_eq_iff replaceFile_windows_def UTF16PtrFromString_def io_bind_def io_lift_def io_fail_def)
  then show ?thesis by simp
next
  case False
  then show ?thesis using replaceFile_windows_unix [OF assms] preserves_rename [of source "{source, destination}" destination]
    by (simp add: replaceFile_def)
qed

text \<open>
  A protected path gets an access list with the current user as the only entry, cut off from what
  its directory would pass on; a directory passes its own list on.
\<close>

lemma protectPrivatePath_windows_exact:
  assumes "wa_token_user wa = Inr sid" "\<And>es. wa_acl_from_entries wa es = Inr es"
  shows "protectPrivatePath_windows wa path directory
    = wa_set_security wa path [DACL_SECURITY_INFORMATION, PROTECTED_DACL_SECURITY_INFORMATION]
        [\<lparr>ea_generic_all = True, ea_grant = True, ea_inherit = directory, ea_trustee_sid = sid\<rparr>]"
  using assms by (simp add: fun_eq_iff protectPrivatePath_windows_def io_bind_def io_lift_def)

end
