(* ===== verification/Owned_Store.thy ===== *)
theory Owned_Store
  imports Envelope Path_Alias Correlate
begin

text \<open>
  Package \<open>store\<close>: the encrypted records of tasks, reports and retrospective grants
  (\<open>owned.go\<close>, \<open>types.go\<close>, \<open>Open\<close> and \<open>reportDigest\<close> of
  \<open>store.go\<close>). Every operation runs under the store's mutex from its first to its last
  line, so an operation is one function on worlds. JSON of the four record types is a
  parameter of the library record, as is the order in which Go visits the grant map.
  A configured clock is a function of the machine's clock, \<open>time.Now\<close> being the identity.
\<close>

section \<open>Types\<close>

record executor_grant =
  xg_append_key :: string
  xg_expires_at :: gtime
  xg_allowed_types :: "string list"
  xg_allowed_roots :: "string list"

record task_record =
  tr_task_id :: string
  tr_state :: task_state
  tr_created_at :: gtime
  tr_heartbeat_at :: gtime
  tr_baseline :: fs_baseline
  tr_process_baseline :: proc_baseline
  tr_events :: "summary list"
  tr_aliases :: alias_table
  tr_observation_mode :: observation_mode
  tr_recovery_profile :: recovery_profile
  tr_executor_grants :: "(string \<times> executor_grant) list"

record report_record =
  rr_report :: report
  rr_completed_at :: gtime
  rr_retained :: bool
  rr_digest :: string
  rr_original_digest :: string
  rr_exact_targets :: "(string \<times> string) list"
  rr_aliases :: alias_table
  rr_revisions :: "verification_revision list"

record owned_evidence =
  oe_exact_targets :: "(string \<times> string) list"
  oe_aliases :: alias_table

record owned_task_metadata =
  om_aliases :: alias_table
  om_observation_mode :: observation_mode
  om_recovery_profile :: recovery_profile

record retrospective_grant =
  rg_scope :: task_scope
  rg_started_at :: gtime
  rg_ended_at :: gtime
  rg_created_at :: gtime
  rg_expires_at :: gtime

record executor_batch =
  eb_grant_id :: string
  eb_events :: "summary list"

record config =
  cf_capacity :: int
  cf_retention :: duration
  cf_interruption :: duration
  cf_clock :: "(gtime \<Rightarrow> gtime) option"

record store =
  st_home :: string
  st_tasks_dir :: string
  st_reports_dir :: string
  st_grants_dir :: string
  st_events_dir :: string
  st_config :: config

record storelib = cryptlib +
  json_task :: "task_record \<Rightarrow> string res"
  unjson_task :: "string \<Rightarrow> task_record option"
  json_report_record :: "report_record \<Rightarrow> string res"
  unjson_report_record :: "string \<Rightarrow> report_record option"
  json_grant :: "retrospective_grant \<Rightarrow> string res"
  unjson_grant :: "string \<Rightarrow> retrospective_grant option"
  json_batch :: "executor_batch \<Rightarrow> string res"
  unjson_batch :: "string \<Rightarrow> executor_batch option"
  json_report :: "report \<Rightarrow> string res"
  range_grants :: "(string \<times> executor_grant) list \<Rightarrow> (string \<times> executor_grant) list"

section \<open>Opening a store\<close>

definition WithCapacity :: "int \<Rightarrow> config \<Rightarrow> config" where
  "WithCapacity bytes c = c\<lparr>cf_capacity := bytes\<rparr>"

definition WithRetention :: "duration \<Rightarrow> config \<Rightarrow> config" where
  "WithRetention d c = c\<lparr>cf_retention := d\<rparr>"

definition WithInterruption :: "duration \<Rightarrow> config \<Rightarrow> config" where
  "WithInterruption d c = c\<lparr>cf_interruption := d\<rparr>"

definition WithClock :: "(gtime \<Rightarrow> gtime) option \<Rightarrow> config \<Rightarrow> config" where
  "WithClock f c = c\<lparr>cf_clock := f\<rparr>"

definition default_config :: config where
  "default_config = \<lparr>cf_capacity = 100 * 1024 * 1024, cf_retention = 7 * 24 * hour_ns,
     cf_interruption = 24 * hour_ns, cf_clock = Some id\<rparr>"

fun make_private_dirs :: "string list \<Rightarrow> (content, unit) io" where
  "make_private_dirs [] = io_return ()"
| "make_private_dirs (d # ds) =
     io_bind (os_mkdir_all d (private_mode True)) (\<lambda>_.
     io_bind (protectPrivatePath d True) (\<lambda>_. make_private_dirs ds))"

definition Open :: "string res \<Rightarrow> string \<Rightarrow> (config \<Rightarrow> config) list \<Rightarrow> (content, store) io" where
  "Open cwd home options =
     (if home = [] then io_fail (errors_new ''store home is required'')
      else io_bind (io_lift (path_abs cwd home)) (\<lambda>absolute.
        let configuration = fold (\<lambda>option c. option c) options default_config
        in if cf_capacity configuration \<le> 0 \<or> cf_retention configuration \<le> 0
              \<or> cf_interruption configuration \<le> 0 \<or> cf_clock configuration = None
           then io_fail (errors_new ''store configuration is invalid'')
           else let s = \<lparr>st_home = absolute, st_tasks_dir = path_join absolute ''tasks'',
                         st_reports_dir = path_join absolute ''reports'',
                         st_grants_dir = path_join absolute ''grants'',
                         st_events_dir = path_join absolute ''events'', st_config = configuration\<rparr>
                in io_bind (make_private_dirs [st_home s, st_tasks_dir s, st_reports_dir s,
                              st_grants_dir s, st_events_dir s]) (\<lambda>_. io_return s)))"

section \<open>Helpers\<close>

text \<open>\<open>s.config.clock().UTC()\<close>; calling a nil clock panics.\<close>

definition store_clock :: "store \<Rightarrow> (content, gtime) io" where
  "store_clock s =
     (case cf_clock (st_config s) of
        None \<Rightarrow> io_fail (GoPanic ''nil function call'')
      | Some f \<Rightarrow> io_bind read_clock (\<lambda>t. io_return (time_utc (f t))))"

definition ownedTaskPath :: "store \<Rightarrow> string \<Rightarrow> string" where
  "ownedTaskPath s opaqueID = path_join (st_tasks_dir s) (opaqueID @ ''.are'')"

definition ownedReportPath :: "store \<Rightarrow> string \<Rightarrow> string" where
  "ownedReportPath s opaqueID = path_join (st_reports_dir s) (opaqueID @ ''.are'')"

definition ownedGrantPath :: "store \<Rightarrow> string \<Rightarrow> string" where
  "ownedGrantPath s opaqueID = path_join (st_grants_dir s) (opaqueID @ ''.are'')"

definition ownedEventDir :: "store \<Rightarrow> string \<Rightarrow> string" where
  "ownedEventDir s opaqueID = path_join (st_events_dir s) opaqueID"

definition ownerPublicKey :: "'z caplib_scheme \<Rightarrow> owner \<Rightarrow> string" where
  "ownerPublicKey L ow = b64_encode (ed_public L (o_signing_seed ow))"

definition writeOwnedProtected ::
    "'z cryptlib_scheme \<Rightarrow> string \<Rightarrow> string \<Rightarrow> owner \<Rightarrow> int \<Rightarrow> gtime \<Rightarrow> gtime \<Rightarrow> bool \<Rightarrow> string res
       \<Rightarrow> (content, unit) io" where
  "writeOwnedProtected L path kind ow revision createdAt expiresAt protected value =
     io_bind (sealRecord L kind (o_opaque_id ow) revision createdAt expiresAt (ownerPublicKey L ow)
                protected (o_record_key ow) value) (\<lambda>e. atomicWriteJSON path e)"

definition writeOwned ::
    "'z cryptlib_scheme \<Rightarrow> string \<Rightarrow> string \<Rightarrow> owner \<Rightarrow> int \<Rightarrow> gtime \<Rightarrow> gtime \<Rightarrow> string res
       \<Rightarrow> (content, unit) io" where
  "writeOwned L path kind ow revision createdAt expiresAt value =
     writeOwnedProtected L path kind ow revision createdAt expiresAt False value"

definition executorAllows :: "string list \<Rightarrow> summary list \<Rightarrow> bool" where
  "executorAllows allowed summaries \<longleftrightarrow>
     (if length allowed = 0 then True
      else list_all (\<lambda>su. event_type_string (su_type su) \<in> set allowed) summaries)"

definition cloneTargets :: "(string \<times> string) list \<Rightarrow> (string \<times> string) list" where
  "cloneTargets input =
     (if length input = 0 then [] else fold (\<lambda>(key, v) result. AList.update key v result) input [])"

definition reportDigest :: "'z storelib_scheme \<Rightarrow> report \<Rightarrow> string res" where
  "reportDigest L r =
     and_then (json_report L r) (\<lambda>encoded. Inr (''sha256:'' @ to_hex (sha256 L encoded)))"

fun remove_entries :: "string \<Rightarrow> (string \<times> bool) list \<Rightarrow> (content, unit) io" where
  "remove_entries directory [] = io_return ()"
| "remove_entries directory ((name, is_dir) # entries) =
     (if is_dir then io_fail (errors_new ''unexpected nested executor event directory'')
      else io_bind (os_remove (path_join directory name)) (\<lambda>_. remove_entries directory entries))"

definition removeDirectoryFiles :: "string \<Rightarrow> (content, unit) io" where
  "removeDirectoryFiles directory =
     io_bind (io_try (os_read_dir directory)) (\<lambda>r.
       case r of
         Inl e \<Rightarrow> if err_is ErrNotExist e then io_return () else io_fail e
       | Inr entries \<Rightarrow> io_bind (remove_entries directory entries) (\<lambda>_. os_remove directory))"

text \<open>The stat before a create: \<open>os.ErrExist\<close>, another error, or nothing there.\<close>

definition require_absent :: "string \<Rightarrow> (content, unit) io" where
  "require_absent path =
     io_bind (io_try (os_stat path)) (\<lambda>r.
       case r of
         Inr _ \<Rightarrow> io_fail ErrExist
       | Inl e \<Rightarrow> if \<not> err_is ErrNotExist e then io_fail e else io_return ())"

section \<open>Tasks\<close>

definition new_task :: "string \<Rightarrow> gtime \<Rightarrow> fs_baseline \<Rightarrow> proc_baseline \<Rightarrow> owned_task_metadata \<Rightarrow> task_record" where
  "new_task taskID now baseline processBaseline meta =
     \<lparr>tr_task_id = taskID, tr_state = TaskActive, tr_created_at = now, tr_heartbeat_at = now,
      tr_baseline = baseline, tr_process_baseline = processBaseline, tr_events = [],
      tr_aliases = om_aliases meta, tr_observation_mode = om_observation_mode meta,
      tr_recovery_profile = om_recovery_profile meta, tr_executor_grants = []\<rparr>"

definition CreateOwnedTaskWithMetadata ::
    "'z storelib_scheme \<Rightarrow> store \<Rightarrow> string \<Rightarrow> string \<Rightarrow> fs_baseline \<Rightarrow> proc_baseline
       \<Rightarrow> owned_task_metadata \<Rightarrow> (content, unit) io" where
  "CreateOwnedTaskWithMetadata L s ownerHandle taskID baseline processBaseline meta =
     io_bind (or_denied (io_lift (ParseOwner L ownerHandle))) (\<lambda>ow.
       let path = ownedTaskPath s (o_opaque_id ow)
       in io_bind (require_absent path) (\<lambda>_.
          io_bind (store_clock s) (\<lambda>now.
            writeOwned L path ''task'' ow 0 now (time_add now (cf_interruption (st_config s)))
              (json_task L (new_task taskID now baseline processBaseline meta)))))"

definition CreateOwnedTask ::
    "'z storelib_scheme \<Rightarrow> os_view \<Rightarrow> store \<Rightarrow> string \<Rightarrow> string \<Rightarrow> fs_baseline \<Rightarrow> proc_baseline list
       \<Rightarrow> (content, unit) io" where
  "CreateOwnedTask L os s ownerHandle taskID baseline processBaselines =
     CreateOwnedTaskWithMetadata L s ownerHandle taskID baseline
       (case processBaselines of
          [] \<Rightarrow> \<lparr>pb_captured_at = \<lparr>t_ns = 0, t_zone = None\<rparr>, pb_processes = []\<rparr>
        | p # _ \<Rightarrow> p)
       \<lparr>om_aliases = (case alias_new os (bl_scope baseline) of Inl _ \<Rightarrow> [] | Inr t \<Rightarrow> t),
        om_observation_mode = ObservationGuided, om_recovery_profile = RecoveryRecoverable\<rparr>"

definition loadOwnedTaskUnlocked ::
    "'z storelib_scheme \<Rightarrow> store \<Rightarrow> owner \<Rightarrow> (content, task_record) io" where
  "loadOwnedTaskUnlocked L s ow =
     io_bind (or_denied (readEncryptedEnvelope L (ownedTaskPath s (o_opaque_id ow)))) (\<lambda>e.
       if en_record_kind e \<noteq> ''task'' \<or> en_opaque_id e \<noteq> o_opaque_id ow then denied
       else io_bind (store_clock s) (\<lambda>now.
         if \<not> time_before now (en_expires_at e) then denied
         else if en_public_key e \<noteq> ownerPublicKey L ow then denied
         else io_bind (or_denied (io_lift (openRecord L (unjson_task L) e (o_record_key ow)))) (\<lambda>task.
           if tr_state task \<noteq> TaskActive then denied else io_return task)))"

text \<open>One entry of the event directory: the grant it belongs to, then the batch it holds.\<close>

definition grant_of_entry ::
    "(string \<times> executor_grant) list \<Rightarrow> string \<Rightarrow> (string \<times> executor_grant) option" where
  "grant_of_entry grants name =
     List.find (\<lambda>(candidate, _). length name > length candidate
                   \<and> take (length candidate + 1) name = candidate @ ''.'') grants"

definition read_batch ::
    "'z storelib_scheme \<Rightarrow> owner \<Rightarrow> string \<Rightarrow> string \<Rightarrow> string \<times> executor_grant \<Rightarrow> (content, summary list) io" where
  "read_batch L ow directory name g =
     io_bind (or_denied (readEncryptedEnvelope L (path_join directory name))) (\<lambda>e.
       if en_record_kind e \<noteq> ''executor-events'' \<or> en_opaque_id e \<noteq> o_opaque_id ow @ ''.'' @ fst g
          \<or> en_public_key e \<noteq> ownerPublicKey L ow then denied
       else io_bind (or_denied (io_lift (openRecord L (unjson_batch L) e (xg_append_key (snd g))))) (\<lambda>batch.
         if eb_grant_id batch \<noteq> fst g then denied else io_return (eb_events batch)))"

fun merge_entries ::
    "'z storelib_scheme \<Rightarrow> owner \<Rightarrow> string \<Rightarrow> task_record \<Rightarrow> (string \<times> bool) list \<Rightarrow> (content, task_record) io" where
  "merge_entries L ow directory task [] = io_return task"
| "merge_entries L ow directory task ((name, is_dir) # entries) =
     (if is_dir \<or> path_ext name \<noteq> ''.are'' then merge_entries L ow directory task entries
      else case grant_of_entry (range_grants L (tr_executor_grants task)) name of
        None \<Rightarrow> denied
      | Some g \<Rightarrow>
          if fst g = [] then denied
          else io_bind (read_batch L ow directory name g) (\<lambda>evs.
            merge_entries L ow directory (task\<lparr>tr_events := tr_events task @ evs\<rparr>) entries))"

definition mergeExecutorEvents ::
    "'z storelib_scheme \<Rightarrow> store \<Rightarrow> owner \<Rightarrow> task_record \<Rightarrow> (content, task_record) io" where
  "mergeExecutorEvents L s ow task =
     (let directory = ownedEventDir s (o_opaque_id ow)
      in io_bind (io_try (os_read_dir directory)) (\<lambda>r.
           case r of
             Inl e \<Rightarrow> if err_is ErrNotExist e then io_return task else io_fail e
           | Inr entries \<Rightarrow> merge_entries L ow directory task entries))"

definition LoadOwnedTask :: "'z storelib_scheme \<Rightarrow> store \<Rightarrow> string \<Rightarrow> (content, task_record) io" where
  "LoadOwnedTask L s ownerHandle =
     io_bind (or_denied (io_lift (ParseOwner L ownerHandle))) (\<lambda>ow. loadOwnedTaskUnlocked L s ow)"

definition LoadOwnedTaskForAppend :: "'z storelib_scheme \<Rightarrow> store \<Rightarrow> string \<Rightarrow> (content, task_record) io" where
  "LoadOwnedTaskForAppend L s handle =
     io_bind (or_denied (io_lift (ParseOwner L handle))) (\<lambda>ow. loadOwnedTaskUnlocked L s ow)"

definition LoadOwnedTaskForEnd :: "'z storelib_scheme \<Rightarrow> store \<Rightarrow> string \<Rightarrow> (content, task_record) io" where
  "LoadOwnedTaskForEnd L s ownerHandle =
     io_bind (or_denied (io_lift (ParseOwner L ownerHandle))) (\<lambda>ow.
     io_bind (loadOwnedTaskUnlocked L s ow) (\<lambda>task. mergeExecutorEvents L s ow task))"

definition AppendOwnedEvents ::
    "'z storelib_scheme \<Rightarrow> store \<Rightarrow> string \<Rightarrow> summary list \<Rightarrow> (content, unit) io" where
  "AppendOwnedEvents L s handle summaries =
     io_bind (store_clock s) (\<lambda>now.
     io_bind (or_denied (io_lift (ParseOwner L handle))) (\<lambda>ow.
     io_bind (or_denied (loadOwnedTaskUnlocked L s ow)) (\<lambda>task.
       writeOwned L (ownedTaskPath s (o_opaque_id ow)) ''task'' ow 0 (tr_created_at task)
         (time_add now (cf_interruption (st_config s)))
         (json_task L (task\<lparr>tr_events := tr_events task @ summaries, tr_heartbeat_at := now\<rparr>)))))"

definition grant_for :: "executor \<Rightarrow> executor_grant" where
  "grant_for x = \<lparr>xg_append_key = x_append_key x, xg_expires_at = time_of_unix (x_expires_unix x),
     xg_allowed_types = x_allowed_types x, xg_allowed_roots = x_allowed_roots x\<rparr>"

definition DelegateOwnedExecutor ::
    "'z storelib_scheme \<Rightarrow> store \<Rightarrow> string \<Rightarrow> gtime \<Rightarrow> string list \<Rightarrow> string list \<Rightarrow> (content, string) io" where
  "DelegateOwnedExecutor L s ownerHandle expiresAt allowedTypes allowedRoots =
     io_bind (or_denied (io_lift (ParseOwner L ownerHandle))) (\<lambda>ow.
     io_bind (or_denied (loadOwnedTaskUnlocked L s ow)) (\<lambda>task.
     io_bind (draw_random 18) (\<lambda>grant.
     io_bind (draw_random 32) (\<lambda>key.
     io_bind (io_lift (NewExecutor L (Inr grant) (Inr key) ow expiresAt allowedTypes allowedRoots)) (\<lambda>x.
     io_bind (store_clock s) (\<lambda>now.
     io_bind (writeOwned L (ownedTaskPath s (o_opaque_id ow)) ''task'' ow 0 (tr_created_at task)
                (time_add now (cf_interruption (st_config s)))
                (json_task L (task\<lparr>tr_executor_grants :=
                   AList.update (x_grant_id x) (grant_for x) (tr_executor_grants task)\<rparr>))) (\<lambda>_.
       io_return (executor_string L x))))))))"

definition public_key_size :: nat where "public_key_size = 32"

definition write_batch ::
    "'z storelib_scheme \<Rightarrow> store \<Rightarrow> gtime \<Rightarrow> executor \<Rightarrow> envelope \<Rightarrow> summary list \<Rightarrow> (content, unit) io" where
  "write_batch L s now x taskEnvelope summaries =
     (let directory = ownedEventDir s (x_opaque_id x)
      in io_bind (os_mkdir_all directory (private_mode True)) (\<lambda>_.
         io_bind (protectPrivatePath directory True) (\<lambda>_.
         io_bind (draw_random 18) (\<lambda>random.
           let name = x_grant_id x @ ''.'' @ b64_encode random @ ''.are'';
               limit = time_of_unix (x_expires_unix x);
               expires = (if time_before (en_expires_at taskEnvelope) limit
                          then en_expires_at taskEnvelope else limit)
           in io_bind (sealRecord L ''executor-events'' (x_opaque_id x @ ''.'' @ x_grant_id x) 0 now expires
                         (en_public_key taskEnvelope) False (x_append_key x)
                         (json_batch L \<lparr>eb_grant_id = x_grant_id x, eb_events = summaries\<rparr>)) (\<lambda>e.
                atomicWriteJSON (path_join directory name) e)))))"

definition AppendOwnedExecutorEvents ::
    "'z storelib_scheme \<Rightarrow> store \<Rightarrow> string \<Rightarrow> summary list \<Rightarrow> (content, unit) io" where
  "AppendOwnedExecutorEvents L s executorHandle summaries =
     io_bind (store_clock s) (\<lambda>now.
     io_bind (or_denied (io_lift (ParseExecutor L executorHandle now))) (\<lambda>x.
       if \<not> executorAllows (x_allowed_types x) summaries then denied
       else io_bind (or_denied (readEncryptedEnvelope L (ownedTaskPath s (x_opaque_id x)))) (\<lambda>e.
         if en_record_kind e \<noteq> ''task'' \<or> \<not> time_before now (en_expires_at e) then denied
         else case b64_decode (en_public_key e) of
           None \<Rightarrow> denied
         | Some public \<Rightarrow>
             if length public \<noteq> public_key_size \<or> \<not> is_ok (executor_verify L x public) then denied
             else write_batch L s now x e summaries)))"

section \<open>Reports\<close>

definition new_report_record :: "report \<Rightarrow> gtime \<Rightarrow> string \<Rightarrow> owned_evidence list \<Rightarrow> report_record" where
  "new_report_record r now digest evidence =
     \<lparr>rr_report = r, rr_completed_at = now, rr_retained = False, rr_digest = [],
      rr_original_digest = digest,
      rr_exact_targets = (case evidence of [] \<Rightarrow> [] | oe # _ \<Rightarrow> cloneTargets (oe_exact_targets oe)),
      rr_aliases = (case evidence of [] \<Rightarrow> [] | oe # _ \<Rightarrow> oe_aliases oe), rr_revisions = []\<rparr>"

definition CompleteOwnedTask ::
    "'z storelib_scheme \<Rightarrow> store \<Rightarrow> string \<Rightarrow> report \<Rightarrow> owned_evidence list \<Rightarrow> (content, unit) io" where
  "CompleteOwnedTask L s ownerHandle r evidence =
     io_bind (or_denied (io_lift (ParseOwner L ownerHandle))) (\<lambda>ow.
     io_bind (or_denied (io_bind (loadOwnedTaskUnlocked L s ow) (\<lambda>task. mergeExecutorEvents L s ow task))) (\<lambda>task.
       if r_task_id r \<noteq> tr_task_id task \<or> validate_report r \<noteq> Inr () then denied
       else io_bind (store_clock s) (\<lambda>now.
            io_bind (io_lift (reportDigest L r)) (\<lambda>digest.
            io_bind (writeOwned L (ownedReportPath s (o_opaque_id ow)) ''report'' ow 0 now
                       (time_add now (cf_retention (st_config s)))
                       (json_report_record L (new_report_record r now digest evidence))) (\<lambda>_.
            io_bind (os_remove (ownedTaskPath s (o_opaque_id ow))) (\<lambda>_.
            io_bind (removeDirectoryFiles (ownedEventDir s (o_opaque_id ow))) (\<lambda>_.
              syncDirectory (st_tasks_dir s))))))))"

text \<open>The report and its envelope as the three report-changing operations read it, without the expiry.\<close>

definition open_report ::
    "'z storelib_scheme \<Rightarrow> store \<Rightarrow> owner \<Rightarrow> (content, envelope \<times> report_record) io" where
  "open_report L s ow =
     io_bind (or_denied (readEncryptedEnvelope L (ownedReportPath s (o_opaque_id ow)))) (\<lambda>e.
       if en_record_kind e \<noteq> ''report'' \<or> en_public_key e \<noteq> ownerPublicKey L ow then denied
       else io_bind (or_denied (io_lift (openRecord L (unjson_report_record L) e (o_record_key ow)))) (\<lambda>rr.
         io_return (e, rr)))"

definition last_digest :: "report_record \<Rightarrow> string" where
  "last_digest rr =
     (if length (rr_revisions rr) > 0 then v_digest (last (rr_revisions rr)) else rr_original_digest rr)"

definition AppendOwnedRevision ::
    "'z storelib_scheme \<Rightarrow> store \<Rightarrow> string \<Rightarrow> verification_revision \<Rightarrow> (content, unit) io" where
  "AppendOwnedRevision L s ownerHandle revision =
     io_bind (or_denied (io_lift (ParseOwner L ownerHandle))) (\<lambda>ow.
     io_bind (open_report L s ow) (\<lambda>(e, rr).
       if v_revision revision \<noteq> int (length (rr_revisions rr)) + 1 \<or> is_zero (v_created_at revision)
          \<or> v_previous_digest revision \<noteq> last_digest rr \<or> v_digest revision = []
       then io_fail (errors_new ''verification revision does not extend report chain'')
       else writeOwnedProtected L (ownedReportPath s (o_opaque_id ow)) ''report'' ow
              (wrap64 (en_revision e + 1)) (en_created_at e) (en_expires_at e) (en_protected e)
              (json_report_record L (rr\<lparr>rr_revisions := rr_revisions rr @ [revision]\<rparr>))))"

definition GetOwnedReport :: "'z storelib_scheme \<Rightarrow> store \<Rightarrow> string \<Rightarrow> (content, report_record) io" where
  "GetOwnedReport L s ownerHandle =
     io_bind (or_denied (io_lift (ParseOwner L ownerHandle))) (\<lambda>ow.
     io_bind (or_denied (readEncryptedEnvelope L (ownedReportPath s (o_opaque_id ow)))) (\<lambda>e.
       if en_record_kind e \<noteq> ''report'' \<or> en_opaque_id e \<noteq> o_opaque_id ow then denied
       else io_bind (store_clock s) (\<lambda>now.
         if \<not> time_before now (en_expires_at e) \<or> en_public_key e \<noteq> ownerPublicKey L ow then denied
         else or_denied (io_lift (openRecord L (unjson_report_record L) e (o_record_key ow))))))"

definition RetainOwnedReport :: "'z storelib_scheme \<Rightarrow> store \<Rightarrow> string \<Rightarrow> (content, unit) io" where
  "RetainOwnedReport L s ownerHandle =
     io_bind (or_denied (io_lift (ParseOwner L ownerHandle))) (\<lambda>ow.
     io_bind (open_report L s ow) (\<lambda>(e, rr).
       writeOwnedProtected L (ownedReportPath s (o_opaque_id ow)) ''report'' ow (en_revision e)
         (en_created_at e) (time_add (en_expires_at e) (cf_retention (st_config s))) True
         (json_report_record L (rr\<lparr>rr_retained := True\<rparr>))))"

definition ForgetOwnedReport :: "'z storelib_scheme \<Rightarrow> store \<Rightarrow> string \<Rightarrow> (content, unit) io" where
  "ForgetOwnedReport L s ownerHandle =
     io_bind (or_denied (io_lift (ParseOwner L ownerHandle))) (\<lambda>ow.
     io_bind (open_report L s ow) (\<lambda>_.
     io_bind (os_remove (ownedReportPath s (o_opaque_id ow))) (\<lambda>_. syncDirectory (st_reports_dir s))))"

section \<open>Retrospective grants\<close>

definition CreateRetrospectiveGrant ::
    "'z storelib_scheme \<Rightarrow> store \<Rightarrow> string \<Rightarrow> retrospective_grant \<Rightarrow> (content, unit) io" where
  "CreateRetrospectiveGrant L s ownerHandle grant =
     io_bind (or_denied (io_lift (ParseOwner L ownerHandle))) (\<lambda>ow.
       if is_zero (rg_created_at grant) \<or> is_zero (rg_expires_at grant)
          \<or> \<not> time_after (rg_expires_at grant) (rg_created_at grant) then denied
       else let path = ownedGrantPath s (o_opaque_id ow)
            in io_bind (require_absent path) (\<lambda>_.
               writeOwned L path ''retrospective-grant'' ow 0 (rg_created_at grant) (rg_expires_at grant)
                 (json_grant L grant)))"

definition open_grant :: "'z storelib_scheme \<Rightarrow> store \<Rightarrow> owner \<Rightarrow> (content, retrospective_grant) io" where
  "open_grant L s ow =
     io_bind (or_denied (readEncryptedEnvelope L (ownedGrantPath s (o_opaque_id ow)))) (\<lambda>e.
       if en_record_kind e \<noteq> ''retrospective-grant'' \<or> en_public_key e \<noteq> ownerPublicKey L ow then denied
       else io_bind (store_clock s) (\<lambda>now.
         if \<not> time_before now (en_expires_at e) then denied
         else or_denied (io_lift (openRecord L (unjson_grant L) e (o_record_key ow)))))"

definition LoadRetrospectiveGrant :: "'z storelib_scheme \<Rightarrow> store \<Rightarrow> string \<Rightarrow> (content, retrospective_grant) io" where
  "LoadRetrospectiveGrant L s ownerHandle =
     io_bind (or_denied (io_lift (ParseOwner L ownerHandle))) (\<lambda>ow. open_grant L s ow)"

definition CompleteRetrospectiveGrant ::
    "'z storelib_scheme \<Rightarrow> store \<Rightarrow> string \<Rightarrow> report \<Rightarrow> owned_evidence \<Rightarrow> (content, unit) io" where
  "CompleteRetrospectiveGrant L s ownerHandle r evidence =
     io_bind (or_denied (io_lift (ParseOwner L ownerHandle))) (\<lambda>ow.
     io_bind (open_grant L s ow) (\<lambda>grant.
       if r_task_id r \<noteq> s_task_id (rg_scope grant) \<or> validate_report r \<noteq> Inr () then denied
       else io_bind (store_clock s) (\<lambda>now.
            io_bind (io_lift (reportDigest L r)) (\<lambda>digest.
            io_bind (writeOwned L (ownedReportPath s (o_opaque_id ow)) ''report'' ow 0 now
                       (time_add now (cf_retention (st_config s)))
                       (json_report_record L (new_report_record r now digest [evidence]))) (\<lambda>_.
            io_bind (os_remove (ownedGrantPath s (o_opaque_id ow))) (\<lambda>_.
              syncDirectory (st_grants_dir s)))))))"

end
