(* ===== verification/Store_Frame.thy ===== *)
theory Store_Frame
  imports Owned_Store
begin

text \<open>
  Where the operations of the store can write: the layout of an opened store, the files an
  operation under one opaque id may touch, and the isolation of owners from each other.
\<close>


section \<open>Layout\<close>

text \<open>The directories of an opened store and the canonical form of an owner's paths.\<close>

definition store_layout :: "store \<Rightarrow> string list \<Rightarrow> bool" where
  "store_layout s hs \<longleftrightarrow> list_all proper hs \<and> st_home s = abs_path hs
     \<and> st_tasks_dir s = abs_path (hs @ [''tasks'']) \<and> st_reports_dir s = abs_path (hs @ [''reports''])
     \<and> st_grants_dir s = abs_path (hs @ [''grants'']) \<and> st_events_dir s = abs_path (hs @ [''events''])"

lemma proper_fixed [simp]:
  "proper ''tasks''" "proper ''reports''" "proper ''grants''" "proper ''events''"
  by (simp_all add: proper_def)

lemma proper_are [simp]: "proper (i @ ''.are'') \<longleftrightarrow> sep \<notin> set i"
  by (auto simp: proper_def append_eq_Cons_conv)

lemma path_join_name: "list_all proper bs \<Longrightarrow> proper n \<Longrightarrow> path_join (abs_path bs) n = abs_path (bs @ [n])"
  using path_join_abs [of bs "[n]"] by simp

lemma Open_layout:
  assumes "Open cwd home options w = (Inr s, w')" "\<And>wd. cwd = Inr wd \<Longrightarrow> is_abs wd"
  obtains hs where "store_layout s hs"
proof -
  from assms(1) obtain absolute where a: "path_abs cwd home = Inr absolute"
    and s: "st_home s = absolute" "st_tasks_dir s = path_join absolute ''tasks''"
      "st_reports_dir s = path_join absolute ''reports''" "st_grants_dir s = path_join absolute ''grants''"
      "st_events_dir s = path_join absolute ''events''"
    by (auto simp: Open_def io_fail_def io_lift_def io_return_def Let_def elim!: io_bind_Inr split: if_splits)
  obtain hs where "list_all proper hs" "absolute = abs_path hs"
    using path_abs_is_clean [OF a assms(2)] by metis
  then show ?thesis using that [of hs] s by (simp add: store_layout_def path_join_name)
qed

lemma owned_paths:
  assumes "store_layout s hs" "proper i"
  shows "ownedTaskPath s i = abs_path ((hs @ [''tasks'']) @ [i @ ''.are''])"
    "ownedReportPath s i = abs_path ((hs @ [''reports'']) @ [i @ ''.are''])"
    "ownedGrantPath s i = abs_path ((hs @ [''grants'']) @ [i @ ''.are''])"
    "ownedEventDir s i = abs_path ((hs @ [''events'']) @ [i])"
  using assms
  by (simp_all add: store_layout_def ownedTaskPath_def ownedReportPath_def ownedGrantPath_def ownedEventDir_def
      path_join_name proper_are [unfolded append.simps] proper_def [of i] flip: append_assoc)

lemma are_not_temp: "i @ ''.are'' \<noteq> temp_name r"
proof
  assume "i @ ''.are'' = temp_name r"
  then have "last (i @ ''.are'') = last (temp_name r)" by simp
  then show False by (simp add: temp_name_def)
qed

section \<open>What an operation of one owner may touch\<close>

definition event_files :: "store \<Rightarrow> string \<Rightarrow> string set" where
  "event_files s i = {p. \<exists>n. sep \<notin> set n \<and> p = path_join (ownedEventDir s i) n}"

definition touched :: "store \<Rightarrow> string \<Rightarrow> string set" where
  "touched s i = {ownedTaskPath s i, ownedReportPath s i, ownedGrantPath s i}
     \<union> {p. is_temp (st_tasks_dir s) p \<or> is_temp (st_reports_dir s) p \<or> is_temp (st_grants_dir s) p}
     \<union> event_files s i"

text \<open>The files that hold another owner's data: its records and its executors' batches.\<close>

definition owned_files :: "store \<Rightarrow> string \<Rightarrow> string set" where
  "owned_files s i = {ownedTaskPath s i, ownedReportPath s i, ownedGrantPath s i}
     \<union> {p. \<exists>n. proper n \<and> p = path_join (ownedEventDir s i) n}"

lemma path_join_part:
  assumes "list_all proper cs" "cs \<noteq> []" "n \<noteq> []" "sep \<notin> set n"
  shows "path_join (abs_path cs) n = abs_path (rev (clean_step True n (rev cs)))"
proof -
  have "split_on (\<lambda>c. c = sep) n = [n]" by (rule split_on_no_sep) (use assms(4) in auto)
  then have "path_parts (abs_path cs @ sep # n) = [] # cs @ [n]"
    using assms split_on_append [of "\<lambda>c. c = sep" sep "abs_path cs" n]
    by (simp add: path_parts_def path_parts_abs_path [unfolded path_parts_def])
  moreover have "is_abs (abs_path cs @ sep # n)" by (simp add: is_abs_def has_prefix_def abs_path_def)
  ultimately show ?thesis
    using assms by (simp add: path_join_def path_clean_def clean_parts_def fold_clean_proper)
qed

lemma join_cases:
  assumes "list_all proper (ds @ [d])" "sep \<notin> set n"
  shows "path_join (abs_path (ds @ [d])) n \<in> {abs_path ds, abs_path (ds @ [d])}
    \<or> proper n \<and> path_join (abs_path (ds @ [d])) n = abs_path ((ds @ [d]) @ [n])"
proof -
  consider "proper n" | "n = []" | "n = ''.''" | "n = ''..''" using assms(2) by (auto simp: proper_def)
  then show ?thesis
  proof cases
    case 1
    then show ?thesis using assms(1) by (simp add: path_join_name del: append_assoc)
  next
    case 2
    then show ?thesis using assms(1) by (simp add: path_join_def)
  next
    case 3
    then show ?thesis using path_join_part [OF assms(1), of n] by (simp add: clean_step_def)
  next
    case 4
    then show ?thesis using path_join_part [OF assms(1), of n] assms(1) by (simp add: clean_step_def proper_def)
  qed
qed

lemma is_temp_abs:
  "list_all proper ds \<Longrightarrow> is_temp (abs_path ds) p \<longleftrightarrow> (\<exists>r. p = abs_path (ds @ [temp_name r]))"
  by (simp add: is_temp_def path_join_name proper_temp_name)

text \<open>The same sets by the path components below the store's home.\<close>

definition touched_tail :: "string \<Rightarrow> string list \<Rightarrow> bool" where
  "touched_tail i ts \<longleftrightarrow>
     (case ts of
        [d] \<Rightarrow> d = ''events''
      | [d, f] \<Rightarrow> d = ''events'' \<and> f = i
                   \<or> d \<in> {''tasks'', ''reports'', ''grants''} \<and> (f = i @ ''.are'' \<or> (\<exists>r. f = temp_name r))
      | [d, f, n] \<Rightarrow> d = ''events'' \<and> f = i
      | _ \<Rightarrow> False)"

definition owned_tail :: "string \<Rightarrow> string list \<Rightarrow> bool" where
  "owned_tail i ts \<longleftrightarrow>
     (case ts of
        [d, f] \<Rightarrow> d \<in> {''tasks'', ''reports'', ''grants''} \<and> f = i @ ''.are''
      | [d, f, n] \<Rightarrow> d = ''events'' \<and> f = i
      | _ \<Rightarrow> False)"

lemma tails_disjoint: "owned_tail j ts \<Longrightarrow> touched_tail i ts \<Longrightarrow> i = j"
  by (auto simp: owned_tail_def touched_tail_def are_not_temp split: list.splits)

lemma touched_cases:
  assumes "store_layout s hs" "proper i" "p \<in> touched s i"
  obtains ts where "list_all proper ts" "p = abs_path (hs @ ts)" "touched_tail i ts"
proof -
  note lay = assms(1) [unfolded store_layout_def]
  have i: "sep \<notin> set i" using assms(2) by (simp add: proper_def)
  note own = owned_paths [OF assms(1,2), unfolded append_assoc append.simps]
  from assms(3) consider
      (rec) d where "d \<in> {''tasks'', ''reports'', ''grants''}" "p = abs_path (hs @ [d, i @ ''.are''])"
    | (tmp) d where "d \<in> {''tasks'', ''reports'', ''grants''}" "is_temp (abs_path (hs @ [d])) p"
    | (ev) n where "sep \<notin> set n" "p = path_join (ownedEventDir s i) n"
    using lay own by (auto simp: touched_def event_files_def)
  then show ?thesis
  proof cases
    case rec
    then show ?thesis using that [of "[d, i @ ''.are'']"] i proper_are [of i] by (auto simp: touched_tail_def)
  next
    case tmp
    then obtain r where "p = abs_path (hs @ [d, temp_name r])" using lay by (auto simp: is_temp_abs)
    moreover have "touched_tail i [d, temp_name r]" using tmp(1) unfolding touched_tail_def by (simp, blast)
    moreover have "proper d" using tmp(1) by auto
    ultimately show ?thesis using that [of "[d, temp_name r]"] by (simp add: proper_temp_name)
  next
    case ev
    have "list_all proper ((hs @ [''events'']) @ [i])" using lay assms(2) by simp
    from join_cases [OF this ev(1)] consider "p = abs_path (hs @ [''events''])"
      | "p = abs_path (hs @ [''events'', i])" | "proper n" "p = abs_path (hs @ [''events'', i, n])"
      using ev(2) own by auto
    then show ?thesis
    proof cases
      case 1
      then show ?thesis using that [of "[''events'']"] by (simp add: touched_tail_def)
    next
      case 2
      then show ?thesis using that [of "[''events'', i]"] assms(2) by (simp add: touched_tail_def)
    next
      case 3
      then show ?thesis using that [of "[''events'', i, n]"] assms(2) by (simp add: touched_tail_def)
    qed
  qed
qed

lemma owned_cases:
  assumes "store_layout s hs" "proper i" "p \<in> owned_files s i"
  obtains ts where "list_all proper ts" "p = abs_path (hs @ ts)" "owned_tail i ts"
proof -
  note lay = assms(1) [unfolded store_layout_def]
  have i: "sep \<notin> set i" using assms(2) by (simp add: proper_def)
  note own = owned_paths [OF assms(1,2), unfolded append_assoc append.simps]
  from assms(3) consider
      (rec) d where "d \<in> {''tasks'', ''reports'', ''grants''}" "p = abs_path (hs @ [d, i @ ''.are''])"
    | (ev) n where "proper n" "p = abs_path ((hs @ [''events'', i]) @ [n])"
    using lay own path_join_name [of "hs @ [''events'', i]"] assms(2) by (auto simp: owned_files_def)
  then show ?thesis
  proof cases
    case rec
    then show ?thesis using that [of "[d, i @ ''.are'']"] i proper_are [of i] by (auto simp: owned_tail_def)
  next
    case ev
    then show ?thesis using that [of "[''events'', i, n]"] assms(2) by (simp add: owned_tail_def)
  qed
qed

lemma touched_disjoint:
  assumes "store_layout s hs" "proper i" "proper j" "i \<noteq> j"
  shows "touched s i \<inter> owned_files s j = {}"
proof (rule ccontr)
  assume "touched s i \<inter> owned_files s j \<noteq> {}"
  then obtain p where p: "p \<in> touched s i" "p \<in> owned_files s j" by blast
  obtain ts where t: "list_all proper ts" "p = abs_path (hs @ ts)" "touched_tail i ts"
    using touched_cases [OF assms(1,2) p(1)] .
  obtain us where u: "list_all proper us" "p = abs_path (hs @ us)" "owned_tail j us"
    using owned_cases [OF assms(1,3) p(2)] .
  have "hs @ ts = hs @ us"
    using t u assms(1) abs_path_inject [of "hs @ ts" "hs @ us"] by (simp add: store_layout_def)
  with t u tails_disjoint assms(4) show False by blast
qed

section \<open>Frames of the operations\<close>

lemma preserves_store_clock [simp]: "preserves P (store_clock s)"
  by (auto simp: store_clock_def intro!: preserves_bind split: option.splits)

lemma preserves_lift_denied [simp]: "preserves P (or_denied (io_lift r))"
  by (simp add: preserves_or_denied)

lemma preserves_load [simp]: "preserves P (loadOwnedTaskUnlocked L s ow)"
  unfolding loadOwnedTaskUnlocked_def by (auto intro!: preserves_bind preserves_or_denied)

lemma preserves_read_batch [simp]: "preserves P (read_batch L ow d n g)"
  unfolding read_batch_def by (auto intro!: preserves_bind preserves_or_denied)

lemma preserves_merge_entries [simp]: "preserves P (merge_entries L ow d t es)"
  by (induction L ow d t es rule: merge_entries.induct) (auto intro!: preserves_bind split: option.splits)

lemma preserves_merge [simp]: "preserves P (mergeExecutorEvents L s ow t)"
  unfolding mergeExecutorEvents_def Let_def
  by (auto intro!: preserves_bind preserves_try split: sum.splits)

lemma preserves_require_absent [simp]: "preserves P (require_absent p)"
  unfolding require_absent_def by (auto intro!: preserves_bind preserves_try split: sum.splits)

lemma preserves_open_report [simp]: "preserves P (open_report L s ow)"
  unfolding open_report_def by (auto intro!: preserves_bind preserves_or_denied)

lemma preserves_open_grant [simp]: "preserves P (open_grant L s ow)"
  unfolding open_grant_def by (auto intro!: preserves_bind preserves_or_denied)

lemma no_sep_path_base: "sep \<notin> set (path_base p)"
proof -
  have "path_base p \<in> set (path_parts p)" by (simp add: path_base_def path_parts_def)
  then show ?thesis using split_on_parts [of "path_base p" "\<lambda>c. c = sep" p] unfolding path_parts_def by blast
qed

lemma os_read_dir_names:
  "os_read_dir d w = (Inr es, w') \<Longrightarrow> list_all (\<lambda>(n, _). sep \<notin> set n) es"
  by (auto simp: os_read_dir_def sys_def list_all_iff no_sep_path_base split: option.splits if_splits)

lemma preserves_remove_entries:
  assumes "\<And>n. sep \<notin> set n \<Longrightarrow> path_join d n \<in> P" "list_all (\<lambda>(n, _). sep \<notin> set n) es"
  shows "preserves P (remove_entries d es)"
  using assms(2)
proof (induction es)
  case (Cons e es)
  then show ?case
    using assms(1) by (cases e) (auto intro!: preserves_bind preserves_remove)
qed simp

lemma preserves_removeDirectoryFiles:
  assumes "\<And>n. sep \<notin> set n \<Longrightarrow> path_join d n \<in> P" "d \<in> P"
  shows "preserves P (removeDirectoryFiles d)"
  unfolding removeDirectoryFiles_def
proof (rule preserves_bind_res)
  show "preserves P (io_try (os_read_dir d))" by (simp add: preserves_try)
  fix w v w' assume "io_try (os_read_dir d) w = (Inr v, w')"
  then have "\<exists>w1. os_read_dir d w = (v, w1)" by (auto simp: io_try_def split: prod.splits)
  then obtain w1 where run: "os_read_dir d w = (v, w1)" by blast
  show "preserves P (case v of Inl e \<Rightarrow> if err_is ErrNotExist e then io_return () else io_fail e
      | Inr entries \<Rightarrow> io_bind (remove_entries d entries) (\<lambda>_. os_remove d))"
  proof (cases v)
    case (Inr es)
    then have "list_all (\<lambda>(n, _). sep \<notin> set n) es" using os_read_dir_names run by blast
    from preserves_remove_entries [OF assms(1) this] have "preserves P (remove_entries d es)" .
    then have "preserves P (io_bind (remove_entries d es) (\<lambda>_. os_remove d))"
      by (rule preserves_bind) (rule preserves_remove [OF assms(2)])
    with Inr show ?thesis by simp
  qed simp
qed

lemma record_path_facts:
  assumes "store_layout s hs" "proper i"
  shows "path_dir (ownedTaskPath s i) = st_tasks_dir s" "\<not> is_temp (st_tasks_dir s) (ownedTaskPath s i)"
    "path_dir (ownedReportPath s i) = st_reports_dir s" "\<not> is_temp (st_reports_dir s) (ownedReportPath s i)"
    "path_dir (ownedGrantPath s i) = st_grants_dir s" "\<not> is_temp (st_grants_dir s) (ownedGrantPath s i)"
proof -
  have i: "proper (i @ ''.are'')" using assms(2) by (simp add: proper_def)
  have *: "path_dir (abs_path ((hs @ [d]) @ [i @ ''.are''])) = abs_path (hs @ [d])"
    "\<not> is_temp (abs_path (hs @ [d])) (abs_path ((hs @ [d]) @ [i @ ''.are'']))" if "proper d" for d
  proof -
    have hs: "list_all proper (hs @ [d])" using assms(1) that by (simp add: store_layout_def)
    with i show dir: "path_dir (abs_path ((hs @ [d]) @ [i @ ''.are''])) = abs_path (hs @ [d])"
      by (intro path_dir_snoc) simp
    show "\<not> is_temp (abs_path (hs @ [d])) (abs_path ((hs @ [d]) @ [i @ ''.are'']))"
      using record_not_temp [OF hs i] dir by simp
  qed
  note lay = assms(1) [unfolded store_layout_def]
  show "path_dir (ownedTaskPath s i) = st_tasks_dir s" "\<not> is_temp (st_tasks_dir s) (ownedTaskPath s i)"
    "path_dir (ownedReportPath s i) = st_reports_dir s" "\<not> is_temp (st_reports_dir s) (ownedReportPath s i)"
    "path_dir (ownedGrantPath s i) = st_grants_dir s" "\<not> is_temp (st_grants_dir s) (ownedGrantPath s i)"
    unfolding owned_paths [OF assms] using * lay by (simp_all del: append_assoc)
qed

lemma event_filesI: "sep \<notin> set n \<Longrightarrow> path_join (ownedEventDir s i) n \<in> event_files s i"
  unfolding event_files_def by blast

lemma touched_event: "sep \<notin> set n \<Longrightarrow> path_join (ownedEventDir s i) n \<in> touched s i"
  unfolding touched_def by (simp add: event_filesI)

lemma event_dir_touched:
  assumes "store_layout s hs" "proper i"
  shows "ownedEventDir s i \<in> touched s i"
proof -
  have "path_join (ownedEventDir s i) [] = ownedEventDir s i"
    using owned_paths(4) [OF assms] assms by (simp add: path_join_def store_layout_def)
  with touched_event [of "[]" s i] show ?thesis by simp
qed

text \<open>
  The files an id names, whatever text it is: nothing here asks for a plain name, as the code does
  not. A record is written through a temporary file beside it. An executor handle names the batch
  files that start with its grant id.
\<close>

definition named_files :: "store \<Rightarrow> string \<Rightarrow> string set" where
  "named_files s i = {ownedTaskPath s i, ownedReportPath s i, ownedGrantPath s i, ownedEventDir s i}
     \<union> {q. \<exists>p \<in> {ownedTaskPath s i, ownedReportPath s i, ownedGrantPath s i}. is_temp (path_dir p) q}
     \<union> event_files s i"

definition batch_path :: "store \<Rightarrow> executor \<Rightarrow> string \<Rightarrow> string" where
  "batch_path s x rnd = path_join (ownedEventDir s (x_opaque_id x)) (x_grant_id x @ ''.'' @ b64_encode rnd @ ''.are'')"

definition batch_files :: "store \<Rightarrow> executor \<Rightarrow> string set" where
  "batch_files s x = {q. \<exists>rnd. q = batch_path s x rnd \<or> is_temp (path_dir (batch_path s x rnd)) q}"

definition handle_files :: "'z caplib_scheme \<Rightarrow> store \<Rightarrow> string \<Rightarrow> string set" where
  "handle_files L s h = {q. (\<exists>ow. ParseOwner L h = Inr ow \<and> q \<in> named_files s (o_opaque_id ow))
     \<or> (\<exists>now x. ParseExecutor L h now = Inr x \<and> q \<in> batch_files s x)}"

lemma named_touched: "store_layout s hs \<Longrightarrow> proper i \<Longrightarrow> named_files s i \<subseteq> touched s i"
  using record_path_facts event_dir_touched by (auto simp: named_files_def touched_def)

lemma batch_events_plain:
  assumes "store_layout s hs" "proper (x_opaque_id x)" "sep \<notin> set (x_grant_id x)"
  shows "batch_files s x \<subseteq> event_files s (x_opaque_id x)"
proof
  fix q assume "q \<in> batch_files s x"
  then obtain rnd where q: "q = batch_path s x rnd \<or> is_temp (path_dir (batch_path s x rnd)) q" by (auto simp: batch_files_def)
  let ?d = "ownedEventDir s (x_opaque_id x)" and ?n = "x_grant_id x @ ''.'' @ b64_encode rnd @ ''.are''"
  have ds: "list_all proper (hs @ [''events'', x_opaque_id x])" using assms by (simp add: store_layout_def)
  have d: "?d = abs_path (hs @ [''events'', x_opaque_id x])" using owned_paths(4) [OF assms(1,2)] by simp
  have n: "sep \<notin> set ?n" using assms(3) slash_notin_b64_encode by simp
  then have pn: "proper ((x_grant_id x @ ''.'' @ b64_encode rnd) @ ''.are'')" by (subst proper_are) simp
  have j: "path_join ?d ?n = abs_path ((hs @ [''events'', x_opaque_id x]) @ [?n])"
    unfolding d using pn by (intro path_join_name ds) simp
  have dir: "path_dir (path_join ?d ?n) = ?d"
    unfolding j using path_dir_snoc [of "hs @ [''events'', x_opaque_id x]" ?n] ds pn d by simp
  from q show "q \<in> event_files s (x_opaque_id x)"
  proof
    assume "q = batch_path s x rnd"
    then show ?thesis using event_filesI [OF n] by (simp add: batch_path_def)
  next
    assume "is_temp (path_dir (batch_path s x rnd)) q"
    then obtain r where "q = path_join ?d (temp_name r)" unfolding batch_path_def dir is_temp_def by blast
    moreover have "sep \<notin> set (temp_name r)" using proper_temp_name [of r] by (simp add: proper_def)
    ultimately show ?thesis using event_filesI by simp
  qed
qed

lemma preserves_writeOwned:
  assumes "named_files s i \<subseteq> P" "path \<in> {ownedTaskPath s i, ownedReportPath s i, ownedGrantPath s i}"
  shows "preserves P (writeOwnedProtected L path k ow rv cr ex prot v)"
  unfolding writeOwnedProtected_def
  by (intro preserves_bind preserves_sealRecord preserves_atomicWrite) (use assms in \<open>auto simp: named_files_def\<close>)

lemma preserves_write_batch:
  assumes "batch_files s x \<subseteq> P"
  shows "preserves P (write_batch L s now x e evs)"
  unfolding write_batch_def Let_def
proof (intro preserves_bind)
  fix rnd e'
  have "preserves P (atomicWriteJSON (batch_path s x rnd) e')"
    by (rule preserves_atomicWrite) (use assms in \<open>auto simp: batch_files_def\<close>)
  then show "preserves P (atomicWriteJSON (path_join (ownedEventDir s (x_opaque_id x)) (x_grant_id x @ ''.'' @ b64_encode rnd @ ''.are'')) e')"
    by (simp add: batch_path_def)
qed simp_all

section \<open>Operations as data\<close>

datatype store_op =
    OpCreate string string fs_baseline proc_baseline owned_task_metadata
  | OpLoad string
  | OpLoadForEnd string
  | OpAppend string "summary list"
  | OpDelegate string gtime "string list" "string list"
  | OpExecutorAppend string "summary list"
  | OpComplete string report "owned_evidence list"
  | OpRevise string verification_revision
  | OpGetReport string
  | OpRetain string
  | OpForget string
  | OpCreateGrant string retrospective_grant
  | OpLoadGrant string
  | OpCompleteGrant string report owned_evidence

definition io_void :: "('c, 'a) io \<Rightarrow> ('c, unit) io" where
  "io_void m = io_bind m (\<lambda>_. io_return ())"

fun run_op :: "'z storelib_scheme \<Rightarrow> store \<Rightarrow> store_op \<Rightarrow> (content, unit) io" where
  "run_op L s (OpCreate h t b p m) = CreateOwnedTaskWithMetadata L s h t b p m"
| "run_op L s (OpLoad h) = io_void (LoadOwnedTask L s h)"
| "run_op L s (OpLoadForEnd h) = io_void (LoadOwnedTaskForEnd L s h)"
| "run_op L s (OpAppend h es) = AppendOwnedEvents L s h es"
| "run_op L s (OpDelegate h t ts rs) = io_void (DelegateOwnedExecutor L s h t ts rs)"
| "run_op L s (OpExecutorAppend h es) = AppendOwnedExecutorEvents L s h es"
| "run_op L s (OpComplete h r ev) = CompleteOwnedTask L s h r ev"
| "run_op L s (OpRevise h v) = AppendOwnedRevision L s h v"
| "run_op L s (OpGetReport h) = io_void (GetOwnedReport L s h)"
| "run_op L s (OpRetain h) = RetainOwnedReport L s h"
| "run_op L s (OpForget h) = ForgetOwnedReport L s h"
| "run_op L s (OpCreateGrant h g) = CreateRetrospectiveGrant L s h g"
| "run_op L s (OpLoadGrant h) = io_void (LoadRetrospectiveGrant L s h)"
| "run_op L s (OpCompleteGrant h r ev) = CompleteRetrospectiveGrant L s h r ev"

fun op_handle :: "store_op \<Rightarrow> string" where
  "op_handle (OpCreate h t b p m) = h"
| "op_handle (OpLoad h) = h"
| "op_handle (OpLoadForEnd h) = h"
| "op_handle (OpAppend h es) = h"
| "op_handle (OpDelegate h t ts rs) = h"
| "op_handle (OpExecutorAppend h es) = h"
| "op_handle (OpComplete h r ev) = h"
| "op_handle (OpRevise h v) = h"
| "op_handle (OpGetReport h) = h"
| "op_handle (OpRetain h) = h"
| "op_handle (OpForget h) = h"
| "op_handle (OpCreateGrant h g) = h"
| "op_handle (OpLoadGrant h) = h"
| "op_handle (OpCompleteGrant h r ev) = h"

text \<open>
  The handle of an operation stands for no other opaque id than \<open>i\<close>: as an owner handle, or
  as an executor handle whose grant id is a plain name, which is what \<open>NewExecutor\<close> draws.
\<close>

fun acts_for :: "'z caplib_scheme \<Rightarrow> store_op \<Rightarrow> string \<Rightarrow> bool" where
  "acts_for L (OpExecutorAppend h es) i =
     (\<forall>now x. ParseExecutor L h now = Inr x \<longrightarrow> x_opaque_id x = i \<and> sep \<notin> set (x_grant_id x))"
| "acts_for L op i = (\<forall>ow. ParseOwner L (op_handle op) = Inr ow \<longrightarrow> o_opaque_id ow = i)"

lemma or_denied_lift_Inr [simp]: "or_denied (io_lift r) w = (Inr v, w') \<longleftrightarrow> r = Inr v \<and> w' = w"
  by (cases r) (auto simp: or_denied_def io_lift_def)

lemma preserves_owner_op:
  assumes "\<And>ow. ParseOwner L h = Inr ow \<Longrightarrow> preserves P (f ow)"
  shows "preserves P (io_bind (or_denied (io_lift (ParseOwner L h))) f)"
  using assms by (intro preserves_bind_res) auto

lemma owner_steps_frame:
  assumes "named_files s i \<subseteq> P"
  shows "preserves P (writeOwned L (ownedTaskPath s i) k ow rv cr ex v)"
    "preserves P (writeOwned L (ownedReportPath s i) k ow rv cr ex v)"
    "preserves P (writeOwned L (ownedGrantPath s i) k ow rv cr ex v)"
    "preserves P (writeOwnedProtected L (ownedReportPath s i) k ow rv cr ex prot v)"
    "preserves P (os_remove (ownedTaskPath s i))"
    "preserves P (os_remove (ownedReportPath s i))"
    "preserves P (os_remove (ownedGrantPath s i))"
    "preserves P (removeDirectoryFiles (ownedEventDir s i))"
  unfolding writeOwned_def
  using assms by (rule preserves_writeOwned, simp)+
    (rule preserves_remove preserves_removeDirectoryFiles; use assms event_filesI in \<open>auto simp: named_files_def\<close>)+

lemma preserves_void: "preserves P m \<Longrightarrow> preserves P (io_void m)"
  unfolding io_void_def by (rule preserves_bind) simp_all

lemma executor_append_named:
  assumes x: "\<And>now x. ParseExecutor L h now = Inr x \<Longrightarrow> batch_files s x \<subseteq> P"
  shows "preserves P (AppendOwnedExecutorEvents L s h evs)"
  unfolding AppendOwnedExecutorEvents_def
proof (rule preserves_bind [OF preserves_store_clock], rule preserves_bind_res [OF preserves_lift_denied])
  fix now w x w' assume "or_denied (io_lift (ParseExecutor L h now)) w = (Inr x, w')"
  then have "preserves P (write_batch L s now x e evs)" for e
    by (intro preserves_write_batch assms [of now]) simp
  then show "preserves P (if \<not> executorAllows (x_allowed_types x) evs then denied
     else io_bind (or_denied (readEncryptedEnvelope L (ownedTaskPath s (x_opaque_id x)))) (\<lambda>e.
       if en_record_kind e \<noteq> ''task'' \<or> \<not> time_before now (en_expires_at e) then denied
       else case b64_decode (en_public_key e) of None \<Rightarrow> denied
         | Some public \<Rightarrow> if length public \<noteq> public_key_size \<or> \<not> is_ok (executor_verify L x public) then denied
           else write_batch L s now x e evs))"
    by (auto intro!: preserves_bind preserves_or_denied split: option.splits)
qed

lemma executor_append_frame:
  assumes "store_layout s hs"
    and "\<And>now x. ParseExecutor L h now = Inr x \<Longrightarrow>
      proper (x_opaque_id x) \<and> sep \<notin> set (x_grant_id x) \<and> event_files s (x_opaque_id x) \<subseteq> P"
  shows "preserves P (AppendOwnedExecutorEvents L s h evs)"
  by (rule executor_append_named) (use assms batch_events_plain in blast)

text \<open>Every operation changes at most the files its handle names, for any handle.\<close>

lemma run_op_named:
  assumes own: "\<And>ow. ParseOwner L (op_handle op) = Inr ow \<Longrightarrow> named_files s (o_opaque_id ow) \<subseteq> P"
    and exe: "\<And>h evs now x. op = OpExecutorAppend h evs \<Longrightarrow> ParseExecutor L h now = Inr x \<Longrightarrow> batch_files s x \<subseteq> P"
  shows "preserves P (run_op L s op)"
proof -
  note go = preserves_bind preserves_or_denied preserves_void
  show ?thesis
  proof (cases op)
    case (OpCreate hd t b p m)
    note st = owner_steps_frame [OF own [unfolded OpCreate op_handle.simps]]
    show ?thesis unfolding OpCreate run_op.simps CreateOwnedTaskWithMetadata_def Let_def split_def
      by (rule preserves_owner_op) (auto intro!: go st)
  next
    case (OpLoad hd)
    then show ?thesis by (auto simp: LoadOwnedTask_def intro!: go)
  next
    case (OpLoadForEnd hd)
    then show ?thesis by (auto simp: LoadOwnedTaskForEnd_def intro!: go)
  next
    case (OpAppend hd es)
    note st = owner_steps_frame [OF own [unfolded OpAppend op_handle.simps]]
    show ?thesis unfolding OpAppend run_op.simps AppendOwnedEvents_def
      by (rule preserves_bind [OF preserves_store_clock], rule preserves_owner_op) (auto intro!: go st)
  next
    case (OpDelegate hd t ts rs)
    note st = owner_steps_frame [OF own [unfolded OpDelegate op_handle.simps]]
    show ?thesis unfolding OpDelegate run_op.simps DelegateOwnedExecutor_def Let_def split_def
      by (rule preserves_void, rule preserves_owner_op) (auto intro!: go st)
  next
    case (OpExecutorAppend hd evs)
    with exe show ?thesis by (auto intro!: executor_append_named)
  next
    case (OpComplete hd r ev)
    note st = owner_steps_frame [OF own [unfolded OpComplete op_handle.simps]]
    show ?thesis unfolding OpComplete run_op.simps CompleteOwnedTask_def Let_def split_def
      by (rule preserves_owner_op) (auto intro!: go st)
  next
    case (OpRevise hd v)
    note st = owner_steps_frame [OF own [unfolded OpRevise op_handle.simps]]
    show ?thesis unfolding OpRevise run_op.simps AppendOwnedRevision_def Let_def split_def
      by (rule preserves_owner_op) (auto intro!: go st)
  next
    case (OpGetReport hd)
    then show ?thesis by (auto simp: GetOwnedReport_def intro!: go)
  next
    case (OpRetain hd)
    note st = owner_steps_frame [OF own [unfolded OpRetain op_handle.simps]]
    show ?thesis unfolding OpRetain run_op.simps RetainOwnedReport_def Let_def split_def
      by (rule preserves_owner_op) (auto intro!: go st)
  next
    case (OpForget hd)
    note st = owner_steps_frame [OF own [unfolded OpForget op_handle.simps]]
    show ?thesis unfolding OpForget run_op.simps ForgetOwnedReport_def Let_def split_def
      by (rule preserves_owner_op) (auto intro!: go st)
  next
    case (OpCreateGrant hd g)
    note st = owner_steps_frame [OF own [unfolded OpCreateGrant op_handle.simps]]
    show ?thesis unfolding OpCreateGrant run_op.simps CreateRetrospectiveGrant_def Let_def split_def
      by (rule preserves_owner_op) (auto intro!: go st)
  next
    case (OpLoadGrant hd)
    then show ?thesis by (auto simp: LoadRetrospectiveGrant_def intro!: go)
  next
    case (OpCompleteGrant hd r ev)
    note st = owner_steps_frame [OF own [unfolded OpCompleteGrant op_handle.simps]]
    show ?thesis unfolding OpCompleteGrant run_op.simps CompleteRetrospectiveGrant_def Let_def split_def
      by (rule preserves_owner_op) (auto intro!: go st)
  qed
qed

lemma run_op_handle: "preserves (handle_files L s (op_handle op)) (run_op L s op)"
  by (rule run_op_named) (auto simp: handle_files_def)

lemma run_op_frame:
  assumes lay: "store_layout s hs" and i: "proper i" and h: "acts_for L op i"
  shows "preserves (touched s i) (run_op L s op)"
proof (cases "\<exists>hd evs. op = OpExecutorAppend hd evs")
  case True
  then show ?thesis using h i by (auto intro!: executor_append_frame [OF lay] simp: touched_def)
next
  case False
  then have "o_opaque_id ow = i" if "ParseOwner L (op_handle op) = Inr ow" for ow using h that by (cases op) auto
  then show ?thesis by (intro run_op_named) (use named_touched [OF lay i] False in auto)
qed

text \<open>
  C4: Isolation: whatever an operation returns and whichever system calls fail, it changes only
  files that the id in its handle names: the records of that id, the temporary files beside
  them, and its executor batches; this holds for every handle. Where ids are plain file names,
  these are never files of another owner: neither task, report or grant nor an executor batch.
  The store does not check that an id is a plain name (those that are minted are): one with
  parent components names the files of another owner, see \<open>id_names_victim\<close>.
\<close>

theorem store_isolation:
  assumes "run_op L s op w = (r, w')"
  shows "(\<forall>p. p \<notin> handle_files L s (op_handle op) \<longrightarrow> file_at w' p = file_at w p)
    \<and> (\<forall>hs i j p. store_layout s hs \<and> proper i \<and> proper j \<and> i \<noteq> j \<and> acts_for L op i \<and> p \<in> owned_files s j
         \<longrightarrow> file_at w' p = file_at w p)"
proof (intro conjI allI impI)
  have run: "file_at w' p = file_at w p" if "preserves P (run_op L s op)" "p \<notin> P" for P p
    using that assms unfolding preserves_def by (metis snd_conv)
  show "file_at w' p = file_at w p" if "p \<notin> handle_files L s (op_handle op)" for p by (rule run [OF run_op_handle that])
  fix hs i j p assume "store_layout s hs \<and> proper i \<and> proper j \<and> i \<noteq> j \<and> acts_for L op i \<and> p \<in> owned_files s j"
  with touched_disjoint [of s hs i j] run [OF run_op_frame [of s hs i L op], of p] show "file_at w' p = file_at w p" by blast
qed

section \<open>Data for witnesses\<close>

definition demo_store :: store where
  "demo_store = \<lparr>st_home = ''/s'', st_tasks_dir = ''/s/tasks'', st_reports_dir = ''/s/reports'',
     st_grants_dir = ''/s/grants'', st_events_dir = ''/s/events'', st_config = default_config\<rparr>"

lemma demo_layout: "store_layout demo_store [''s'']"
  by (simp add: store_layout_def demo_store_def abs_path_def proper_def)

definition demo_fs_baseline :: fs_baseline where
  "demo_fs_baseline = \<lparr>bl_scope = demo_validated, bl_captured_at = time_of_unix 0, bl_entries = [], bl_root_ids = []\<rparr>"

definition demo_proc_baseline :: proc_baseline where
  "demo_proc_baseline = \<lparr>pb_captured_at = time_of_unix 0, pb_processes = []\<rparr>"

definition demo_metadata :: owned_task_metadata where
  "demo_metadata = \<lparr>om_aliases = [], om_observation_mode = ObservationGuided, om_recovery_profile = RecoveryRecoverable\<rparr>"

definition demo_task :: task_record where
  "demo_task = \<lparr>tr_task_id = ''t'', tr_state = TaskActive, tr_created_at = time_of_unix 0, tr_heartbeat_at = time_of_unix 0,
     tr_baseline = demo_fs_baseline, tr_process_baseline = demo_proc_baseline, tr_events = [], tr_aliases = [],
     tr_observation_mode = ObservationGuided, tr_recovery_profile = RecoveryRecoverable, tr_executor_grants = []\<rparr>"

definition demo_report :: report where
  "demo_report = \<lparr>r_schema_version = ReportSchemaVersion, r_report_id = ''report-1'', r_task_id = ''t'',
     r_observation_mode = ObservationGuided, r_status = ReportNoCandidates, r_created_at = time_of_unix 1,
     r_verified_at = None, r_candidates = [], r_limitations = []\<rparr>"

definition demo_rr :: report_record where
  "demo_rr = new_report_record demo_report (time_of_unix 2) ''sha256:72'' []"

definition demo_revision :: verification_revision where
  "demo_revision = \<lparr>v_revision = 1, v_created_at = time_of_unix 3, v_previous_digest = ''sha256:72'', v_digest = ''sha256:73'',
     v_candidates = [], v_limitations = []\<rparr>"

definition demo_rr1 :: report_record where
  "demo_rr1 = demo_rr\<lparr>rr_revisions := [demo_revision]\<rparr>"

definition demo_grant :: retrospective_grant where
  "demo_grant = \<lparr>rg_scope = demo_scope, rg_started_at = time_of_unix 0, rg_ended_at = time_of_unix 5,
     rg_created_at = time_of_unix 0, rg_expires_at = time_of_unix 600\<rparr>"

definition demo_storelib :: storelib where
  "demo_storelib = \<lparr>json_owner = json_owner demo_caplib, unjson_owner = unjson_owner demo_caplib,
     json_executor = json_executor demo_caplib, unjson_executor = unjson_executor demo_caplib,
     json_claims = json_claims demo_caplib, ed_public = (\<lambda>_. replicate 32 CHR ''p''),
     ed_sign = ed_sign demo_caplib, ed_verify = ed_verify demo_caplib,
     aead_seal = (\<lambda>k n p a. p), aead_open = (\<lambda>k n c a. Some c), env_size = (\<lambda>_. 100), sha256 = (\<lambda>s. s),
     json_task = (\<lambda>_. Inr ''t''), unjson_task = (\<lambda>_. Some demo_task),
     json_report_record = (\<lambda>rr. if rr = demo_rr then Inr ''r'' else if rr = demo_rr1 then Inr ''s''
       else Inl (errors_new ''json'')),
     unjson_report_record = (\<lambda>p. if p = ''r'' then Some demo_rr else if p = ''s'' then Some demo_rr1 else None),
     json_grant = (\<lambda>_. Inr ''g''), unjson_grant = (\<lambda>_. Some demo_grant),
     json_batch = (\<lambda>_. Inr ''b''), unjson_batch = (\<lambda>_. Some \<lparr>eb_grant_id = ''g'', eb_events = []\<rparr>),
     json_report = (\<lambda>_. Inr ''r''), range_grants = (\<lambda>gs. gs)\<rparr>"

definition demo_handle :: string where
  "demo_handle = owner_string demo_storelib demo_owner"

lemma demo_parses: "ParseOwner demo_storelib demo_handle = Inr demo_owner"
  unfolding demo_handle_def
  by (simp add: ParseOwner_def owner_string_def decode_owner_def b64_decode_encode demo_storelib_def demo_cap_defs
      allZero_def list_all_iff del: b64_encode.simps)

definition demo_create :: store_op where
  "demo_create = OpCreate demo_handle ''t'' demo_fs_baseline demo_proc_baseline demo_metadata"

theorem store_isolation_witness:
  "file_at (snd (run_op demo_storelib demo_store demo_create demo_world)) (ownedReportPath demo_store ''other'')
     = file_at demo_world (ownedReportPath demo_store ''other'')"
proof -
  have "acts_for demo_storelib demo_create (o_opaque_id demo_owner)" by (simp add: demo_create_def demo_parses)
  moreover have "proper (o_opaque_id demo_owner) \<and> proper ''other'' \<and> o_opaque_id demo_owner \<noteq> ''other''"
    by (simp add: demo_owner_def proper_def)
  moreover have "ownedReportPath demo_store ''other'' \<in> owned_files demo_store ''other''" by (simp add: owned_files_def)
  ultimately show ?thesis
    using store_isolation [of demo_storelib demo_store demo_create demo_world "fst (run_op demo_storelib demo_store demo_create demo_world)"]
      demo_layout by (metis prod.collapse)
qed

text \<open>An id that is no plain name can name the report of another owner.\<close>

lemma id_names_victim:
  "ownedReportPath demo_store ''a/../victim'' = ownedReportPath demo_store ''victim''"
  "ownedReportPath demo_store ''victim'' \<in> owned_files demo_store ''victim'' \<inter> named_files demo_store ''a/../victim''"
proof -
  show *: "ownedReportPath demo_store ''a/../victim'' = ownedReportPath demo_store ''victim''" by code_simp
  show "ownedReportPath demo_store ''victim'' \<in> owned_files demo_store ''victim'' \<inter> named_files demo_store ''a/../victim''"
    unfolding owned_files_def named_files_def * by simp
qed

end
