(* ===== verification/Store_Refine.thy ===== *)
theory Store_Refine
  imports Store_Frame
begin

text \<open>
  The store refines an abstract machine on the records of one owner. The abstraction
  \<open>view\<close> decrypts what the owner's keys open; the machine \<open>lifecycle\<close> has the steps
  of a task, its report and its grant. Every operation of the store, under any failures, is a
  sequence of abstract steps; invariants of the machine carry over to the files.
\<close>


section \<open>What an owner can see\<close>

record owned_view =
  ov_task :: "task_record option"
  ov_report :: "report_record option"
  ov_grant :: "retrospective_grant option"

definition opened :: "'z storelib_scheme \<Rightarrow> owner \<Rightarrow> string \<Rightarrow> (string \<Rightarrow> 'v option) \<Rightarrow> content option \<Rightarrow> 'v option" where
  "opened L ow kind dec c =
     (case c of
        Some (Env e) \<Rightarrow>
          if en_record_kind e = kind \<and> en_public_key e = ownerPublicKey L ow
          then (case openRecord L dec e (o_record_key ow) of Inl _ \<Rightarrow> None | Inr v \<Rightarrow> Some v) else None
      | _ \<Rightarrow> None)"

definition view :: "'z storelib_scheme \<Rightarrow> store \<Rightarrow> owner \<Rightarrow> (string \<Rightarrow> content option) \<Rightarrow> owned_view" where
  "view L s ow fm =
     \<lparr>ov_task = opened L ow ''task'' (unjson_task L) (fm (ownedTaskPath s (o_opaque_id ow))),
      ov_report = opened L ow ''report'' (unjson_report_record L) (fm (ownedReportPath s (o_opaque_id ow))),
      ov_grant = opened L ow ''retrospective-grant'' (unjson_grant L) (fm (ownedGrantPath s (o_opaque_id ow)))\<rparr>"

text \<open>A record as it comes back from its JSON text.\<close>

definition stored :: "('v \<Rightarrow> string res) \<Rightarrow> (string \<Rightarrow> 'v option) \<Rightarrow> 'v \<Rightarrow> 'v option" where
  "stored enc dec v = (case enc v of Inl _ \<Rightarrow> None | Inr p \<Rightarrow> dec p)"

abbreviation stored_task where "stored_task L \<equiv> stored (json_task L) (unjson_task L)"
abbreviation stored_report where "stored_report L \<equiv> stored (json_report_record L) (unjson_report_record L)"
abbreviation stored_grant where "stored_grant L \<equiv> stored (json_grant L) (unjson_grant L)"

section \<open>The life of one owner's records\<close>

text \<open>
  The abstract machine: what may happen to the records of one owner. Nothing here knows of
  files, envelopes, clocks or failures.
\<close>

inductive lifecycle :: "'z storelib_scheme \<Rightarrow> owned_view \<Rightarrow> owned_view \<Rightarrow> bool" for L where
  begin_task: "ov_task v = None \<Longrightarrow> tr_state t = TaskActive \<Longrightarrow> tr_events t = [] \<Longrightarrow> tr_executor_grants t = [] \<Longrightarrow>
    lifecycle L v (v\<lparr>ov_task := stored_task L t\<rparr>)"
| append_events: "ov_task v = Some t \<Longrightarrow> tr_state t = TaskActive \<Longrightarrow>
    lifecycle L v (v\<lparr>ov_task := stored_task L (t\<lparr>tr_events := tr_events t @ es, tr_heartbeat_at := now\<rparr>)\<rparr>)"
| delegate: "ov_task v = Some t \<Longrightarrow> tr_state t = TaskActive \<Longrightarrow>
    lifecycle L v (v\<lparr>ov_task := stored_task L (t\<lparr>tr_executor_grants := AList.update g x (tr_executor_grants t)\<rparr>)\<rparr>)"
| publish: "ov_task v = Some t \<Longrightarrow> tr_state t = TaskActive \<Longrightarrow> r_task_id r = tr_task_id t \<Longrightarrow>
    validate_report r = Inr () \<Longrightarrow> reportDigest L r = Inr d \<Longrightarrow>
    lifecycle L v (v\<lparr>ov_report := stored_report L (new_report_record r now d ev)\<rparr>)"
| close_task: "ov_task v = Some t \<Longrightarrow> r_task_id r = tr_task_id t \<Longrightarrow> validate_report r = Inr () \<Longrightarrow>
    reportDigest L r = Inr d \<Longrightarrow> ov_report v = stored_report L (new_report_record r now d ev) \<Longrightarrow>
    lifecycle L v (v\<lparr>ov_task := None\<rparr>)"
| revise: "ov_report v = Some rr \<Longrightarrow> v_revision x = int (length (rr_revisions rr)) + 1 \<Longrightarrow>
    v_previous_digest x = last_digest rr \<Longrightarrow> v_digest x \<noteq> [] \<Longrightarrow>
    lifecycle L v (v\<lparr>ov_report := stored_report L (rr\<lparr>rr_revisions := rr_revisions rr @ [x]\<rparr>)\<rparr>)"
| retain: "ov_report v = Some rr \<Longrightarrow>
    lifecycle L v (v\<lparr>ov_report := stored_report L (rr\<lparr>rr_retained := True\<rparr>)\<rparr>)"
| forget: "ov_report v = Some rr \<Longrightarrow> lifecycle L v (v\<lparr>ov_report := None\<rparr>)"
| grant: "ov_grant v = None \<Longrightarrow> time_after (rg_expires_at g) (rg_created_at g) \<Longrightarrow>
    lifecycle L v (v\<lparr>ov_grant := stored_grant L g\<rparr>)"
| publish_retrospective: "ov_grant v = Some g \<Longrightarrow> r_task_id r = s_task_id (rg_scope g) \<Longrightarrow>
    validate_report r = Inr () \<Longrightarrow> reportDigest L r = Inr d \<Longrightarrow>
    lifecycle L v (v\<lparr>ov_report := stored_report L (new_report_record r now d [ev])\<rparr>)"
| close_grant: "ov_grant v = Some g \<Longrightarrow> r_task_id r = s_task_id (rg_scope g) \<Longrightarrow> validate_report r = Inr () \<Longrightarrow>
    reportDigest L r = Inr d \<Longrightarrow> ov_report v = stored_report L (new_report_record r now d [ev]) \<Longrightarrow>
    lifecycle L v (v\<lparr>ov_grant := None\<rparr>)"

section \<open>Effects on a view\<close>

text \<open>\<open>seen ab v m Q\<close>: from any files whose abstraction by \<open>ab\<close> is \<open>v\<close>, the result and the new abstraction satisfy \<open>Q\<close>.\<close>

definition seen :: "((string \<Rightarrow> 'c option) \<Rightarrow> 'v) \<Rightarrow> 'v \<Rightarrow> ('c, 'a) io \<Rightarrow> ('a res \<Rightarrow> 'v \<Rightarrow> bool) \<Rightarrow> bool" where
  "seen ab v m Q \<longleftrightarrow> (\<forall>fm. ab fm = v \<longrightarrow> after fm m (\<lambda>r fm'. Q r (ab fm')))"

lemma seen_bind:
  assumes "seen ab v m R" "\<And>e v'. R (Inl e) v' \<Longrightarrow> Q (Inl e) v'" "\<And>x v'. R (Inr x) v' \<Longrightarrow> seen ab v' (f x) Q"
  shows "seen ab v (io_bind m f) Q"
  unfolding seen_def
proof (intro allI impI after_bind)
  fix fm assume "ab fm = v"
  with assms(1) have "after fm m (\<lambda>r fm'. R r (ab fm'))" by (simp add: seen_def)
  then show "after fm m (\<lambda>r fm'. case r of Inl e \<Rightarrow> Q (Inl e) (ab fm') | Inr x \<Rightarrow> after fm' (f x) (\<lambda>r fm'. Q r (ab fm')))"
    by (rule after_mono) (use assms(2,3) in \<open>auto simp: seen_def split: sum.splits\<close>)
qed

text \<open>A step that changes no file, with what is known of its result.\<close>

lemma seen_reads:
  assumes "preserves {} m" "\<And>fm. ab fm = v \<Longrightarrow> after fm m (\<lambda>r fm'. case r of Inl _ \<Rightarrow> True | Inr x \<Rightarrow> K x)"
    "\<And>e. Q (Inl e) v" "\<And>x. K x \<Longrightarrow> seen ab v (f x) Q"
  shows "seen ab v (io_bind m f) Q"
proof (rule seen_bind [where R = "\<lambda>r v'. v' = v \<and> (case r of Inl _ \<Rightarrow> True | Inr x \<Rightarrow> K x)"])
  show "seen ab v m (\<lambda>r v'. v' = v \<and> (case r of Inl _ \<Rightarrow> True | Inr x \<Rightarrow> K x))"
    unfolding seen_def
  proof (intro allI impI afterI conjI)
    fix fm w r w' assume *: "ab fm = v" "file_at w = fm" "m w = (r, w')"
    from keeps_files [OF assms(1) *(3)] * show "ab (file_at w') = v" by simp
    from afterD [OF assms(2) [OF *(1)] *(2,3)] show "case r of Inl _ \<Rightarrow> True | Inr x \<Rightarrow> K x" .
  qed
qed (use assms(3,4) in auto)

lemma seen_keeps: "preserves {} m \<Longrightarrow> (\<And>r. Q r v) \<Longrightarrow> seen ab v m Q"
  by (auto simp: seen_def intro: after_keeps)

lemma seen_keeps_bind: "preserves {} m \<Longrightarrow> (\<And>e. Q (Inl e) v) \<Longrightarrow> (\<And>x. seen ab v (f x) Q) \<Longrightarrow> seen ab v (io_bind m f) Q"
  by (rule seen_reads [where K = "\<lambda>_. True"]) (auto intro!: after_keeps split: sum.splits)

lemma seen_mono: "seen ab v m Q \<Longrightarrow> (\<And>r v'. Q r v' \<Longrightarrow> Q' r v') \<Longrightarrow> seen ab v m Q'"
  by (auto simp: seen_def intro: after_mono)

lemma records_distinct:
  assumes "store_layout s hs" "proper i"
  shows "ownedTaskPath s i \<noteq> ownedReportPath s i" "ownedTaskPath s i \<noteq> ownedGrantPath s i"
    "ownedReportPath s i \<noteq> ownedGrantPath s i"
  and records_not_temp: "d \<in> {st_tasks_dir s, st_reports_dir s, st_grants_dir s} \<Longrightarrow>
    p \<in> {ownedTaskPath s i, ownedReportPath s i, ownedGrantPath s i} \<Longrightarrow> \<not> is_temp d p"
proof -
  note lay = assms(1) [unfolded store_layout_def]
  have i: "proper (i @ ''.are'')" using assms(2) by (simp add: proper_def)
  note own = owned_paths [OF assms, unfolded append_assoc append.simps]
  have inj: "abs_path (hs @ xs) = abs_path (hs @ ys) \<longleftrightarrow> xs = ys" if "list_all proper xs" "list_all proper ys" for xs ys
    using abs_path_inject [of "hs @ xs" "hs @ ys"] lay that by simp
  show "ownedTaskPath s i \<noteq> ownedReportPath s i" "ownedTaskPath s i \<noteq> ownedGrantPath s i"
    "ownedReportPath s i \<noteq> ownedGrantPath s i"
    unfolding own using i by (simp_all add: inj)
  show "\<not> is_temp d p" if dp: "d \<in> {st_tasks_dir s, st_reports_dir s, st_grants_dir s}"
    "p \<in> {ownedTaskPath s i, ownedReportPath s i, ownedGrantPath s i}"
  proof
    assume t: "is_temp d p"
    have "d \<in> (\<lambda>a. abs_path (hs @ [a])) ` {''tasks'', ''reports'', ''grants''}"
      "p \<in> (\<lambda>b. abs_path (hs @ [b, i @ ''.are''])) ` {''tasks'', ''reports'', ''grants''}"
      using dp lay own by auto
    then obtain a b where a: "proper a" "d = abs_path (hs @ [a])" and b: "proper b" "p = abs_path (hs @ [b, i @ ''.are''])"
      using proper_fixed by blast
    from t a lay obtain r where "p = abs_path (hs @ [a, temp_name r])" by (auto simp: is_temp_abs)
    with b a i inj [of "[b, i @ ''.are'']" "[a, temp_name r]"] show False
      by (simp add: are_not_temp proper_temp_name)
  qed
qed

lemma opened_sealed:
  assumes "sealed_as L kind opq rvn cr ex (ownerPublicKey L ow) prot (o_record_key ow) (enc v) e" "aead_ok L"
  shows "opened L ow kind dec (Some (Env e)) = stored enc dec v"
proof -
  from assms(1) obtain p where p: "enc v = Inr p" by (auto simp: sealed_as_def)
  from openRecord_sealed [OF assms(1) [unfolded p] assms(2), of dec] assms(1) p show ?thesis
    by (auto simp: opened_def stored_def sealed_as_def split: option.splits)
qed

text \<open>Writing a record replaces the file at its path or, on an error, may leave all as it was.\<close>

lemma after_writeOwned:
  assumes lay: "store_layout s hs" "proper i" and p: "path \<in> {ownedTaskPath s i, ownedReportPath s i, ownedGrantPath s i}"
    and Q: "\<And>er fm'. \<forall>q \<in> {ownedTaskPath s i, ownedReportPath s i, ownedGrantPath s i}. fm' q = fm q \<Longrightarrow> Q (Inl er) fm'"
      "\<And>r e fm'. sealed_as L k (o_opaque_id ow) rv cr ex (ownerPublicKey L ow) prot (o_record_key ow) v e \<Longrightarrow>
         fm' path = Some (Env e) \<Longrightarrow>
         \<forall>q \<in> {ownedTaskPath s i, ownedReportPath s i, ownedGrantPath s i}. q \<noteq> path \<longrightarrow> fm' q = fm q \<Longrightarrow> Q r fm'"
  shows "after fm (writeOwnedProtected L path k ow rv cr ex prot v) Q"
  unfolding writeOwnedProtected_def
proof (intro after_bind after_seal)
  fix e assume e: "sealed_as L k (o_opaque_id ow) rv cr ex (ownerPublicKey L ow) prot (o_record_key ow) v e"
  have d: "path_dir path \<in> {st_tasks_dir s, st_reports_dir s, st_grants_dir s}"
    using p record_path_facts [OF lay] by auto
  have "after fm (atomicWriteJSON path e) Q"
  proof (rule after_atomicWrite)
    show "\<not> is_temp (path_dir path) path" using records_not_temp [OF lay d p] .
    show "Q (Inr ()) (fm(path \<mapsto> Env e))" by (rule Q(2) [OF e]) simp_all
    fix er fm' assume fm': "fm' path \<in> {fm path, Some (Env e)}"
      "\<forall>q. q \<noteq> path \<and> \<not> is_temp (path_dir path) q \<longrightarrow> fm' q = fm q"
    have others: "\<forall>q \<in> {ownedTaskPath s i, ownedReportPath s i, ownedGrantPath s i}. q \<noteq> path \<longrightarrow> fm' q = fm q"
      using fm'(2) records_not_temp [OF lay d] by blast
    show "Q (Inl er) fm'"
    proof (cases "fm' path = fm path")
      case True
      with others show ?thesis by (intro Q(1)) metis
    next
      case False
      with fm'(1) have "fm' path = Some (Env e)" by blast
      from Q(2) [OF e this others] show ?thesis .
    qed
  qed
  then show "case Inr e of Inl e \<Rightarrow> Q (Inl e) fm | Inr v \<Rightarrow> after fm (atomicWriteJSON path v) Q" by simp
qed (simp add: Q(1))

text \<open>The setting of the refinement: an opened store, an owner with a plain id, a correct cipher.\<close>

definition sound_setting :: "'z storelib_scheme \<Rightarrow> store \<Rightarrow> owner \<Rightarrow> bool" where
  "sound_setting L s ow \<longleftrightarrow> (\<exists>hs. store_layout s hs) \<and> proper (o_opaque_id ow) \<and> aead_ok L"

lemma seen_write:
  assumes "sound_setting L s ow"
  shows "seen (view L s ow) v (writeOwnedProtected L (ownedTaskPath s (o_opaque_id ow)) ''task'' ow rv cr ex prot (json_task L t))
      (\<lambda>r v'. v' = v \<and> (\<exists>e. r = Inl e) \<or> v' = v\<lparr>ov_task := stored_task L t\<rparr>)" (is ?task)
    "seen (view L s ow) v (writeOwnedProtected L (ownedReportPath s (o_opaque_id ow)) ''report'' ow rv cr ex prot (json_report_record L rr))
      (\<lambda>r v'. v' = v \<and> (\<exists>e. r = Inl e) \<or> v' = v\<lparr>ov_report := stored_report L rr\<rparr>)" (is ?report)
    "seen (view L s ow) v (writeOwnedProtected L (ownedGrantPath s (o_opaque_id ow)) ''retrospective-grant'' ow rv cr ex prot (json_grant L g))
      (\<lambda>r v'. v' = v \<and> (\<exists>e. r = Inl e) \<or> v' = v\<lparr>ov_grant := stored_grant L g\<rparr>)" (is ?grant)
proof -
  from assms obtain hs where lay: "store_layout s hs" "proper (o_opaque_id ow)" and cipher: "aead_ok L"
    by (auto simp: sound_setting_def)
  note dist = records_distinct [OF lay]
  note op = opened_sealed [OF _ cipher]
  show ?task unfolding seen_def
    by (intro allI impI, rule after_writeOwned [OF lay]; use dist op [where enc = "json_task L"] in \<open>auto simp: view_def\<close>)
  show ?report unfolding seen_def
    by (intro allI impI, rule after_writeOwned [OF lay]; use dist op [where enc = "json_report_record L"] in \<open>auto simp: view_def\<close>)
  show ?grant unfolding seen_def
    by (intro allI impI, rule after_writeOwned [OF lay]; use dist op [where enc = "json_grant L"] in \<open>auto simp: view_def\<close>)
qed

lemma seen_remove:
  assumes "sound_setting L s ow"
  shows "seen (view L s ow) v (os_remove (ownedTaskPath s (o_opaque_id ow)))
      (\<lambda>r v'. v' = v \<and> (\<exists>e. r = Inl e) \<or> v' = v\<lparr>ov_task := None\<rparr>)" (is ?task)
    "seen (view L s ow) v (os_remove (ownedReportPath s (o_opaque_id ow)))
      (\<lambda>r v'. v' = v \<and> (\<exists>e. r = Inl e) \<or> v' = v\<lparr>ov_report := None\<rparr>)" (is ?report)
    "seen (view L s ow) v (os_remove (ownedGrantPath s (o_opaque_id ow)))
      (\<lambda>r v'. v' = v \<and> (\<exists>e. r = Inl e) \<or> v' = v\<lparr>ov_grant := None\<rparr>)" (is ?grant)
proof -
  from assms obtain hs where lay: "store_layout s hs" "proper (o_opaque_id ow)"
    by (auto simp: sound_setting_def)
  note dist = records_distinct [OF lay]
  show ?task ?report ?grant unfolding seen_def
    by (intro allI impI, rule after_remove; use dist in \<open>auto simp: view_def opened_def\<close>)+
qed

lemma seen_preserved:
  assumes "preserves P m" "ownedTaskPath s (o_opaque_id ow) \<notin> P" "ownedReportPath s (o_opaque_id ow) \<notin> P"
    "ownedGrantPath s (o_opaque_id ow) \<notin> P" "\<And>r. Q r v"
  shows "seen (view L s ow) v m Q"
  unfolding seen_def
proof (intro allI impI afterI)
  fix fm w r w' assume *: "view L s ow fm = v" "file_at w = fm" "m w = (r, w')"
  have "file_at w' q = fm q" if "q \<notin> P" for q using assms(1) * that by (auto simp: preserves_def) (metis snd_conv)
  then have "view L s ow (file_at w') = v" using assms(2-4) *(1) by (simp add: view_def)
  then show "Q r (view L s ow (file_at w'))" using assms(5) by simp
qed

section \<open>Reading\<close>

lemma or_denied_Inr [simp]: "or_denied m w = (Inr v, w') \<longleftrightarrow> m w = (Inr v, w')"
  by (auto simp: or_denied_def split: prod.splits sum.splits)

lemma denied_Inr [simp]: "denied w = (Inr v, w') \<longleftrightarrow> False"
  by (simp add: denied_def io_fail_def)

lemma io_pure_Inr [simp]:
  "io_lift r w = (Inr v, w') \<longleftrightarrow> r = Inr v \<and> w' = w" "io_return x w = (Inr v, w') \<longleftrightarrow> v = x \<and> w' = w"
  "io_fail e w = (Inr v, w') \<longleftrightarrow> False"
  by (auto simp: io_lift_def io_return_def io_fail_def)

lemma if_denied_Inr [simp]: "(if c then denied else m) w = (Inr v, w') \<longleftrightarrow> \<not> c \<and> m w = (Inr v, w')"
  by simp

lemma load_view:
  assumes "loadOwnedTaskUnlocked L s ow w = (Inr t, w')"
  shows "ov_task (view L s ow (file_at w)) = Some t" "tr_state t = TaskActive"
proof -
  from assms obtain e w1 where e: "readEncryptedEnvelope L (ownedTaskPath s (o_opaque_id ow)) w = (Inr e, w1)"
    "en_record_kind e = ''task''" "en_public_key e = ownerPublicKey L ow"
    "openRecord L (unjson_task L) e (o_record_key ow) = Inr t" and st: "tr_state t = TaskActive"
    by (auto simp: loadOwnedTaskUnlocked_def elim!: io_bind_Inr split: if_splits)
  from readEncryptedEnvelope_Inr [OF e(1)] e show "ov_task (view L s ow (file_at w)) = Some t"
    by (simp add: view_def opened_def)
  show "tr_state t = TaskActive" by (rule st)
qed

lemma open_report_view:
  assumes "open_report L s ow w = (Inr (e, rr), w')"
  shows "ov_report (view L s ow (file_at w)) = Some rr"
proof -
  from assms obtain w1 where e: "readEncryptedEnvelope L (ownedReportPath s (o_opaque_id ow)) w = (Inr e, w1)"
    "en_record_kind e = ''report''" "en_public_key e = ownerPublicKey L ow"
    "openRecord L (unjson_report_record L) e (o_record_key ow) = Inr rr"
    by (auto simp: open_report_def elim!: io_bind_Inr split: if_splits)
  from readEncryptedEnvelope_Inr [OF e(1)] e show ?thesis by (simp add: view_def opened_def)
qed

lemma open_grant_view:
  assumes "open_grant L s ow w = (Inr g, w')"
  shows "ov_grant (view L s ow (file_at w)) = Some g"
proof -
  from assms obtain e w1 where e: "readEncryptedEnvelope L (ownedGrantPath s (o_opaque_id ow)) w = (Inr e, w1)"
    "en_record_kind e = ''retrospective-grant''" "en_public_key e = ownerPublicKey L ow"
    "openRecord L (unjson_grant L) e (o_record_key ow) = Inr g"
    by (auto simp: open_grant_def elim!: io_bind_Inr split: if_splits)
  from readEncryptedEnvelope_Inr [OF e(1)] e show ?thesis by (simp add: view_def opened_def)
qed

lemma require_absent_Inr:
  assumes "require_absent p w = (Inr u, w')"
  shows "file_at w p = None"
  using assms
  by (auto simp: require_absent_def io_try_def os_stat_def sys_def split: option.splits if_splits sum.splits
      elim!: io_bind_Inr)

lemma no_extra_events [simp]: "\<exists>evs. t = t\<lparr>tr_events := tr_events t @ evs\<rparr>"
  by (rule exI [of _ "[]"]) simp

lemma merge_entries_same:
  "merge_entries L ow d t es w = (Inr t', w') \<Longrightarrow> \<exists>evs. t' = t\<lparr>tr_events := tr_events t @ evs\<rparr>"
proof (induction L ow d t es arbitrary: w rule: merge_entries.induct)
  case (2 L ow d t name is_dir es)
  show ?case
  proof (cases "is_dir \<or> path_ext name \<noteq> ''.are''")
    case True
    with 2 show ?thesis by auto
  next
    case False
    with 2(3) obtain g evs w1 where g: "grant_of_entry (range_grants L (tr_executor_grants t)) name = Some g" "fst g \<noteq> []"
      "merge_entries L ow d (t\<lparr>tr_events := tr_events t @ evs\<rparr>) es w1 = (Inr t', w')"
      by (auto elim!: io_bind_Inr split: option.splits if_splits)
    from 2(2) [OF False g(1,2,3)] show ?thesis by (auto intro: exI [of _ "evs @ _"])
  qed
qed auto

lemma merge_same:
  assumes "mergeExecutorEvents L s ow t w = (Inr t', w')"
  shows "\<exists>evs. t' = t\<lparr>tr_events := tr_events t @ evs\<rparr>"
  using assms
  by (auto simp: mergeExecutorEvents_def Let_def intro: merge_entries_same
      elim!: io_bind_Inr split: sum.splits if_splits)

section \<open>Every operation is a sequence of abstract steps\<close>

abbreviation simulates :: "'z storelib_scheme \<Rightarrow> store \<Rightarrow> owner \<Rightarrow> (content, 'a) io \<Rightarrow> bool" where
  "simulates L s ow m \<equiv> \<forall>v. seen (view L s ow) v m (\<lambda>_ v'. (lifecycle L)\<^sup>*\<^sup>* v v')"

lemma seen_known:
  assumes "preserves {} m" "\<And>w x w'. ab (file_at w) = v \<Longrightarrow> m w = (Inr x, w') \<Longrightarrow> K x"
    "\<And>e. Q (Inl e) v" "\<And>x. K x \<Longrightarrow> seen ab v (f x) Q"
  shows "seen ab v (io_bind m f) Q"
  by (rule seen_reads [OF assms(1), where K = K]) (use assms in \<open>auto simp: after_def split: prod.splits sum.splits\<close>)

lemma seen_stop: "Q (Inl ErrAccessDenied) v \<Longrightarrow> seen ab v denied Q" "Q (Inl e) v \<Longrightarrow> seen ab v (io_fail e) Q"
  "Q (Inr x) v \<Longrightarrow> seen ab v (io_return x) Q"
  by (auto simp: seen_def intro!: after_pure after_denied)

text \<open>A final write or removal that makes one abstract step.\<close>

lemma seen_one_step:
  assumes "seen ab v m (\<lambda>r v'. v' = v \<and> (\<exists>e. r = Inl e) \<or> v' = u)" "R v u"
  shows "seen ab v m (\<lambda>_ v'. R\<^sup>*\<^sup>* v v')"
  using assms by (elim seen_mono) auto

lemma seen_first_step:
  assumes "seen ab v m (\<lambda>r v'. v' = v \<and> (\<exists>e. r = Inl e) \<or> v' = u)" "R v u"
    "\<And>x. seen ab u (f x) (\<lambda>_ v'. R\<^sup>*\<^sup>* u v')"
  shows "seen ab v (io_bind m f) (\<lambda>_ v'. R\<^sup>*\<^sup>* v v')"
proof (rule seen_bind [OF assms(1)])
  show "R\<^sup>*\<^sup>* v v'" if "v' = v \<and> (\<exists>e'. Inl e = Inl e') \<or> v' = u" for e v' using that assms(2) by auto
  show "seen ab v' (f x) (\<lambda>_ v'. R\<^sup>*\<^sup>* v v')" if "v' = v \<and> (\<exists>e. Inr x = Inl e) \<or> v' = u" for x v'
    using that assms(2,3) by (auto intro: seen_mono converse_rtranclp_into_rtranclp)
qed

text \<open>Rules for the reading steps, each with what it reveals of the view.\<close>

lemma seen_owner:
  "ParseOwner L h = Inr ow \<Longrightarrow> (\<And>e. Q (Inl e) v) \<Longrightarrow> seen ab v (f ow) Q \<Longrightarrow>
     seen ab v (io_bind (or_denied (io_lift (ParseOwner L h))) f) Q"
  by (rule seen_known [where K = "\<lambda>x. x = ow"]) auto

lemma seen_clock: "(\<And>e. Q (Inl e) v) \<Longrightarrow> (\<And>t. seen ab v (f t) Q) \<Longrightarrow> seen ab v (io_bind (store_clock s) f) Q"
  by (rule seen_keeps_bind) simp_all

lemma seen_absent:
  assumes "\<And>e. Q (Inl e) v"
  shows "(ov_task v = None \<Longrightarrow> seen (view L s ow) v (f ()) Q) \<Longrightarrow>
      seen (view L s ow) v (io_bind (require_absent (ownedTaskPath s (o_opaque_id ow))) f) Q"
    "(ov_grant v = None \<Longrightarrow> seen (view L s ow) v (f ()) Q) \<Longrightarrow>
      seen (view L s ow) v (io_bind (require_absent (ownedGrantPath s (o_opaque_id ow))) f) Q"
proof -
  assume c: "ov_task v = None \<Longrightarrow> seen (view L s ow) v (f ()) Q"
  show "seen (view L s ow) v (io_bind (require_absent (ownedTaskPath s (o_opaque_id ow))) f) Q"
    by (rule seen_known [where K = "\<lambda>_. ov_task v = None"])
      (use assms c in \<open>auto simp: view_def opened_def dest: require_absent_Inr\<close>)
next
  assume c: "ov_grant v = None \<Longrightarrow> seen (view L s ow) v (f ()) Q"
  show "seen (view L s ow) v (io_bind (require_absent (ownedGrantPath s (o_opaque_id ow))) f) Q"
    by (rule seen_known [where K = "\<lambda>_. ov_grant v = None"])
      (use assms c in \<open>auto simp: view_def opened_def dest: require_absent_Inr\<close>)
qed

lemma seen_load:
  assumes "\<And>e. Q (Inl e) v" "\<And>t. ov_task v = Some t \<Longrightarrow> tr_state t = TaskActive \<Longrightarrow> seen (view L s ow) v (f t) Q"
  shows "seen (view L s ow) v (io_bind (or_denied (loadOwnedTaskUnlocked L s ow)) f) Q"
  by (rule seen_known [where K = "\<lambda>t. ov_task v = Some t \<and> tr_state t = TaskActive"])
    (use assms load_view in \<open>auto intro: preserves_or_denied\<close>)

lemma seen_load_merged:
  assumes "\<And>e. Q (Inl e) v"
    "\<And>t t'. ov_task v = Some t \<Longrightarrow> tr_state t = TaskActive \<Longrightarrow> tr_task_id t' = tr_task_id t \<Longrightarrow> seen (view L s ow) v (f t') Q"
  shows "seen (view L s ow) v (io_bind (or_denied (io_bind (loadOwnedTaskUnlocked L s ow)
           (\<lambda>task. mergeExecutorEvents L s ow task))) f) Q"
  by (rule seen_known [where K = "\<lambda>t'. \<exists>t. ov_task v = Some t \<and> tr_state t = TaskActive \<and> tr_task_id t' = tr_task_id t"])
    (use assms load_view merge_same in \<open>fastforce intro: preserves_or_denied preserves_bind elim!: io_bind_Inr\<close>)+

lemma seen_open_report:
  assumes "\<And>e. Q (Inl e) v" "\<And>e rr. ov_report v = Some rr \<Longrightarrow> seen (view L s ow) v (f (e, rr)) Q"
  shows "seen (view L s ow) v (io_bind (open_report L s ow) f) Q"
  by (rule seen_known [where K = "\<lambda>(e, rr). ov_report v = Some rr"])
    (use assms open_report_view in \<open>auto split: prod.splits\<close>)

lemma seen_open_grant:
  assumes "\<And>e. Q (Inl e) v" "\<And>g. ov_grant v = Some g \<Longrightarrow> seen (view L s ow) v (f g) Q"
  shows "seen (view L s ow) v (io_bind (open_grant L s ow) f) Q"
  by (rule seen_known [where K = "\<lambda>g. ov_grant v = Some g"]) (use assms open_grant_view in auto)

lemma seen_lift: "(\<And>e. r = Inl e \<Longrightarrow> Q (Inl e) v) \<Longrightarrow> (\<And>x. r = Inr x \<Longrightarrow> seen ab v (f x) Q) \<Longrightarrow> seen ab v (io_bind (io_lift r) f) Q"
  by (cases r) (auto simp: seen_def after_def io_bind_def io_lift_def split: prod.splits)

lemma seen_if: "(c \<Longrightarrow> seen ab v m Q) \<Longrightarrow> (\<not> c \<Longrightarrow> seen ab v m' Q) \<Longrightarrow> seen ab v (if c then m else m') Q"
  by simp

lemmas seen_intros = seen_stop seen_if seen_clock seen_absent seen_load seen_load_merged
  seen_open_report seen_open_grant seen_lift

lemma sim_create:
  assumes "sound_setting L s ow" "ParseOwner L h = Inr ow"
  shows "simulates L s ow (CreateOwnedTaskWithMetadata L s h tid b p m)"
  unfolding CreateOwnedTaskWithMetadata_def Let_def writeOwned_def new_task_def
  by (intro allI seen_owner [OF assms(2)] seen_intros seen_one_step [OF seen_write(1) [OF assms(1)]] begin_task) simp_all

lemma sim_append:
  assumes "sound_setting L s ow" "ParseOwner L h = Inr ow"
  shows "simulates L s ow (AppendOwnedEvents L s h es)"
  unfolding AppendOwnedEvents_def writeOwned_def
  by (intro allI seen_owner [OF assms(2)] seen_intros seen_one_step [OF seen_write(1) [OF assms(1)]] append_events) simp_all

lemma sim_revise:
  assumes "sound_setting L s ow" "ParseOwner L h = Inr ow"
  shows "simulates L s ow (AppendOwnedRevision L s h x)"
  unfolding AppendOwnedRevision_def split_def
  by (intro allI seen_owner [OF assms(2)] seen_intros seen_one_step [OF seen_write(2) [OF assms(1)]] revise) simp_all

lemma sim_retain:
  assumes "sound_setting L s ow" "ParseOwner L h = Inr ow"
  shows "simulates L s ow (RetainOwnedReport L s h)"
  unfolding RetainOwnedReport_def split_def
  by (intro allI seen_owner [OF assms(2)] seen_intros seen_one_step [OF seen_write(2) [OF assms(1)]] retain) simp_all

lemma sim_create_grant:
  assumes "sound_setting L s ow" "ParseOwner L h = Inr ow"
  shows "simulates L s ow (CreateRetrospectiveGrant L s h g)"
  unfolding CreateRetrospectiveGrant_def Let_def writeOwned_def
  by (intro allI seen_owner [OF assms(2)] seen_intros seen_one_step [OF seen_write(3) [OF assms(1)]] grant) simp_all

lemma sim_forget:
  assumes "sound_setting L s ow" "ParseOwner L h = Inr ow"
  shows "simulates L s ow (ForgetOwnedReport L s h)"
  unfolding ForgetOwnedReport_def split_def
  by (intro allI seen_owner [OF assms(2)] seen_intros seen_first_step [OF seen_remove(2) [OF assms(1)]] forget) (auto intro: seen_keeps)

lemma sim_delegate:
  assumes "sound_setting L s ow" "ParseOwner L h = Inr ow"
  shows "simulates L s ow (DelegateOwnedExecutor L s h t ts rs)"
proof -
  have draw: "seen ab v (io_bind (draw_random n) f) Q" if "\<And>e. Q (Inl e) v" "\<And>x. seen ab v (f x) Q"
    for ab :: "(string \<Rightarrow> content option) \<Rightarrow> owned_view" and v n Q and f :: "string \<Rightarrow> (content, string) io"
    by (rule seen_keeps_bind) (use that in simp_all)
  show ?thesis unfolding DelegateOwnedExecutor_def writeOwned_def
    by (intro allI seen_owner [OF assms(2)] seen_intros draw seen_first_step [OF seen_write(1) [OF assms(1)]] delegate) simp_all
qed

lemma records_not_events:
  assumes "store_layout s hs" "proper i" "sep \<notin> set n"
    "p \<in> {ownedTaskPath s i, ownedReportPath s i, ownedGrantPath s i}" "proper j"
  shows "p \<noteq> path_join (ownedEventDir s j) n" "p \<noteq> ownedEventDir s j"
proof -
  note lay = assms(1) [unfolded store_layout_def]
  note own = owned_paths [OF assms(1,2), unfolded append_assoc append.simps]
  note ownj = owned_paths [OF assms(1,5), unfolded append_assoc append.simps]
  have i: "proper (i @ ''.are'')" using assms(2) by (simp add: proper_def)
  have "p \<in> (\<lambda>b. abs_path (hs @ [b, i @ ''.are''])) ` {''tasks'', ''reports'', ''grants''}"
    using assms(4) own by auto
  then obtain b where b: "b \<in> {''tasks'', ''reports'', ''grants''}" "p = abs_path (hs @ [b, i @ ''.are''])" by blast
  then have pb: "proper b" "b \<noteq> ''events''" by auto
  have ne: "p \<noteq> abs_path (hs @ xs)" if "list_all proper xs" "xs \<noteq> [b, i @ ''.are'']" for xs
    using abs_path_inject [of "hs @ xs" "hs @ [b, i @ ''.are'']"] lay that i pb b(2) by auto
  have ev: "list_all proper ((hs @ [''events'']) @ [j])" using lay assms(5) by simp
  have "p \<noteq> abs_path (hs @ [''events''])" "p \<noteq> abs_path (hs @ [''events'', j])"
    "proper n \<Longrightarrow> p \<noteq> abs_path (hs @ [''events'', j, n])"
    by (rule ne; use pb assms(5) in simp)+
  then show "p \<noteq> path_join (ownedEventDir s j) n" "p \<noteq> ownedEventDir s j"
    using join_cases [OF ev assms(3)] ownj(4) by auto
qed

lemma seen_remove_dir:
  assumes "sound_setting L s ow" "\<And>r. Q r v"
  shows "seen (view L s ow) v (removeDirectoryFiles (ownedEventDir s (o_opaque_id ow))) Q"
proof -
  from assms(1) obtain hs where lay: "store_layout s hs" "proper (o_opaque_id ow)"
    by (auto simp: sound_setting_def)
  let ?d = "ownedEventDir s (o_opaque_id ow)"
  let ?P = "insert ?d {p. \<exists>n. sep \<notin> set n \<and> p = path_join ?d n}"
  have out: "p \<notin> ?P" if "p \<in> {ownedTaskPath s (o_opaque_id ow), ownedReportPath s (o_opaque_id ow), ownedGrantPath s (o_opaque_id ow)}" for p
    using records_not_events [OF lay _ that lay(2)] by auto (metis empty_iff empty_set)
  show ?thesis
    by (rule seen_preserved [where P = ?P]) (use out assms(2) in \<open>auto intro!: preserves_removeDirectoryFiles\<close>)
qed

lemma seen_step_bind:
  assumes "seen ab v m (\<lambda>_ v'. v' = v)" "\<And>e. Q (Inl e) v" "\<And>x. seen ab v (f x) Q"
  shows "seen ab v (io_bind m f) Q"
  by (rule seen_bind [OF assms(1)]) (use assms(2,3) in auto)

lemma sim_complete:
  assumes "sound_setting L s ow" "ParseOwner L h = Inr ow"
  shows "simulates L s ow (CompleteOwnedTask L s h r ev)"
proof -
  note rmdir = seen_step_bind [OF seen_remove_dir [OF assms(1)]]
  note sync = seen_keeps [OF keeps_sync]
  show ?thesis unfolding CompleteOwnedTask_def writeOwned_def
    by (intro allI seen_owner [OF assms(2)] seen_intros seen_first_step [OF seen_write(2) [OF assms(1)]]
       publish seen_first_step [OF seen_remove(1) [OF assms(1)]] close_task rmdir sync) simp_all
qed

lemma sim_complete_grant:
  assumes "sound_setting L s ow" "ParseOwner L h = Inr ow"
  shows "simulates L s ow (CompleteRetrospectiveGrant L s h r ev)"
proof -
  note sync = seen_keeps [OF keeps_sync]
  show ?thesis unfolding CompleteRetrospectiveGrant_def writeOwned_def
    by (intro allI seen_owner [OF assms(2)] seen_intros seen_first_step [OF seen_write(2) [OF assms(1)]]
       publish_retrospective seen_first_step [OF seen_remove(3) [OF assms(1)]] close_grant sync) simp_all
qed

section \<open>Simulation\<close>

text \<open>
  The interface between a detailed system and its abstract machine: an abstraction function
  under which every detailed step is a sequence of abstract ones.
\<close>

locale simulation =
  fixes ab :: "'w \<Rightarrow> 'a" and cstep :: "'w \<Rightarrow> 'w \<Rightarrow> bool" and astep :: "'a \<Rightarrow> 'a \<Rightarrow> bool"
  assumes step: "cstep w w' \<Longrightarrow> astep\<^sup>*\<^sup>* (ab w) (ab w')"
begin

lemma runs: "cstep\<^sup>*\<^sup>* w w' \<Longrightarrow> astep\<^sup>*\<^sup>* (ab w) (ab w')"
  by (induction rule: rtranclp_induct) (auto dest: step)

lemma invariant:
  assumes "cstep\<^sup>*\<^sup>* w w'" "I (ab w)" "\<And>a b. I a \<Longrightarrow> astep a b \<Longrightarrow> I b"
  shows "I (ab w')"
  using runs [OF assms(1)] assms(2) by (induction rule: rtranclp_induct) (auto intro: assms(3))

end

text \<open>
  An operation this owner has to live with: its handle is the owner's own, or belongs to
  another opaque id, or is an executor handle with plain ids. Nobody else holds an owner
  handle with this owner's id.
\<close>

fun admissible :: "'z caplib_scheme \<Rightarrow> owner \<Rightarrow> store_op \<Rightarrow> bool" where
  "admissible L ow (OpExecutorAppend h es) =
     (\<forall>now x. ParseExecutor L h now = Inr x \<longrightarrow> proper (x_opaque_id x) \<and> sep \<notin> set (x_grant_id x))"
| "admissible L ow op =
     (\<forall>ow'. ParseOwner L (op_handle op) = Inr ow' \<longrightarrow>
        ow' = ow \<or> proper (o_opaque_id ow') \<and> o_opaque_id ow' \<noteq> o_opaque_id ow)"

inductive store_step :: "'z storelib_scheme \<Rightarrow> store \<Rightarrow> owner \<Rightarrow> content world \<Rightarrow> content world \<Rightarrow> bool"
  for L s ow where
  "sound_setting L s ow \<Longrightarrow> admissible L ow op \<Longrightarrow> run_op L s op w = (r, w') \<Longrightarrow> store_step L s ow w w'"

inductive_cases store_stepE: "store_step L s ow w w'"

lemma sim_reads: "preserves {} m \<Longrightarrow> simulates L s ow m"
  by (auto intro!: seen_keeps)

lemma sim_void: "simulates L s ow m \<Longrightarrow> simulates L s ow (io_void m)"
  unfolding io_void_def
  by (intro allI seen_bind [where R = "\<lambda>_ v'. (lifecycle L)\<^sup>*\<^sup>* v v'" for v]) (auto intro!: seen_stop)

lemma sim_own:
  assumes set: "sound_setting L s ow" and h: "ParseOwner L (op_handle op) = Inr ow"
    and op: "\<And>hd es. op \<noteq> OpExecutorAppend hd es"
  shows "simulates L s ow (run_op L s op)"
proof (cases op)
  case (OpLoad hd)
  then show ?thesis
    by (simp add: sim_reads preserves_void preserves_bind LoadOwnedTask_def)
next
  case (OpLoadForEnd hd)
  then show ?thesis
    by (simp add: sim_reads preserves_void preserves_bind LoadOwnedTaskForEnd_def)
next
  case (OpGetReport hd)
  have "preserves {} (GetOwnedReport L s hd)"
    unfolding GetOwnedReport_def by (auto intro!: preserves_bind preserves_or_denied)
  then show ?thesis using OpGetReport by (simp add: sim_reads preserves_void)
next
  case (OpLoadGrant hd)
  then show ?thesis
    by (simp add: sim_reads preserves_void preserves_bind LoadRetrospectiveGrant_def)
qed (use h op sim_void [OF sim_delegate [OF set]] sim_create [OF set] sim_append [OF set] sim_complete [OF set] sim_revise [OF set] sim_retain [OF set]
    sim_forget [OF set] sim_create_grant [OF set] sim_complete_grant [OF set] in simp_all)

lemma sim_executor:
  assumes set: "sound_setting L s ow" and adm: "admissible L ow (OpExecutorAppend h es)"
  shows "simulates L s ow (AppendOwnedExecutorEvents L s h es)"
proof (rule allI)
  fix v
  from set obtain hs where lay: "store_layout s hs" "proper (o_opaque_id ow)" by (auto simp: sound_setting_def)
  let ?P = "\<Union>j \<in> {j. proper j}. event_files s j"
  have fr: "preserves ?P (AppendOwnedExecutorEvents L s h es)"
    by (rule executor_append_frame [OF lay(1)]) (use adm in auto)
  have "p \<notin> ?P" if "p \<in> {ownedTaskPath s (o_opaque_id ow), ownedReportPath s (o_opaque_id ow), ownedGrantPath s (o_opaque_id ow)}" for p
    using records_not_events(1) [OF lay _ that] by (auto simp: event_files_def)
  then show "seen (view L s ow) v (AppendOwnedExecutorEvents L s h es) (\<lambda>_ v'. (lifecycle L)\<^sup>*\<^sup>* v v')"
    by (intro seen_preserved [OF fr]) auto
qed

lemma sim_op:
  assumes set: "sound_setting L s ow" and adm: "admissible L ow op"
  shows "simulates L s ow (run_op L s op)"
proof (cases "\<exists>h es. op = OpExecutorAppend h es")
  case True
  then show ?thesis using sim_executor [OF set] adm by auto
next
  case no_ex: False
  then have adm': "\<forall>ow'. ParseOwner L (op_handle op) = Inr ow' \<longrightarrow>
      ow' = ow \<or> proper (o_opaque_id ow') \<and> o_opaque_id ow' \<noteq> o_opaque_id ow"
    using adm by (cases op) auto
  from set obtain hs where lay: "store_layout s hs" "proper (o_opaque_id ow)" by (auto simp: sound_setting_def)
  show ?thesis
  proof (cases "ParseOwner L (op_handle op) = Inr ow")
    case True
    then show ?thesis using sim_own [OF set] no_ex by blast
  next
    case False
    obtain j where j: "proper j" "j \<noteq> o_opaque_id ow" and acts: "acts_for L op j"
    proof (cases "ParseOwner L (op_handle op)")
      case (Inl e)
      have "acts_for L op ''x''" "acts_for L op ''y''" using Inl no_ex by (cases op; simp)+
      then show ?thesis using that [of "''x''"] that [of "''y''"] by (cases "o_opaque_id ow = ''x''") (auto simp: proper_def)
    next
      case (Inr ow')
      then have "acts_for L op (o_opaque_id ow')" using no_ex by (cases op) auto
      then show ?thesis using that Inr adm' False by auto
    qed
    have "p \<notin> touched s j" if "p \<in> {ownedTaskPath s (o_opaque_id ow), ownedReportPath s (o_opaque_id ow), ownedGrantPath s (o_opaque_id ow)}" for p
      using touched_disjoint [OF lay(1) j(1) lay(2) j(2)] that unfolding owned_files_def by blast
    then show ?thesis by (intro allI seen_preserved [OF run_op_frame [OF lay(1) j(1) acts]]) auto
  qed
qed

interpretation store_sim: simulation "\<lambda>w. view L s ow (file_at w)" "store_step L s ow" "lifecycle L" for L s ow
proof
  fix w w' assume "store_step L s ow w w'"
  then obtain op r where op: "sound_setting L s ow" "admissible L ow op" "run_op L s op w = (r, w')"
    by (rule store_stepE)
  from sim_op [OF op(1,2)] have "after (file_at w) (run_op L s op)
      (\<lambda>_ fm'. (lifecycle L)\<^sup>*\<^sup>* (view L s ow (file_at w)) (view L s ow fm'))"
    by (simp add: seen_def)
  from afterD [OF this refl op(3)] show "(lifecycle L)\<^sup>*\<^sup>* (view L s ow (file_at w)) (view L s ow (file_at w'))" .
qed

section \<open>The chain of verification revisions\<close>

definition chain_ok :: "report_record \<Rightarrow> bool" where
  "chain_ok rr \<longleftrightarrow> (\<forall>k < length (rr_revisions rr).
     v_revision (rr_revisions rr ! k) = int k + 1 \<and> v_digest (rr_revisions rr ! k) \<noteq> []
     \<and> v_previous_digest (rr_revisions rr ! k)
         = (if k = 0 then rr_original_digest rr else v_digest (rr_revisions rr ! (k - 1))))"

text \<open>
  What is relied on of JSON: numbers come back unchanged and strings come back by one function
  (Go replaces invalid UTF-8) that keeps the empty string and nothing else empty.
\<close>

definition json_keeps_links :: "'z storelib_scheme \<Rightarrow> bool" where
  "json_keeps_links L \<longleftrightarrow> (\<forall>rr rr'. stored_report L rr = Some rr' \<longrightarrow>
     (\<exists>g. (\<forall>x. g x = [] \<longleftrightarrow> x = []) \<and> rr_original_digest rr' = g (rr_original_digest rr)
        \<and> map v_revision (rr_revisions rr') = map v_revision (rr_revisions rr)
        \<and> map v_digest (rr_revisions rr') = map (g \<circ> v_digest) (rr_revisions rr)
        \<and> map v_previous_digest (rr_revisions rr') = map (g \<circ> v_previous_digest) (rr_revisions rr)))"

lemma stored_chain:
  assumes "json_keeps_links L" "stored_report L rr = Some rr'" "chain_ok rr"
  shows "chain_ok rr'"
proof -
  from assms(1,2) obtain g where g: "\<forall>x. g x = [] \<longleftrightarrow> x = []" "rr_original_digest rr' = g (rr_original_digest rr)"
    and m: "map v_revision (rr_revisions rr') = map v_revision (rr_revisions rr)"
      "map v_digest (rr_revisions rr') = map (g \<circ> v_digest) (rr_revisions rr)"
      "map v_previous_digest (rr_revisions rr') = map (g \<circ> v_previous_digest) (rr_revisions rr)"
    unfolding json_keeps_links_def by blast
  have len: "length (rr_revisions rr') = length (rr_revisions rr)" using m(1) map_eq_imp_length_eq by blast
  have nth: "v_revision (rr_revisions rr' ! k) = v_revision (rr_revisions rr ! k)"
    "v_digest (rr_revisions rr' ! k) = g (v_digest (rr_revisions rr ! k))"
    "v_previous_digest (rr_revisions rr' ! k) = g (v_previous_digest (rr_revisions rr ! k))"
    if "k < length (rr_revisions rr)" for k
    using m [THEN arg_cong, of "\<lambda>xs. xs ! k"] that len by simp_all
  show ?thesis using assms(3) g nth len by (auto simp: chain_ok_def)
qed

lemma chain_append:
  assumes "chain_ok rr" "v_revision x = int (length (rr_revisions rr)) + 1" "v_previous_digest x = last_digest rr" "v_digest x \<noteq> []"
  shows "chain_ok (rr\<lparr>rr_revisions := rr_revisions rr @ [x]\<rparr>)"
  using assms by (auto simp: chain_ok_def nth_append last_digest_def last_conv_nth less_Suc_eq)

lemma chain_step:
  assumes "json_keeps_links L" "lifecycle L v v'" "\<And>rr. ov_report v = Some rr \<Longrightarrow> chain_ok rr" "ov_report v' = Some rr"
  shows "chain_ok rr"
  using assms(2)
proof cases
  case (revise rr0 x)
  then show ?thesis using stored_chain [OF assms(1)] chain_append assms(3,4) by auto
next
  case (retain rr0)
  moreover have "chain_ok (rr0\<lparr>rr_retained := True\<rparr>)" using assms(3) retain by (auto simp: chain_ok_def)
  ultimately show ?thesis using stored_chain [OF assms(1)] assms(4) by auto
next
  case (publish t r d now ev)
  then show ?thesis using stored_chain [OF assms(1)] assms(4) by (auto simp: chain_ok_def new_report_record_def)
next
  case (publish_retrospective g r d now ev)
  then show ?thesis using stored_chain [OF assms(1)] assms(4) by (auto simp: chain_ok_def new_report_record_def)
qed (use assms(3,4) in auto)

section \<open>Properties\<close>

definition demo_w1 :: "content world" where
  "demo_w1 = snd (run_op demo_storelib demo_store demo_create demo_world)"

definition demo_w2 :: "content world" where
  "demo_w2 = snd (run_op demo_storelib demo_store (OpComplete demo_handle demo_report []) demo_w1)"

definition demo_w3 :: "content world" where
  "demo_w3 = snd (run_op demo_storelib demo_store (OpRevise demo_handle demo_revision) demo_w2)"

lemma demo_setting: "sound_setting demo_storelib demo_store demo_owner"
  using demo_layout by (auto simp: sound_setting_def demo_owner_def proper_def aead_ok_def demo_storelib_def)

lemma demo_step: "admissible demo_storelib demo_owner op \<Longrightarrow>
    store_step demo_storelib demo_store demo_owner w (snd (run_op demo_storelib demo_store op w))"
  by (rule store_step.intros [OF demo_setting]) (simp_all add: prod_eq_iff)

lemma demo_runs: "(store_step demo_storelib demo_store demo_owner)\<^sup>*\<^sup>* demo_world demo_w3"
proof -
  have "store_step demo_storelib demo_store demo_owner demo_world demo_w1"
    unfolding demo_w1_def by (rule demo_step) (simp add: demo_create_def demo_parses)
  moreover have "store_step demo_storelib demo_store demo_owner demo_w1 demo_w2"
    unfolding demo_w2_def by (rule demo_step) (simp add: demo_parses)
  moreover have "store_step demo_storelib demo_store demo_owner demo_w2 demo_w3"
    unfolding demo_w3_def by (rule demo_step) (simp add: demo_parses)
  ultimately show ?thesis by (meson rtranclp.rtrancl_into_rtrancl rtranclp.rtrancl_refl)
qed

lemma demo_ends_revised: "ov_report (view demo_storelib demo_store demo_owner (file_at demo_w3)) = Some demo_rr1"
  by code_simp

text \<open>
  C2: Refinement: whatever sequence of store operations runs, by this owner, by other owners
  and by executors, and whichever system calls fail on the way, the records this owner's keys
  open change only by steps of the abstract machine \<open>lifecycle\<close>. In particular a failing
  operation leaves no state the machine does not have. Relied on: the cipher opens what it
  sealed, and no other holder of a handle has this owner's opaque id.
\<close>

theorem store_refines:
  assumes "(store_step L s ow)\<^sup>*\<^sup>* w w'"
  shows "(lifecycle L)\<^sup>*\<^sup>* (view L s ow (file_at w)) (view L s ow (file_at w'))"
  by (rule store_sim.runs [OF assms])

theorem store_refines_witness:
  "(lifecycle demo_storelib)\<^sup>*\<^sup>* (view demo_storelib demo_store demo_owner (file_at demo_world))
     (view demo_storelib demo_store demo_owner (file_at demo_w3))"
  by (rule store_refines [OF demo_runs])

text \<open>
  C15: The verification history is a chain: in every state the store can reach from one without
  a report, the revisions of a readable report are numbered 1, 2, and so on, each names the
  digest of the one before it (the first the digest of the report), and none lacks a digest.
\<close>

theorem revision_chain:
  assumes "(store_step L s ow)\<^sup>*\<^sup>* w w'" "ov_report (view L s ow (file_at w)) = None"
    "json_keeps_links L" "ov_report (view L s ow (file_at w')) = Some rr"
  shows "chain_ok rr"
proof -
  have "\<forall>x. ov_report (view L s ow (file_at w')) = Some x \<longrightarrow> chain_ok x"
    by (rule store_sim.invariant [where I = "\<lambda>v. \<forall>x. ov_report v = Some x \<longrightarrow> chain_ok x", OF assms(1)])
      (use assms(2) chain_step [OF assms(3)] in auto)
  with assms(4) show ?thesis by blast
qed

lemma demo_keeps_links: "json_keeps_links demo_storelib"
  unfolding json_keeps_links_def
proof (intro allI impI)
  fix rr rr' assume "stored_report demo_storelib rr = Some rr'"
  then have "rr' = rr" by (auto simp: stored_def demo_storelib_def split: if_splits)
  then show "\<exists>g. (\<forall>x. g x = [] \<longleftrightarrow> x = []) \<and> rr_original_digest rr' = g (rr_original_digest rr)
        \<and> map v_revision (rr_revisions rr') = map v_revision (rr_revisions rr)
        \<and> map v_digest (rr_revisions rr') = map (g \<circ> v_digest) (rr_revisions rr)
        \<and> map v_previous_digest (rr_revisions rr') = map (g \<circ> v_previous_digest) (rr_revisions rr)"
    by (intro exI [of _ "\<lambda>x. x"]) (simp add: comp_def)
qed

theorem revision_chain_witness:
  "chain_ok demo_rr1 \<and> length (rr_revisions demo_rr1) = 1"
proof -
  have "ov_report (view demo_storelib demo_store demo_owner (file_at demo_world)) = None"
    by (simp add: view_def opened_def file_at_def demo_world_def)
  from revision_chain [OF demo_runs this demo_keeps_links demo_ends_revised] show ?thesis
    by (simp add: demo_rr1_def)
qed

end
