(* ===== verification/Store_Access.thy ===== *)
theory Store_Access
  imports Store_Refine
begin

text \<open>
  Who can read and append what: exactly when a handle opens a task, the round trip from
  creating to loading a task, the atomicity of completing it, and the authentication of
  executors and of the events they leave for the owner.
\<close>

section \<open>Exact outcomes of reading\<close>

lemma io_bind_Inr_iff:
  "io_bind m f w = (Inr y, w'') \<longleftrightarrow> (\<exists>v w'. m w = (Inr v, w') \<and> f v w' = (Inr y, w''))"
  by (auto elim: io_bind_Inr)

lemma readEncryptedEnvelope_iff:
  "readEncryptedEnvelope L p w = (Inr e, w') \<longleftrightarrow>
     w_fault w (w_calls w) = None \<and> file_at w p = Some (Env e) \<and> env_size L e \<le> 128 * 1024 * 1024
     \<and> w' = w\<lparr>w_calls := Suc (w_calls w)\<rparr>"
  by (auto simp: readEncryptedEnvelope_def readJSON_def os_read_file_def sys_def io_bind_Inr_iff
      split: option.splits content.splits if_splits)

definition clock_reading :: "store \<Rightarrow> 'c world \<Rightarrow> gtime option" where
  "clock_reading s w = map_option (\<lambda>f. time_utc (f (w_clock w (w_reads w)))) (cf_clock (st_config s))"

lemma store_clock_iff:
  "store_clock s w = (Inr now, w') \<longleftrightarrow> clock_reading s w = Some now \<and> w' = w\<lparr>w_reads := Suc (w_reads w)\<rparr>"
  by (auto simp: store_clock_def clock_reading_def read_clock_def io_bind_Inr_iff split: option.splits)

lemma load_iff:
  "loadOwnedTaskUnlocked L s ow w = (Inr t, w') \<longleftrightarrow>
     w_fault w (w_calls w) = None
     \<and> (\<exists>e now. file_at w (ownedTaskPath s (o_opaque_id ow)) = Some (Env e) \<and> env_size L e \<le> 128 * 1024 * 1024
         \<and> en_record_kind e = ''task'' \<and> en_opaque_id e = o_opaque_id ow
         \<and> clock_reading s w = Some now \<and> t_ns now < t_ns (en_expires_at e)
         \<and> en_public_key e = ownerPublicKey L ow
         \<and> openRecord L (unjson_task L) e (o_record_key ow) = Inr t \<and> tr_state t = TaskActive)
     \<and> w' = w\<lparr>w_calls := Suc (w_calls w), w_reads := Suc (w_reads w)\<rparr>"
  by (auto simp: loadOwnedTaskUnlocked_def io_bind_Inr_iff readEncryptedEnvelope_iff store_clock_iff clock_reading_def
      time_before_def split: if_splits)

text \<open>The errors a step can end with.\<close>

definition fails_with :: "(err \<Rightarrow> bool) \<Rightarrow> ('c, 'a) io \<Rightarrow> bool" where
  "fails_with E m \<longleftrightarrow> (\<forall>w e w'. m w = (Inl e, w') \<longrightarrow> E e)"

lemma fails_with_bind: "fails_with E m \<Longrightarrow> (\<And>v. fails_with E (f v)) \<Longrightarrow> fails_with E (io_bind m f)"
  by (fastforce simp: fails_with_def io_bind_def split: prod.splits sum.splits)

lemma fails_with_denied: "E ErrAccessDenied \<Longrightarrow> fails_with E (or_denied m)" "E ErrAccessDenied \<Longrightarrow> fails_with E denied"
  "fails_with E (io_return v)"
  by (auto simp: fails_with_def or_denied_def denied_def io_fail_def io_return_def split: prod.splits sum.splits)

lemma fails_with_clock: "cf_clock (st_config s) \<noteq> None \<Longrightarrow> fails_with E (store_clock s)"
  by (auto simp: fails_with_def store_clock_def read_clock_def io_bind_def io_return_def)

lemma load_denied: "cf_clock (st_config s) \<noteq> None \<Longrightarrow> fails_with (\<lambda>e. e = ErrAccessDenied) (loadOwnedTaskUnlocked L s ow)"
  unfolding loadOwnedTaskUnlocked_def
  by (auto intro!: fails_with_bind fails_with_denied fails_with_clock)

text \<open>
  C13: A task is opened exactly for a handle of its owner: the file named by the handle's opaque
  id can be read, is a task record bound to that id and to the public key of the handle's
  signing seed, has not expired, and authenticates under the handle's record key to an active
  task. In every other case the answer is the one error \<open>access denied\<close>, which does not
  tell the reasons apart. Loading changes no file.
\<close>

theorem task_access_exact:
  assumes "cf_clock (st_config s) \<noteq> None" "LoadOwnedTask L s h w = (r, w')"
  shows "(r = Inr t \<longleftrightarrow>
       (\<exists>ow e now. ParseOwner L h = Inr ow \<and> w_fault w (w_calls w) = None
         \<and> file_at w (ownedTaskPath s (o_opaque_id ow)) = Some (Env e) \<and> env_size L e \<le> 128 * 1024 * 1024
         \<and> en_record_kind e = ''task'' \<and> en_opaque_id e = o_opaque_id ow
         \<and> clock_reading s w = Some now \<and> t_ns now < t_ns (en_expires_at e)
         \<and> en_public_key e = ownerPublicKey L ow
         \<and> openRecord L (unjson_task L) e (o_record_key ow) = Inr t \<and> tr_state t = TaskActive))
    \<and> (\<forall>er. r = Inl er \<longrightarrow> er = ErrAccessDenied)
    \<and> file_at w' = file_at w"
proof (intro conjI)
  have "r = Inr t \<longleftrightarrow> (\<exists>w'. LoadOwnedTask L s h w = (Inr t, w'))" using assms(2) by auto
  then show "r = Inr t \<longleftrightarrow>
       (\<exists>ow e now. ParseOwner L h = Inr ow \<and> w_fault w (w_calls w) = None
         \<and> file_at w (ownedTaskPath s (o_opaque_id ow)) = Some (Env e) \<and> env_size L e \<le> 128 * 1024 * 1024
         \<and> en_record_kind e = ''task'' \<and> en_opaque_id e = o_opaque_id ow
         \<and> clock_reading s w = Some now \<and> t_ns now < t_ns (en_expires_at e)
         \<and> en_public_key e = ownerPublicKey L ow
         \<and> openRecord L (unjson_task L) e (o_record_key ow) = Inr t \<and> tr_state t = TaskActive)"
    by (simp add: LoadOwnedTask_def io_bind_Inr_iff load_iff)
  have "fails_with (\<lambda>e. e = ErrAccessDenied) (LoadOwnedTask L s h)" unfolding LoadOwnedTask_def
    by (intro fails_with_bind load_denied [OF assms(1)] fails_with_denied refl)
  then show "\<forall>er. r = Inl er \<longrightarrow> er = ErrAccessDenied" using assms(2) by (auto simp: fails_with_def)
  have "preserves {} (LoadOwnedTask L s h)" by (auto simp: LoadOwnedTask_def intro!: preserves_bind)
  from keeps_files [OF this assms(2)] show "file_at w' = file_at w" .
qed

lemma demo_create_ok: "fst (run_op demo_storelib demo_store demo_create demo_world) = Inr ()"
  by code_simp

lemma demo_w1_loads: "fst (LoadOwnedTask demo_storelib demo_store demo_handle demo_w1) = Inr demo_task"
  by code_simp

theorem task_access_exact_witness:
  "\<exists>e. file_at demo_w1 (ownedTaskPath demo_store (o_opaque_id demo_owner)) = Some (Env e)
     \<and> en_public_key e = ownerPublicKey demo_storelib demo_owner"
proof -
  have "cf_clock (st_config demo_store) \<noteq> None" by (simp add: demo_store_def default_config_def)
  from task_access_exact [OF this surjective_pairing, of demo_storelib demo_handle demo_w1 demo_task] demo_w1_loads demo_parses
  show ?thesis by auto
qed

section \<open>Creating, then loading\<close>

text \<open>A successful write stores an envelope sealed under the owner's key.\<close>

lemma writeOwned_Inr:
  assumes "writeOwned L path k ow rv cr ex v w = (Inr u, w')" "\<not> is_temp (path_dir path) path"
  obtains e where "sealed_as L k (o_opaque_id ow) rv cr ex (ownerPublicKey L ow) False (o_record_key ow) v e"
    "file_at w' = (file_at w)(path \<mapsto> Env e)"
proof -
  from assms(1) obtain e w1 where e: "sealRecord L k (o_opaque_id ow) rv cr ex (ownerPublicKey L ow) False (o_record_key ow) v w = (Inr e, w1)"
    and wr: "atomicWriteJSON path e w1 = (Inr u, w')"
    by (auto simp: writeOwned_def writeOwnedProtected_def io_bind_Inr_iff)
  have "file_at w1 = file_at w" using keeps_files [OF preserves_sealRecord e] .
  with that sealRecord_run(1) [OF e] atomicWriteJSON_states [OF assms(2) wr] show ?thesis by auto
qed

lemma require_absent_reads: "require_absent p w = (r, w') \<Longrightarrow> clock_reading s w' = clock_reading s w"
  by (auto simp: require_absent_def io_bind_def io_try_def os_stat_def sys_def io_return_def io_fail_def clock_reading_def
      split: option.splits if_splits prod.splits sum.splits)

text \<open>
  Round trip: after a task was created, its owner's handle loads exactly the created record,
  with no events and no executors yet, until the interruption period after the creation is over;
  this holds whatever happens to other files. Relied on: the cipher opens what it sealed, JSON
  decodes what it encoded for this record, the file is not longer than the reader accepts.
\<close>

theorem create_then_load:
  assumes "store_layout s hs" "proper (o_opaque_id ow)" "ParseOwner L h = Inr ow"
    "CreateOwnedTaskWithMetadata L s h tid b p m w = (Inr (), w1)" "clock_reading s w = Some t0"
    "file_at w2 (ownedTaskPath s (o_opaque_id ow)) = file_at w1 (ownedTaskPath s (o_opaque_id ow))"
    "w_fault w2 (w_calls w2) = None" "clock_reading s w2 = Some t"
    "t_ns t < t_ns t0 + cf_interruption (st_config s)"
    "aead_ok L" "\<And>x. json_task L (new_task tid t0 b p m) = Inr x \<Longrightarrow> unjson_task L x = Some (new_task tid t0 b p m)"
    "\<And>e. env_size L e \<le> 128 * 1024 * 1024"
  shows "fst (LoadOwnedTask L s h w2) = Inr (new_task tid t0 b p m)"
proof -
  let ?path = "ownedTaskPath s (o_opaque_id ow)" and ?task = "new_task tid t0 b p m"
  have nt: "\<not> is_temp (path_dir ?path) ?path" using record_path_facts [OF assms(1,2)] by simp
  from assms(3,4) obtain w' now w'' where st: "require_absent ?path w = (Inr (), w')"
    and now: "store_clock s w' = (Inr now, w'')"
    and wr: "writeOwned L ?path ''task'' ow 0 now (time_add now (cf_interruption (st_config s))) (json_task L (new_task tid now b p m)) w'' = (Inr (), w1)"
    by (auto simp: CreateOwnedTaskWithMetadata_def Let_def io_bind_Inr_iff)
  have "clock_reading s w' = clock_reading s w" using require_absent_reads [OF st] .
  then have now: "now = t0" using now assms(5) by (simp add: store_clock_iff)
  obtain e where e: "sealed_as L ''task'' (o_opaque_id ow) 0 t0 (time_add t0 (cf_interruption (st_config s))) (ownerPublicKey L ow) False
      (o_record_key ow) (json_task L ?task) e" and fm: "file_at w1 = (file_at w'')(?path \<mapsto> Env e)"
    by (rule writeOwned_Inr [OF wr [unfolded now] nt])
  then have f: "file_at w1 ?path = Some (Env e)" by simp
  have "openRecord L (unjson_task L) e (o_record_key ow) = Inr ?task"
  proof -
    from e obtain x where x: "json_task L ?task = Inr x" by (auto simp: sealed_as_def)
    from openRecord_sealed [OF e [unfolded x] assms(10), of "unjson_task L"] assms(11) [OF x] show ?thesis by simp
  qed
  moreover have "en_record_kind e = ''task''" "en_opaque_id e = o_opaque_id ow" "en_public_key e = ownerPublicKey L ow"
    "t_ns (en_expires_at e) = t_ns t0 + cf_interruption (st_config s)"
    using e unfolding sealed_as_def time_add_def by (elim exE conjE, simp)+
  ultimately have "loadOwnedTaskUnlocked L s ow w2 = (Inr ?task, w2\<lparr>w_calls := Suc (w_calls w2), w_reads := Suc (w_reads w2)\<rparr>)"
    using assms(6-9,12) f by (simp add: load_iff) (simp add: new_task_def)
  then show ?thesis using assms(3) by (simp add: LoadOwnedTask_def io_bind_def or_denied_def io_lift_def)
qed

theorem create_then_load_witness:
  "fst (LoadOwnedTask demo_storelib demo_store demo_handle demo_w1) = Inr demo_task"
proof -
  have new: "new_task ''t'' (time_of_unix 0) demo_fs_baseline demo_proc_baseline demo_metadata = demo_task"
    by (simp add: new_task_def demo_task_def demo_metadata_def)
  have "fst (LoadOwnedTask demo_storelib demo_store demo_handle demo_w1)
      = Inr (new_task ''t'' (time_of_unix 0) demo_fs_baseline demo_proc_baseline demo_metadata)"
  proof (rule create_then_load [OF demo_layout _ demo_parses])
    show "CreateOwnedTaskWithMetadata demo_storelib demo_store demo_handle ''t'' demo_fs_baseline demo_proc_baseline
        demo_metadata demo_world = (Inr (), demo_w1)"
      using demo_create_ok by (simp add: demo_w1_def demo_create_def prod_eq_iff)
    show "clock_reading demo_store demo_w1 = Some (time_of_unix 1)" by code_simp
    show "w_fault demo_w1 (w_calls demo_w1) = None" by code_simp
    show "unjson_task demo_storelib x = Some (new_task ''t'' (time_of_unix 0) demo_fs_baseline demo_proc_baseline demo_metadata)" for x
      using new by (simp add: demo_storelib_def)
  qed (auto simp: demo_owner_def proper_def clock_reading_def demo_store_def demo_world_def default_config_def
      aead_ok_def demo_storelib_def time_of_unix_def time_utc_def hour_ns_def minute_ns_def second_ns_def)
  with new show ?thesis by simp
qed

section \<open>Completing a task\<close>

lemma seen_then:
  assumes "seen ab v m (\<lambda>r v'. v' = v \<and> (\<exists>e. r = Inl e) \<or> v' = u)" "\<And>e. Q (Inl e) v" "\<And>e. Q (Inl e) u"
    "\<And>x. seen ab u (f x) Q"
  shows "seen ab v (io_bind m f) Q"
  by (rule seen_bind [OF assms(1)]) (use assms(2-4) in auto)

lemma CompleteOwnedTask_states:
  assumes "sound_setting L s ow" "ParseOwner L h = Inr ow" "CompleteOwnedTask L s h r ev w = (res, w')"
  shows "(\<exists>e. res = Inl e) \<and> view L s ow (file_at w') = view L s ow (file_at w)
    \<or> (\<exists>now d. reportDigest L r = Inr d \<and> validate_report r = Inr ()
         \<and> ov_report (view L s ow (file_at w')) = stored_report L (new_report_record r now d ev)
         \<and> ov_grant (view L s ow (file_at w')) = ov_grant (view L s ow (file_at w))
         \<and> (ov_task (view L s ow (file_at w')) = None
            \<or> (\<exists>e. res = Inl e) \<and> ov_task (view L s ow (file_at w')) = ov_task (view L s ow (file_at w))))"
proof -
  let ?v = "view L s ow (file_at w)"
  define G where "G r' v' \<longleftrightarrow> (\<exists>e. r' = Inl e) \<and> v' = ?v
    \<or> (\<exists>now d. reportDigest L r = Inr d \<and> validate_report r = Inr ()
         \<and> ov_report v' = stored_report L (new_report_record r now d ev) \<and> ov_grant v' = ov_grant ?v
         \<and> (ov_task v' = None \<or> (\<exists>e. r' = Inl e) \<and> ov_task v' = ov_task ?v))" for r' :: "unit res" and v'
  have err: "G (Inl e) ?v" for e by (simp add: G_def)
  have tail: "seen (view L s ow) (?v\<lparr>ov_report := stored_report L (new_report_record r now d ev)\<rparr>)
      (io_bind (os_remove (ownedTaskPath s (o_opaque_id ow))) (\<lambda>_.
       io_bind (removeDirectoryFiles (ownedEventDir s (o_opaque_id ow))) (\<lambda>_. syncDirectory (st_tasks_dir s)))) G"
    if "reportDigest L r = Inr d" "validate_report r = Inr ()" for now d
  proof (rule seen_then [OF seen_remove(1) [OF assms(1)]])
    let ?u = "?v\<lparr>ov_report := stored_report L (new_report_record r now d ev)\<rparr>"
    show "G (Inl e) ?u" for e using that unfolding G_def by (intro disjI2 exI [of _ now] exI [of _ d]) auto
    have fin: "G r' (?u\<lparr>ov_task := None\<rparr>)" for r' using that unfolding G_def by (intro disjI2 exI [of _ now] exI [of _ d]) auto
    show "G (Inl e) (?u\<lparr>ov_task := None\<rparr>)" for e by (rule fin)
    show "seen (view L s ow) (?u\<lparr>ov_task := None\<rparr>) (io_bind (removeDirectoryFiles (ownedEventDir s (o_opaque_id ow))) (\<lambda>_. syncDirectory (st_tasks_dir s))) G"
      by (intro seen_step_bind [OF seen_remove_dir [OF assms(1)]] seen_keeps [OF keeps_sync] fin) simp
  qed
  have "seen (view L s ow) ?v (CompleteOwnedTask L s h r ev) G"
    unfolding CompleteOwnedTask_def writeOwned_def
  proof (intro seen_owner [OF assms(2)] seen_load_merged seen_if seen_stop seen_clock seen_lift err)
    fix t t' now d assume ok: "\<not> (r_task_id r \<noteq> tr_task_id t' \<or> validate_report r \<noteq> Inr ())" "reportDigest L r = Inr d"
    show "seen (view L s ow) ?v (io_bind (writeOwnedProtected L (ownedReportPath s (o_opaque_id ow)) ''report'' ow 0 now
        (time_add now (cf_retention (st_config s))) False (json_report_record L (new_report_record r now d ev))) (\<lambda>_.
       io_bind (os_remove (ownedTaskPath s (o_opaque_id ow))) (\<lambda>_.
       io_bind (removeDirectoryFiles (ownedEventDir s (o_opaque_id ow))) (\<lambda>_. syncDirectory (st_tasks_dir s))))) G"
    proof (rule seen_then [OF seen_write(2) [OF assms(1)]])
      show "G (Inl e) (?v\<lparr>ov_report := stored_report L (new_report_record r now d ev)\<rparr>)" for e
        using ok unfolding G_def by auto
    qed (use tail ok err in auto)
  qed
  then have "after (file_at w) (CompleteOwnedTask L s h r ev) (\<lambda>r' fm'. G r' (view L s ow fm'))" by (simp add: seen_def)
  from afterD [OF this refl assms(3)] show ?thesis unfolding G_def .
qed

text \<open>
  C5: Completing a task never loses evidence: whatever fails on the way, either nothing this
  owner can open has changed and the call reports an error, or the complete report is stored,
  with its digest; the task record is only ever removed after that, and it is removed whenever
  the call reports success.
\<close>

theorem complete_keeps_evidence:
  assumes "sound_setting L s ow" "ParseOwner L h = Inr ow" "CompleteOwnedTask L s h r ev w = (res, w')"
  shows "(\<exists>e. res = Inl e) \<and> view L s ow (file_at w') = view L s ow (file_at w)
    \<or> (\<exists>now d. reportDigest L r = Inr d \<and> validate_report r = Inr ()
         \<and> ov_report (view L s ow (file_at w')) = stored_report L (new_report_record r now d ev)
         \<and> ov_grant (view L s ow (file_at w')) = ov_grant (view L s ow (file_at w))
         \<and> (ov_task (view L s ow (file_at w')) = None
            \<or> (\<exists>e. res = Inl e) \<and> ov_task (view L s ow (file_at w')) = ov_task (view L s ow (file_at w))))"
  by (rule CompleteOwnedTask_states [OF assms])

theorem complete_keeps_evidence_witness:
  "ov_task (view demo_storelib demo_store demo_owner (file_at demo_w2)) = None"
proof -
  have "fst (CompleteOwnedTask demo_storelib demo_store demo_handle demo_report [] demo_w1) = Inr ()" by code_simp
  then have "CompleteOwnedTask demo_storelib demo_store demo_handle demo_report [] demo_w1 = (Inr (), demo_w2)"
    by (simp add: demo_w2_def prod_eq_iff)
  from complete_keeps_evidence [OF demo_setting demo_parses this] show ?thesis by auto
qed

section \<open>Executors\<close>

lemma executor_verify_Inr: "is_ok (executor_verify L x public) \<longleftrightarrow> ed_verify L public (json_claims L (claims x)) (x_signature x)"
  by (simp add: executor_verify_def)

text \<open>A stored batch: sealed under the append key for this task and grant, and it dies with both.\<close>

definition batch_for :: "'z storelib_scheme \<Rightarrow> executor \<Rightarrow> envelope \<Rightarrow> gtime \<Rightarrow> summary list \<Rightarrow> envelope \<Rightarrow> bool" where
  "batch_for L x taskEnvelope now evs be \<longleftrightarrow>
     (\<exists>ex. sealed_as L ''executor-events'' (x_opaque_id x @ ''.'' @ x_grant_id x) 0 now ex (en_public_key taskEnvelope) False
             (x_append_key x) (json_batch L \<lparr>eb_grant_id = x_grant_id x, eb_events = evs\<rparr>) be
        \<and> t_ns ex = min (t_ns (en_expires_at taskEnvelope)) (t_ns (time_of_unix (x_expires_unix x))))"

lemma write_batch_Inr:
  assumes "store_layout s hs" "proper (x_opaque_id x)" "sep \<notin> set (x_grant_id x)" "write_batch L s now x e evs w = (Inr u, w')"
  obtains rnd be where "batch_for L x e now evs be"
    "file_at w' = (file_at w)(path_join (ownedEventDir s (x_opaque_id x)) (x_grant_id x @ ''.'' @ b64_encode rnd @ ''.are'') \<mapsto> Env be)"
proof -
  let ?d = "ownedEventDir s (x_opaque_id x)"
  let ?ex = "if time_before (en_expires_at e) (time_of_unix (x_expires_unix x)) then en_expires_at e else time_of_unix (x_expires_unix x)"
  from assms(4) obtain w1 w2 rnd w3 be w4 where st: "os_mkdir_all ?d (private_mode True) w = (Inr (), w1)"
      "protectPrivatePath ?d True w1 = (Inr (), w2)" "draw_random 18 w2 = (Inr rnd, w3)"
      "sealRecord L ''executor-events'' (x_opaque_id x @ ''.'' @ x_grant_id x) 0 now ?ex (en_public_key e) False (x_append_key x)
         (json_batch L \<lparr>eb_grant_id = x_grant_id x, eb_events = evs\<rparr>) w3 = (Inr be, w4)"
      "atomicWriteJSON (path_join ?d (x_grant_id x @ ''.'' @ b64_encode rnd @ ''.are'')) be w4 = (Inr u, w')"
    unfolding write_batch_def Let_def io_bind_Inr_iff by auto
  have "file_at w4 = file_at w"
    using keeps_files [OF preserves_calls(1) st(1)] keeps_files [OF keeps_chmod st(2)]
      keeps_files [OF preserves_pure(5) st(3)] keeps_files [OF preserves_sealRecord st(4)] by simp
  moreover have "\<not> is_temp (path_dir (path_join ?d (x_grant_id x @ ''.'' @ b64_encode rnd @ ''.are'')))
      (path_join ?d (x_grant_id x @ ''.'' @ b64_encode rnd @ ''.are''))"
  proof -
    have ds: "list_all proper (hs @ [''events'', x_opaque_id x])" using assms by (simp add: store_layout_def)
    have pn: "proper ((x_grant_id x @ ''.'' @ b64_encode rnd) @ ''.are'')"
      using assms(3) slash_notin_b64_encode by (subst proper_are) simp
    have "path_join ?d (x_grant_id x @ ''.'' @ b64_encode rnd @ ''.are'')
        = abs_path ((hs @ [''events'', x_opaque_id x]) @ [(x_grant_id x @ ''.'' @ b64_encode rnd) @ ''.are''])"
      using owned_paths(4) [OF assms(1,2)] path_join_name [OF ds pn] by simp
    then show ?thesis using record_not_temp [OF ds pn] by simp
  qed
  moreover have "batch_for L x e now evs be"
    unfolding batch_for_def using sealRecord_run(1) [OF st(4)]
    by (intro exI [of _ ?ex]) (auto simp: time_before_def min_def)
  ultimately show ?thesis using that atomicWriteJSON_states [OF _ st(5)] by auto
qed

text \<open>
  C14: Executors append only what the owner allowed: when a batch is accepted, the handle has not
  expired, every event has an allowed type, the handle's claims carry a valid signature under the
  public key of the named task, which has not expired, and the only change is one new batch
  file in that task's event directory, sealed under the handle's append key and not outliving
  task or handle. The task record itself is not touched.
\<close>

theorem executor_append_authorized:
  assumes "store_layout s hs" "AppendOwnedExecutorEvents L s h evs w = (Inr (), w')"
    "\<And>now x. ParseExecutor L h now = Inr x \<Longrightarrow> proper (x_opaque_id x) \<and> sep \<notin> set (x_grant_id x)"
  shows "\<exists>now x e public rnd be. clock_reading s w = Some now \<and> ParseExecutor L h now = Inr x
    \<and> t_ns now < t_ns (time_of_unix (x_expires_unix x))
    \<and> (x_allowed_types x = [] \<or> (\<lambda>su. event_type_string (su_type su)) ` set evs \<subseteq> set (x_allowed_types x))
    \<and> file_at w (ownedTaskPath s (x_opaque_id x)) = Some (Env e) \<and> en_record_kind e = ''task''
    \<and> t_ns now < t_ns (en_expires_at e)
    \<and> b64_decode (en_public_key e) = Some public \<and> length public = public_key_size
    \<and> ed_verify L public (json_claims L (claims x)) (x_signature x)
    \<and> batch_for L x e now evs be
    \<and> file_at w' = (file_at w)(path_join (ownedEventDir s (x_opaque_id x)) (x_grant_id x @ ''.'' @ b64_encode rnd @ ''.are'') \<mapsto> Env be)"
proof -
  from assms(2) obtain now w1 x e w2 public where st: "store_clock s w = (Inr now, w1)" "ParseExecutor L h now = Inr x"
      "executorAllows (x_allowed_types x) evs" "readEncryptedEnvelope L (ownedTaskPath s (x_opaque_id x)) w1 = (Inr e, w2)"
      "en_record_kind e = ''task''" "time_before now (en_expires_at e)" "b64_decode (en_public_key e) = Some public"
      "length public = public_key_size" "is_ok (executor_verify L x public)" "write_batch L s now x e evs w2 = (Inr (), w')"
    unfolding AppendOwnedExecutorEvents_def io_bind_Inr_iff
    by (auto simp: io_bind_Inr_iff split: if_splits option.splits)
  have now: "clock_reading s w = Some now" and fm1: "file_at w1 = file_at w"
    using st(1) by (auto simp: store_clock_iff fun_eq_iff)
  have fm2: "file_at w2 = file_at w" using keeps_files [OF preserves_readJSON st(4)] fm1 by simp
  obtain rnd be where b: "batch_for L x e now evs be"
    "file_at w' = (file_at w2)(path_join (ownedEventDir s (x_opaque_id x)) (x_grant_id x @ ''.'' @ b64_encode rnd @ ''.are'') \<mapsto> Env be)"
    using write_batch_Inr [OF assms(1) _ _ st(10)] assms(3) [OF st(2)] by metis
  have "file_at w (ownedTaskPath s (x_opaque_id x)) = Some (Env e)" using readEncryptedEnvelope_Inr [OF st(4)] fm1 by simp
  moreover have "x_allowed_types x = [] \<or> (\<lambda>su. event_type_string (su_type su)) ` set evs \<subseteq> set (x_allowed_types x)"
    using st(3) by (auto simp: executorAllows_def list_all_iff split: if_splits)
  moreover have "t_ns now < t_ns (en_expires_at e)" using st(6) by (simp add: time_before_def)
  ultimately show ?thesis
    using now st(2,5,7,8) ParseExecutor_Inr [OF st(2)] st(9) [unfolded executor_verify_Inr] b fm2 by metis
qed

section \<open>Collecting the executors' events\<close>

definition quiet :: "'c world \<Rightarrow> bool" where
  "quiet w \<longleftrightarrow> (\<forall>n. w_fault w n = None)"

text \<open>The events of one batch file, when it is an authentic batch of one of the task's grants.\<close>

definition batch_events ::
    "'z storelib_scheme \<Rightarrow> owner \<Rightarrow> string \<Rightarrow> (string \<times> executor_grant) list \<Rightarrow> (string \<Rightarrow> content option) \<Rightarrow> string
       \<Rightarrow> summary list option" where
  "batch_events L ow d grants fm name =
     (case grant_of_entry (range_grants L grants) name of
        None \<Rightarrow> None
      | Some (gid, g) \<Rightarrow>
          (case fm (path_join d name) of
             Some (Env e) \<Rightarrow>
               if gid \<noteq> [] \<and> env_size L e \<le> 128 * 1024 * 1024 \<and> en_record_kind e = ''executor-events''
                  \<and> en_opaque_id e = o_opaque_id ow @ ''.'' @ gid \<and> en_public_key e = ownerPublicKey L ow
               then (case openRecord L (unjson_batch L) e (xg_append_key g) of
                       Inl _ \<Rightarrow> None
                     | Inr b \<Rightarrow> if eb_grant_id b = gid then Some (eb_events b) else None)
               else None
           | _ \<Rightarrow> None))"

text \<open>
  The order in which Go visits the map of grants does not matter: grant ids are base64, hence without
  a dot, so at most one of them is the beginning of a file name up to its first dot.
\<close>

lemma dot_prefix_unique:
  assumes "prefix (a @ ''.'') name" "prefix (b @ ''.'') name" "CHR ''.'' \<notin> set a" "CHR ''.'' \<notin> set b"
  shows "a = b"
proof -
  obtain u where "name = a @ CHR ''.'' # u" using assms(1) by (auto simp: prefix_def)
  moreover obtain v where "name = b @ CHR ''.'' # v" using assms(2) by (auto simp: prefix_def)
  ultimately show ?thesis using assms(3,4) by (metis sep_append_inject)
qed

lemma find_unique:
  "\<forall>y \<in> set xs. P y \<longrightarrow> x \<in> set xs \<longrightarrow> P x \<longrightarrow> y = x \<Longrightarrow> List.find P xs = Some x \<longleftrightarrow> x \<in> set xs \<and> P x"
  by (induction xs) auto

lemma grant_of_entry_iff:
  assumes "distinct (map fst gs)" "\<forall>g \<in> set gs. CHR ''.'' \<notin> set (fst g)"
  shows "grant_of_entry gs name = Some g \<longleftrightarrow> g \<in> set gs \<and> prefix (fst g @ ''.'') name"
proof -
  have test: "length name > length c \<and> take (length c + 1) name = c @ ''.'' \<longleftrightarrow> prefix (c @ ''.'') name" for c
  proof
    assume "length name > length c \<and> take (length c + 1) name = c @ ''.''"
    then show "prefix (c @ ''.'') name" by (metis take_is_prefix)
  qed (auto simp: prefix_def)
  have "grant_of_entry gs name = List.find (\<lambda>g. prefix (fst g @ ''.'') name) gs"
    unfolding grant_of_entry_def test by (simp add: case_prod_unfold)
  moreover have "y = g" if "y \<in> set gs" "g \<in> set gs" "prefix (fst y @ ''.'') name" "prefix (fst g @ ''.'') name" for y
  proof -
    have "fst y = fst g" using dot_prefix_unique [OF that(3,4)] that(1,2) assms(2) by blast
    then show ?thesis using that(1,2) assms(1) by (metis eq_key_imp_eq_value prod.collapse)
  qed
  ultimately show ?thesis using find_unique [of gs "\<lambda>g. prefix (fst g @ ''.'') name" g] by metis
qed

lemma grant_of_entry_order:
  assumes "mset gs' = mset gs" "distinct (map fst gs)" "\<forall>g \<in> set gs. CHR ''.'' \<notin> set (fst g)"
  shows "grant_of_entry gs' name = grant_of_entry gs name"
proof -
  have same: "set gs' = set gs" "distinct (map fst gs')"
    using assms(1,2) by (auto dest: mset_eq_setD) (metis mset_map mset_eq_imp_distinct_iff)
  have "grant_of_entry gs' name = Some g \<longleftrightarrow> grant_of_entry gs name = Some g" for g
    using grant_of_entry_iff [OF assms(2,3)] grant_of_entry_iff [OF same(2)] same(1) assms(3) by simp
  then show ?thesis by (metis not_Some_eq)
qed

definition batch_names :: "(string \<times> bool) list \<Rightarrow> string list" where
  "batch_names entries = map fst (filter (\<lambda>(n, is_dir). \<not> is_dir \<and> path_ext n = ''.are'') entries)"

lemma quiet_step [simp]: "quiet (w\<lparr>w_calls := n\<rparr>) = quiet w" "quiet (w\<lparr>w_reads := n\<rparr>) = quiet w"
  by (simp_all add: quiet_def)

lemma read_batch_quiet:
  assumes "quiet w" "grant_of_entry (range_grants L grants) name = Some g" "fst g \<noteq> []"
  shows "read_batch L ow d name g w =
    (case batch_events L ow d grants (file_at w) name of None \<Rightarrow> Inl ErrAccessDenied | Some evs \<Rightarrow> Inr evs,
     w\<lparr>w_calls := Suc (w_calls w)\<rparr>)"
  using assms
  by (cases g) (auto simp: read_batch_def batch_events_def readEncryptedEnvelope_def readJSON_def os_read_file_def sys_def quiet_def
      io_bind_def or_denied_def io_lift_def io_return_def io_fail_def denied_def split: option.splits content.splits sum.splits)

lemma merge_entries_quiet:
  assumes "quiet w"
  shows "fst (merge_entries L ow d t entries w) =
    (case those (map (batch_events L ow d (tr_executor_grants t) (file_at w)) (batch_names entries)) of
       None \<Rightarrow> Inl ErrAccessDenied | Some bs \<Rightarrow> Inr (t\<lparr>tr_events := tr_events t @ concat bs\<rparr>))"
  using assms
proof (induction L ow d t entries arbitrary: w rule: merge_entries.induct)
  case (1 L ow d t)
  then show ?case by (simp add: batch_names_def io_return_def)
next
  case (2 L ow d t name is_dir es)
  show ?case
  proof (cases "is_dir \<or> path_ext name \<noteq> ''.are''")
    case True
    then have "batch_names ((name, is_dir) # es) = batch_names es" by (auto simp: batch_names_def)
    then show ?thesis using 2(1) [OF True 2(3)] True by simp
  next
    case False
    let ?w = "w\<lparr>w_calls := Suc (w_calls w)\<rparr>"
    have fm: "file_at ?w = file_at w" by (simp add: fun_eq_iff)
    have names: "batch_names ((name, is_dir) # es) = name # batch_names es" using False by (simp add: batch_names_def)
    show ?thesis
    proof (cases "grant_of_entry (range_grants L (tr_executor_grants t)) name")
      case None
      then show ?thesis using False names by (simp add: batch_events_def denied_def io_fail_def)
    next
      case (Some g)
      show ?thesis
      proof (cases "fst g = []")
        case True
        then have "batch_events L ow d (tr_executor_grants t) (file_at w) name = None"
          using Some by (cases g) (auto simp: batch_events_def split: option.splits content.splits)
        then show ?thesis using False names Some True by (simp add: denied_def io_fail_def)
      next
        case nonempty: False
        note rb = read_batch_quiet [OF 2(3) Some nonempty, of ow d]
        show ?thesis
        proof (cases "batch_events L ow d (tr_executor_grants t) (file_at w) name")
          case None
          then show ?thesis using False names Some nonempty rb by (simp add: io_bind_def)
        next
          case evs: (Some evs)
          have "fst (merge_entries L ow d (t\<lparr>tr_events := tr_events t @ evs\<rparr>) es ?w) =
             (case those (map (batch_events L ow d (tr_executor_grants t) (file_at w)) (batch_names es)) of
                None \<Rightarrow> Inl ErrAccessDenied | Some bs \<Rightarrow> Inr (t\<lparr>tr_events := (tr_events t @ evs) @ concat bs\<rparr>))"
            using 2(2) [OF False Some nonempty, of ?w evs] 2(3) fm by (simp cong: option.case_cong)
          then show ?thesis using False names Some nonempty rb evs
            by (simp add: io_bind_def split: option.splits)
        qed
      qed
    qed
  qed
qed

text \<open>
  C29: Ending a task collects the executors' events exactly: with a readable event directory, the
  loaded task has its own events followed by the events of every batch file in the directory in
  the order of the file names, where each batch authenticates under the append key of the grant
  its name starts with, for this task and this owner; a single file that does not makes the
  load fail rather than be skipped.
\<close>

theorem end_collects_batches:
  assumes "quiet w" "ParseOwner L h = Inr ow" "LoadOwnedTask L s h w = (Inr t, w1)"
    "fst (os_read_dir (ownedEventDir s (o_opaque_id ow)) w) = Inr entries"
  shows "fst (LoadOwnedTaskForEnd L s h w) =
    (case those (map (batch_events L ow (ownedEventDir s (o_opaque_id ow)) (tr_executor_grants t) (file_at w)) (batch_names entries)) of
       None \<Rightarrow> Inl ErrAccessDenied | Some bs \<Rightarrow> Inr (t\<lparr>tr_events := tr_events t @ concat bs\<rparr>))"
proof -
  let ?d = "ownedEventDir s (o_opaque_id ow)"
  have ld: "loadOwnedTaskUnlocked L s ow w = (Inr t, w1)"
    using assms(2,3) by (auto simp: LoadOwnedTask_def io_bind_Inr_iff)
  then have w1: "w1 = w\<lparr>w_calls := Suc (w_calls w), w_reads := Suc (w_reads w)\<rparr>" by (simp add: load_iff)
  have dir: "os_read_dir ?d w1 = (Inr entries, w1\<lparr>w_calls := Suc (w_calls w1)\<rparr>)"
    using assms(1,4) unfolding w1 os_read_dir_def sys_def quiet_def by (auto simp: children_def file_at_def split: if_splits)
  have fm: "file_at (w1\<lparr>w_calls := Suc (w_calls w1)\<rparr>) = file_at w" "quiet (w1\<lparr>w_calls := Suc (w_calls w1)\<rparr>)"
    using assms(1) by (simp_all add: w1 fun_eq_iff)
  have "fst (LoadOwnedTaskForEnd L s h w) = fst (merge_entries L ow ?d t entries (w1\<lparr>w_calls := Suc (w_calls w1)\<rparr>))"
    using assms(2) ld dir
    by (simp add: LoadOwnedTaskForEnd_def mergeExecutorEvents_def Let_def io_bind_def or_denied_def io_lift_def io_try_def)
  also have "\<dots> = (case those (map (batch_events L ow ?d (tr_executor_grants t) (file_at w)) (batch_names entries)) of
       None \<Rightarrow> Inl ErrAccessDenied | Some bs \<Rightarrow> Inr (t\<lparr>tr_events := tr_events t @ concat bs\<rparr>))"
    using merge_entries_quiet [OF fm(2)] fm(1) by simp
  finally show ?thesis .
qed

text \<open>A world in which the executor of the demo task has appended one batch.\<close>

definition demo_append :: "unit res \<times> content world" where
  "demo_append = AppendOwnedExecutorEvents demo_storelib demo_store demo_executor_handle [] demo_w1"

lemma demo_append_ok: "fst demo_append = Inr ()"
  by code_simp

lemma demo_executor_only: "ParseExecutor demo_storelib demo_executor_handle now = Inr x \<Longrightarrow> x = demo_executor"
  by (auto simp: ParseExecutor_def decode_executor_def demo_storelib_def demo_caplib_def split: if_splits option.splits Option.bind_splits)

theorem executor_append_authorized_witness:
  "\<exists>now. clock_reading demo_store demo_w1 = Some now \<and> t_ns now < t_ns (time_of_unix 60)"
proof -
  have "AppendOwnedExecutorEvents demo_storelib demo_store demo_executor_handle [] demo_w1 = (Inr (), snd demo_append)"
    using demo_append_ok by (simp add: demo_append_def prod_eq_iff)
  from executor_append_authorized [OF demo_layout this] demo_executor_only show ?thesis
    by (fastforce simp: demo_executor_def proper_def slash_notin_b64_encode simp del: b64_encode.simps)
qed

theorem end_collects_batches_witness:
  "\<exists>t. fst (LoadOwnedTaskForEnd demo_storelib demo_store demo_handle (demo_world\<lparr>w_files := w_files demo_w1, w_dirs := ''/s/events/b3duZXI'' # w_dirs demo_w1\<rparr>)) = Inr t"
proof -
  let ?w = "demo_world\<lparr>w_files := w_files demo_w1, w_dirs := ''/s/events/b3duZXI'' # w_dirs demo_w1\<rparr>"
  have q: "quiet ?w" by (simp add: quiet_def demo_world_def)
  have l: "LoadOwnedTask demo_storelib demo_store demo_handle ?w = (Inr demo_task, snd (LoadOwnedTask demo_storelib demo_store demo_handle ?w))"
  proof -
    have "fst (LoadOwnedTask demo_storelib demo_store demo_handle ?w) = Inr demo_task" by code_simp
    then show ?thesis by (simp add: prod_eq_iff)
  qed
  have d: "fst (os_read_dir (ownedEventDir demo_store (o_opaque_id demo_owner)) ?w) = Inr []" by code_simp
  from end_collects_batches [OF q demo_parses l d] show ?thesis by (simp add: batch_names_def)
qed

section \<open>Opaque ids are not validated\<close>

text \<open>
  \<open>ParseOwner\<close> asks only for a non-empty opaque id, and the path helpers join it without
  a check: an id with parent components names files outside the store.
\<close>

lemma opaque_id_escapes: "ownedTaskPath demo_store ''../../etc/x'' = ''/etc/x.are''"
  by code_simp

lemma ParseOwner_any_id:
  assumes "unjson_owner L (json_owner L ow) = Some ow" "o_opaque_id ow = ''../../etc/x''"
    "\<not> allZero (o_record_key ow)" "\<not> allZero (o_signing_seed ow)"
  shows "ParseOwner L (owner_string L ow) = Inr ow"
  using assms by (simp add: ParseOwner_def owner_string_def decode_owner_def b64_decode_encode)

end
