(* ===== verification/Retention.thy ===== *)
theory Retention
  imports Store_Access
begin

text \<open>
  Retention (\<open>retention.go\<close>): removing expired records with the executor batches of
  expired tasks, and the oldest unprotected reports above the capacity. The running total of
  sizes is a wrapping 64-bit integer.
\<close>

section \<open>Model\<close>

record owned_file =
  of_path :: string
  of_size :: int
  of_created_at :: gtime
  of_protected :: bool

definition file_size :: "'z cryptlib_scheme \<Rightarrow> content \<Rightarrow> int" where
  "file_size L c = (case c of Env e \<Rightarrow> env_size L e | Bytes b \<Rightarrow> int (length b))"

text \<open>\<open>entry.Info()\<close> of a listed file.\<close>

definition entry_info :: "'z cryptlib_scheme \<Rightarrow> string \<Rightarrow> (content, int) io" where
  "entry_info L path = sys (\<lambda>w.
     case file_at w path of Some c \<Rightarrow> (Inr (file_size L c), w) | None \<Rightarrow> (Inl ErrNotExist, w))"

fun sweep_entries ::
    "'z storelib_scheme \<Rightarrow> store \<Rightarrow> gtime \<Rightarrow> string \<Rightarrow> (string \<times> bool) list \<Rightarrow> owned_file list \<Rightarrow> int
       \<Rightarrow> (content, owned_file list \<times> int) io" where
  "sweep_entries L s now directory [] kept tot = io_return (kept, tot)"
| "sweep_entries L s now directory ((name, is_dir) # entries) kept tot =
     (if is_dir \<or> \<not> has_suffix name ''.are'' then sweep_entries L s now directory entries kept tot
      else let path = path_join directory name
           in io_bind (readEncryptedEnvelope L path) (\<lambda>e.
                if \<not> time_before now (en_expires_at e) then
                  io_bind (os_remove path) (\<lambda>_.
                  io_bind (if directory = st_tasks_dir s
                           then removeDirectoryFiles (ownedEventDir s (en_opaque_id e)) else io_return ()) (\<lambda>_.
                    sweep_entries L s now directory entries kept tot))
                else
                  io_bind (entry_info L path) (\<lambda>size.
                    sweep_entries L s now directory entries
                      (kept @ [\<lparr>of_path = path, of_size = size, of_created_at = en_created_at e,
                                of_protected = en_protected e\<rparr>])
                      (wrap64 (tot + size)))))"

fun evict :: "int \<Rightarrow> owned_file list \<Rightarrow> int \<Rightarrow> (content, unit) io" where
  "evict capacity [] tot = io_return ()"
| "evict capacity (f # fs) tot =
     (if tot \<le> capacity then io_return ()
      else if of_protected f then evict capacity fs tot
      else io_bind (os_remove (of_path f)) (\<lambda>_. evict capacity fs (wrap64 (tot - of_size f))))"

definition older :: "owned_file \<Rightarrow> owned_file \<Rightarrow> bool" where
  "older a b \<longleftrightarrow> time_before (of_created_at a) (of_created_at b)"

fun sweep_dirs :: "'z storelib_scheme \<Rightarrow> store \<Rightarrow> gtime \<Rightarrow> string list \<Rightarrow> (content, unit) io" where
  "sweep_dirs L s now [] = syncDirectory (st_events_dir s)"
| "sweep_dirs L s now (directory # ds) =
     io_bind (os_read_dir directory) (\<lambda>entries.
     io_bind (sweep_entries L s now directory entries [] 0) (\<lambda>(kept, tot).
     io_bind (if directory = st_reports_dir s \<and> tot > cf_capacity (st_config s)
              then evict (cf_capacity (st_config s)) (sort_by older kept) tot else io_return ()) (\<lambda>_.
     io_bind (syncDirectory directory) (\<lambda>_. sweep_dirs L s now ds))))"

definition sweepOwned :: "'z storelib_scheme \<Rightarrow> store \<Rightarrow> gtime \<Rightarrow> (content, unit) io" where
  "sweepOwned L s now = sweep_dirs L s now [st_tasks_dir s, st_reports_dir s, st_grants_dir s]"

definition Sweep :: "'z storelib_scheme \<Rightarrow> store \<Rightarrow> gtime \<Rightarrow> (content, unit) io" where
  "Sweep L s now = sweepOwned L s (time_utc now)"

interpretation by_age: comparator older
  by unfold_locales (auto simp: older_def time_before_def)

section \<open>What a sweep may remove\<close>

text \<open>
  The relation between the files before and after a part of a sweep: every file that changed is
  gone, and was expired, or an unprotected report, or in an executor's event directory.
\<close>

definition removable :: "store \<Rightarrow> gtime \<Rightarrow> string set \<Rightarrow> string \<Rightarrow> content \<Rightarrow> bool" where
  "removable s now X p c \<longleftrightarrow>
     (\<exists>e. c = Env e \<and> path_dir p \<in> set [st_tasks_dir s, st_reports_dir s, st_grants_dir s]
        \<and> (t_ns (en_expires_at e) \<le> t_ns now \<or> path_dir p = st_reports_dir s \<and> \<not> en_protected e))
     \<or> (\<exists>i \<in> X. p \<in> insert (ownedEventDir s i) (event_files s i))"

definition swept :: "store \<Rightarrow> gtime \<Rightarrow> string set \<Rightarrow> (string \<Rightarrow> content option) \<Rightarrow> (string \<Rightarrow> content option) \<Rightarrow> bool" where
  "swept s now X fm fm' \<longleftrightarrow> (\<forall>p. fm' p = fm p \<or> fm' p = None \<and> (\<exists>c. fm p = Some c \<and> removable s now X p c))"

lemma swept_refl: "swept s now X fm fm"
  by (simp add: swept_def)

lemma swept_trans: "swept s now X a b \<Longrightarrow> swept s now X b c \<Longrightarrow> swept s now X a c"
  unfolding swept_def by metis


text \<open>
  The ids in the expired task records: a sweep takes the event directories to remove from them.
  Those \<open>NewOwner\<close> draws are plain.
\<close>

definition expired_ids :: "store \<Rightarrow> gtime \<Rightarrow> (string \<Rightarrow> content option) \<Rightarrow> string set" where
  "expired_ids s now fm = {en_opaque_id e |p e. path_dir p = st_tasks_dir s \<and> fm p = Some (Env e)
     \<and> t_ns (en_expires_at e) \<le> t_ns now}"

lemma expired_idsI:
  "path_dir p = st_tasks_dir s \<Longrightarrow> fm p = Some (Env e) \<Longrightarrow> \<not> time_before now (en_expires_at e) \<Longrightarrow> en_opaque_id e \<in> expired_ids s now fm"
  unfolding expired_ids_def time_before_def not_less by blast

lemma swept_Some: "swept s now X fm fm' \<Longrightarrow> fm' p = Some c \<Longrightarrow> fm p = Some c"
  unfolding swept_def by (metis option.distinct(1))

lemma expired_swept: "swept s now X fm fm' \<Longrightarrow> expired_ids s now fm \<subseteq> X \<Longrightarrow> expired_ids s now fm' \<subseteq> X"
  using swept_Some [of s now X fm fm'] by (fastforce simp: expired_ids_def)

text \<open>A step of the sweep, with a fact about its result that later removals cannot break.\<close>

lemma swept_bind:
  assumes "after fm m (\<lambda>r fm'. swept s now X fm fm' \<and> (case r of Inl _ \<Rightarrow> True | Inr x \<Rightarrow> K x fm'))"
    "\<And>x fm'. swept s now X fm fm' \<Longrightarrow> K x fm' \<Longrightarrow> after fm' (f x) (\<lambda>_ fm''. swept s now X fm' fm'')"
  shows "after fm (io_bind m f) (\<lambda>_ fm'. swept s now X fm fm')"
  by (intro after_bind after_mono [OF assms(1)])
    (auto split: sum.splits intro: after_mono [OF assms(2)] swept_trans)

lemma swept_keeps: "preserves {} m \<Longrightarrow> after fm m (\<lambda>_ fm'. swept s now X fm fm')"
  by (rule after_keeps) (simp_all add: swept_refl)

lemma swept_remove:
  assumes "\<And>c. fm p = Some c \<Longrightarrow> removable s now X p c"
  shows "after fm (os_remove p) (\<lambda>_ fm'. swept s now X fm fm')"
  by (rule after_remove) (use assms in \<open>auto simp: swept_def\<close>)

lemma swept_remove_dir:
  assumes "i \<in> X"
  shows "after fm (removeDirectoryFiles (ownedEventDir s i)) (\<lambda>_ fm'. swept s now X fm fm')"
proof -
  have ev: "removable s now X p c" if "p \<in> insert (ownedEventDir s i) (event_files s i)" for p c
    using that assms by (auto simp: removable_def)
  have es: "after fm (remove_entries (ownedEventDir s i) es) (\<lambda>_ fm'. swept s now X fm fm')"
    if "list_all (\<lambda>(n, _). sep \<notin> set n) es" for es fm
    using that
  proof (induction es arbitrary: fm)
    case (Cons e es)
    obtain n d where e: "e = (n, d)" by force
    show ?case
    proof (cases d)
      case False
      have "after fm (io_bind (os_remove (path_join (ownedEventDir s i) n)) (\<lambda>_. remove_entries (ownedEventDir s i) es))
          (\<lambda>_ fm'. swept s now X fm fm')"
        by (rule swept_bind [where K = "\<lambda>_ _. True"])
          (use Cons e in \<open>auto intro!: after_mono [OF swept_remove] ev simp: event_filesI split: sum.splits\<close>)
      then show ?thesis using e False by simp
    qed (simp add: e after_pure swept_refl)
  qed (simp add: after_pure swept_refl)
  show ?thesis unfolding removeDirectoryFiles_def
  proof (rule swept_bind [where K = "\<lambda>r _. case r of Inl _ \<Rightarrow> True | Inr es \<Rightarrow> list_all (\<lambda>(n, _). sep \<notin> set n) es"])
    show "after fm (io_try (os_read_dir (ownedEventDir s i))) (\<lambda>r fm'. swept s now X fm fm' \<and>
        (case r of Inl _ \<Rightarrow> True | Inr r \<Rightarrow> case r of Inl _ \<Rightarrow> True | Inr es \<Rightarrow> list_all (\<lambda>(n, _). sep \<notin> set n) es))"
    proof (rule after_try, rule afterI)
      fix w r w' assume run: "file_at w = fm" "os_read_dir (ownedEventDir s i) w = (r, w')"
      have "file_at w' = fm" using keeps_files [OF preserves_calls(5) run(2)] run(1) by simp
      then show "swept s now X fm (file_at w') \<and> (case Inr r of Inl _ \<Rightarrow> True | Inr r \<Rightarrow> case r of Inl _ \<Rightarrow> True | Inr es \<Rightarrow> list_all (\<lambda>(n, _). sep \<notin> set n) es)"
        using os_read_dir_names [of _ w _ w'] run by (cases r) (auto simp: swept_refl)
    qed
    fix r :: "(string \<times> bool) list res" and fm' assume K: "case r of Inl _ \<Rightarrow> True | Inr es \<Rightarrow> list_all (\<lambda>(n, _). sep \<notin> set n) es"
    show "after fm' (case r of Inl e \<Rightarrow> if err_is ErrNotExist e then io_return () else io_fail e
        | Inr entries \<Rightarrow> io_bind (remove_entries (ownedEventDir s i) entries) (\<lambda>_. os_remove (ownedEventDir s i)))
        (\<lambda>_ fm''. swept s now X fm' fm'')"
    proof (cases r)
      case (Inl e)
      then show ?thesis by (simp add: after_pure swept_refl)
    next
      case (Inr entries)
      have "after fm' (io_bind (remove_entries (ownedEventDir s i) entries) (\<lambda>_. os_remove (ownedEventDir s i))) (\<lambda>_ fm''. swept s now X fm' fm'')"
        by (rule swept_bind [where K = "\<lambda>_ _. True"]) (use es K Inr ev in \<open>auto intro!: swept_remove split: sum.splits\<close>)
      then show ?thesis using Inr by simp
    qed
  qed
qed

section \<open>The loops\<close>

definition tracked :: "string \<Rightarrow> owned_file list \<Rightarrow> (string \<Rightarrow> content option) \<Rightarrow> bool" where
  "tracked d kept fm \<longleftrightarrow> (\<forall>f \<in> set kept. path_dir (of_path f) = d
     \<and> (\<forall>c. fm (of_path f) = Some c \<longrightarrow> (\<exists>e. c = Env e \<and> en_protected e = of_protected f)))"

lemma tracked_swept: "tracked d kept fm \<Longrightarrow> swept s now X fm fm' \<Longrightarrow> tracked d kept fm'"
  unfolding tracked_def swept_def by (metis option.distinct(1))

lemma tracked_mset: "mset kept = mset kept' \<Longrightarrow> tracked d kept fm = tracked d kept' fm"
  using mset_eq_setD [of kept kept'] by (simp add: tracked_def)

lemma evict_swept:
  "tracked (st_reports_dir s) fs fm \<Longrightarrow> after fm (evict cap fs tot) (\<lambda>_ fm'. swept s now X fm fm')"
proof (induction fs arbitrary: fm tot)
  case (Cons f fs)
  have fs: "tracked (st_reports_dir s) fs fm" using Cons(2) by (simp add: tracked_def)
  have rm: "removable s now X (of_path f) c" if "fm (of_path f) = Some c" "\<not> of_protected f" for c
    using Cons(2) that by (auto simp: tracked_def removable_def)
  have "after fm (io_bind (os_remove (of_path f)) (\<lambda>_. evict cap fs (wrap64 (tot - of_size f)))) (\<lambda>_ fm'. swept s now X fm fm')"
    if "\<not> of_protected f"
    by (rule swept_bind [where K = "\<lambda>_ _. True"])
      (use Cons(1) tracked_swept [OF fs] rm that in \<open>auto intro!: after_mono [OF swept_remove] split: sum.splits\<close>)
  then show ?case using Cons(1) [OF fs] by (simp add: after_pure swept_refl)
qed (simp add: after_pure swept_refl)

lemma swept_read:
  assumes "\<And>e. fm p = Some (Env e) \<Longrightarrow> after fm (f e) (\<lambda>_ fm'. swept s now X fm fm')"
  shows "after fm (io_bind (readEncryptedEnvelope L p) f) (\<lambda>_ fm'. swept s now X fm fm')"
  by (intro after_bind after_read) (use assms in \<open>simp_all add: swept_refl\<close>)

lemma keeps_entry_info [simp]: "preserves P (entry_info L p)"
  unfolding entry_info_def by (rule preserves_sys) (auto split: option.splits)

definition entries_done :: "store \<Rightarrow> gtime \<Rightarrow> string set \<Rightarrow> string \<Rightarrow> (string \<Rightarrow> content option) \<Rightarrow> (owned_file list \<times> int) res
    \<Rightarrow> (string \<Rightarrow> content option) \<Rightarrow> bool" where
  "entries_done s now X d fm r fm' \<longleftrightarrow>
     swept s now X fm fm' \<and> (case r of Inl _ \<Rightarrow> True | Inr (kept, _) \<Rightarrow> tracked d kept fm')"

lemma entries_done_simps [simp]:
  "entries_done s now X d fm (Inl e) fm' = swept s now X fm fm'"
  "entries_done s now X d fm (Inr (kept, tot)) fm' \<longleftrightarrow> swept s now X fm fm' \<and> tracked d kept fm'"
  by (simp_all add: entries_done_def)

lemma sweep_entries_swept:
  assumes "expired_ids s now fm \<subseteq> X" "tracked d kept fm" "list_all proper ds" "d = abs_path ds"
    "list_all (\<lambda>(n, _). sep \<notin> set n) entries" "d \<in> set [st_tasks_dir s, st_reports_dir s, st_grants_dir s]"
  shows "after fm (sweep_entries L s now d entries kept tot)
    (entries_done s now X d fm)"
  using assms(1,2,5)
proof (induction entries arbitrary: fm kept tot)
  case Nil
  then show ?case by (simp add: after_pure swept_refl)
next
  case (Cons en entries)
  let ?G = "entries_done s now X d"
  obtain name is_dir where en: "en = (name, is_dir)" by force
  have rest: "list_all (\<lambda>(n, _). sep \<notin> set n) entries" "sep \<notin> set name" using Cons(4) en by auto
  note IH = Cons(1) [OF _ _ rest(1)]
  let ?path = "path_join d name"
  show ?case
  proof (cases "is_dir \<or> \<not> has_suffix name ''.are''")
    case True
    then show ?thesis using IH [OF Cons(2,3)] en by simp
  next
    case False
    then obtain n where n: "name = n @ ''.are''" by (auto simp: has_suffix_def suffix_def)
    with rest(2) have pn: "proper name" by simp
    have dir: "path_dir ?path = d"
      using path_join_name [OF assms(3) pn] path_dir_snoc [of ds name] assms(3,4) pn by simp
    have later: "after fm1 (sweep_entries L s now d entries kept1 tot1) (?G fm)"
      if "swept s now X fm fm1" "tracked d kept1 fm1" for fm1 kept1 tot1
      using IH [OF expired_swept [OF that(1) Cons(2)] that(2)]
      by (rule after_mono) (auto simp: entries_done_def intro: swept_trans [OF that(1)])
    have body: "after fm (if \<not> time_before now (en_expires_at e) then
           io_bind (os_remove ?path) (\<lambda>_.
           io_bind (if d = st_tasks_dir s then removeDirectoryFiles (ownedEventDir s (en_opaque_id e)) else io_return ()) (\<lambda>_.
             sweep_entries L s now d entries kept tot))
         else io_bind (entry_info L ?path) (\<lambda>size.
             sweep_entries L s now d entries (kept @ [\<lparr>of_path = ?path, of_size = size, of_created_at = en_created_at e,
                of_protected = en_protected e\<rparr>]) (wrap64 (tot + size)))) (?G fm)"
      if e: "fm ?path = Some (Env e)" for e
    proof (cases "time_before now (en_expires_at e)")
      case True
      have "tracked d (kept @ [\<lparr>of_path = ?path, of_size = size, of_created_at = en_created_at e, of_protected = en_protected e\<rparr>]) fm" for size
        using Cons(3) e dir by (auto simp: tracked_def)
      then show ?thesis using True later [OF swept_refl] by (simp, intro after_bind after_keeps) (auto simp: swept_refl split: sum.splits)
    next
      case False
      have rm: "after fm (os_remove ?path) (\<lambda>_ fm'. swept s now X fm fm')"
        by (rule swept_remove) (use e False dir assms(6) in \<open>auto simp: removable_def time_before_def\<close>)
      have ev: "after fm1 (if d = st_tasks_dir s then removeDirectoryFiles (ownedEventDir s (en_opaque_id e)) else io_return ())
          (\<lambda>_ fm'. swept s now X fm1 fm')" for fm1
      proof (cases "d = st_tasks_dir s")
        case True
        then have "en_opaque_id e \<in> X" using subsetD [OF Cons(2) expired_idsI [of ?path s fm, OF _ e False]] dir by simp
        with True swept_remove_dir show ?thesis by simp
      qed (simp add: after_pure swept_refl)
      have tail: "after fm1 (io_bind (if d = st_tasks_dir s then removeDirectoryFiles (ownedEventDir s (en_opaque_id e)) else io_return ()) (\<lambda>_.
             sweep_entries L s now d entries kept tot)) (?G fm)" if s1: "swept s now X fm fm1" for fm1
        by (intro after_bind after_mono [OF ev])
          (auto split: sum.splits intro!: later tracked_swept [OF Cons(3)] intro: swept_trans [OF s1])
      have "after fm (io_bind (os_remove ?path) (\<lambda>_.
           io_bind (if d = st_tasks_dir s then removeDirectoryFiles (ownedEventDir s (en_opaque_id e)) else io_return ()) (\<lambda>_.
             sweep_entries L s now d entries kept tot))) (?G fm)"
      proof (rule after_bind, rule after_mono [OF rm])
        fix r fm1 assume "swept s now X fm fm1"
        then show "case r of Inl er \<Rightarrow> ?G fm (Inl er) fm1 | Inr _ \<Rightarrow> after fm1 (io_bind (if d = st_tasks_dir s
            then removeDirectoryFiles (ownedEventDir s (en_opaque_id e)) else io_return ()) (\<lambda>_.
             sweep_entries L s now d entries kept tot)) (?G fm)"
          by (cases r) (simp_all only: sum.case entries_done_simps tail)
      qed
      then show ?thesis using False by simp
    qed
    have "after fm (io_bind (readEncryptedEnvelope L ?path) (\<lambda>e. if \<not> time_before now (en_expires_at e) then
           io_bind (os_remove ?path) (\<lambda>_.
           io_bind (if d = st_tasks_dir s then removeDirectoryFiles (ownedEventDir s (en_opaque_id e)) else io_return ()) (\<lambda>_.
             sweep_entries L s now d entries kept tot))
         else io_bind (entry_info L ?path) (\<lambda>size.
             sweep_entries L s now d entries (kept @ [\<lparr>of_path = ?path, of_size = size, of_created_at = en_created_at e,
                of_protected = en_protected e\<rparr>]) (wrap64 (tot + size))))) (?G fm)"
      by (intro after_bind after_read) (use body in \<open>auto simp: swept_refl\<close>)
    then show ?thesis using False en by (simp add: Let_def)
  qed
qed

lemma sweep_dirs_swept:
  assumes "expired_ids s now fm \<subseteq> X" "\<And>d. d \<in> set dirs \<Longrightarrow> \<exists>ds. list_all proper ds \<and> d = abs_path ds"
    "set dirs \<subseteq> set [st_tasks_dir s, st_reports_dir s, st_grants_dir s]"
  shows "after fm (sweep_dirs L s now dirs) (\<lambda>_ fm'. swept s now X fm fm')"
  using assms
proof (induction dirs arbitrary: fm)
  case Nil
  then show ?case by (simp add: swept_keeps)
next
  case (Cons d dirs)
  obtain ds where ds: "list_all proper ds" "d = abs_path ds" using Cons(3) by auto
  have rest: "after fm1 (sweep_dirs L s now dirs) (\<lambda>_ fm'. swept s now X fm1 fm')" if "swept s now X fm fm1" for fm1
    using Cons(1) [OF expired_swept [OF that Cons(2)]] Cons(3,4) by simp
  have ev: "after fm1 (if d = st_reports_dir s \<and> tot > cf_capacity (st_config s)
      then evict (cf_capacity (st_config s)) (sort_by older kept) tot else io_return ()) (\<lambda>_ fm'. swept s now X fm1 fm')"
    if "tracked d kept fm1" for fm1 kept tot
    using evict_swept [of s "sort_by older kept"] that tracked_mset [of "sort_by older kept" kept]
    by (auto simp: after_pure swept_refl)
  show ?case unfolding sweep_dirs.simps
  proof (rule swept_bind [where K = "\<lambda>entries _. list_all (\<lambda>(n, _). sep \<notin> set n) entries"])
    show "after fm (os_read_dir d) (\<lambda>r fm'. swept s now X fm fm' \<and> (case r of Inl _ \<Rightarrow> True | Inr es \<Rightarrow> list_all (\<lambda>(n, _). sep \<notin> set n) es))"
    proof (rule afterI)
      fix w r w' assume run: "file_at w = fm" "os_read_dir d w = (r, w')"
      have "file_at w' = fm" using keeps_files [OF preserves_calls(5) run(2)] run(1) by simp
      then show "swept s now X fm (file_at w') \<and> (case r of Inl _ \<Rightarrow> True | Inr es \<Rightarrow> list_all (\<lambda>(n, _). sep \<notin> set n) es)"
        using os_read_dir_names [of _ w _ w'] run by (cases r) (auto simp: swept_refl)
    qed
    fix entries fm1 assume s1: "swept s now X fm fm1" and names: "list_all (\<lambda>(n, _ :: bool). sep \<notin> set n) entries"
    show "after fm1 (io_bind (sweep_entries L s now d entries [] 0) (\<lambda>(kept, tot).
        io_bind (if d = st_reports_dir s \<and> tot > cf_capacity (st_config s)
          then evict (cf_capacity (st_config s)) (sort_by older kept) tot else io_return ()) (\<lambda>_.
        io_bind (syncDirectory d) (\<lambda>_. sweep_dirs L s now dirs)))) (\<lambda>_ fm'. swept s now X fm1 fm')"
    proof (rule swept_bind [where K = "\<lambda>x fm'. tracked d (fst x) fm'"])
      show "after fm1 (sweep_entries L s now d entries [] 0)
          (\<lambda>r fm'. swept s now X fm1 fm' \<and> (case r of Inl _ \<Rightarrow> True | Inr x \<Rightarrow> tracked d (fst x) fm'))"
      proof (rule after_mono [OF sweep_entries_swept [OF expired_swept [OF s1 Cons(2)] _ ds names]])
        show "tracked d [] fm1" by (simp add: tracked_def)
        show "d \<in> set [st_tasks_dir s, st_reports_dir s, st_grants_dir s]" using Cons(4) by simp
        fix r fm' assume "entries_done s now X d fm1 r fm'"
        then show "swept s now X fm1 fm' \<and> (case r of Inl _ \<Rightarrow> True | Inr x \<Rightarrow> tracked d (fst x) fm')"
          by (cases r) (auto simp: entries_done_def)
      qed
      fix x :: "owned_file list \<times> int" and fm2 assume s2: "swept s now X fm1 fm2" and t: "tracked d (fst x) fm2"
      obtain kept tot where x: "x = (kept, tot)" by force
      have s02: "swept s now X fm fm2" using swept_trans [OF s1 s2] .
      show "after fm2 (case x of (kept, tot) \<Rightarrow>
          io_bind (if d = st_reports_dir s \<and> tot > cf_capacity (st_config s)
            then evict (cf_capacity (st_config s)) (sort_by older kept) tot else io_return ()) (\<lambda>_.
          io_bind (syncDirectory d) (\<lambda>_. sweep_dirs L s now dirs))) (\<lambda>_ fm'. swept s now X fm2 fm')"
        unfolding x prod.case
      proof (rule swept_bind [where K = "\<lambda>_ _. True"])
        show "after fm2 (if d = st_reports_dir s \<and> tot > cf_capacity (st_config s)
            then evict (cf_capacity (st_config s)) (sort_by older kept) tot else io_return ())
            (\<lambda>r fm'. swept s now X fm2 fm' \<and> (case r of Inl _ \<Rightarrow> True | Inr _ \<Rightarrow> True))"
          using ev t x by (auto intro!: after_mono [OF ev] split: sum.splits)
        fix u fm3 assume s3: "swept s now X fm2 fm3"
        have s03: "swept s now X fm fm3" using swept_trans [OF s02 s3] .
        show "after fm3 (io_bind (syncDirectory d) (\<lambda>_. sweep_dirs L s now dirs)) (\<lambda>_ fm'. swept s now X fm3 fm')"
          by (rule swept_bind [where K = "\<lambda>_ fm'. fm' = fm3"])
            (auto intro!: after_keeps rest [OF s03] simp: swept_refl split: sum.splits)
      qed
    qed
  qed
qed

section \<open>Expired records go\<close>

lemma swept_None: "swept s now X fm fm' \<Longrightarrow> fm p = None \<Longrightarrow> fm' p = None"
  unfolding swept_def by (metis option.distinct(1))

lemma os_remove_Inr: "os_remove p w = (Inr u, w') \<Longrightarrow> file_at w' p = None"
  by (auto simp: os_remove_def sys_def split: option.splits if_splits)

lemma sweep_entries_clears:
  assumes "sweep_entries L s now d entries kept tot w = (Inr x, w')" "expired_ids s now (file_at w) \<subseteq> X" "tracked d kept (file_at w)"
    "list_all proper ds" "d = abs_path ds" "list_all (\<lambda>(n, _). sep \<notin> set n) entries"
    "d \<in> set [st_tasks_dir s, st_reports_dir s, st_grants_dir s]" "(n, False) \<in> set entries" "has_suffix n ''.are''" "file_at w (path_join d n) = Some (Env e)" "t_ns (en_expires_at e) \<le> t_ns now"
  shows "file_at w' (path_join d n) = None"
  using assms(1-3,6,8-11)
proof (induction entries arbitrary: kept tot w)
  case (Cons en entries)
  obtain name is_dir where en: "en = (name, is_dir)" by force
  let ?p = "path_join d name"
  have rest: "list_all (\<lambda>(n, _). sep \<notin> set n) entries" "sep \<notin> set name" using Cons.prems(4) en by auto
  show ?case
  proof (cases "is_dir \<or> \<not> has_suffix name ''.are''")
    case True
    then show ?thesis using Cons en by auto
  next
    case False
    with Cons.prems(1) en obtain f w1 where f: "readEncryptedEnvelope L ?p w = (Inr f, w1)"
      and run: "(if \<not> time_before now (en_expires_at f) then
           io_bind (os_remove ?p) (\<lambda>_.
           io_bind (if d = st_tasks_dir s then removeDirectoryFiles (ownedEventDir s (en_opaque_id f)) else io_return ()) (\<lambda>_.
             sweep_entries L s now d entries kept tot))
         else io_bind (entry_info L ?p) (\<lambda>size.
             sweep_entries L s now d entries (kept @ [\<lparr>of_path = ?p, of_size = size, of_created_at = en_created_at f,
                of_protected = en_protected f\<rparr>]) (wrap64 (tot + size)))) w1 = (Inr x, w')"
      by (auto simp: Let_def io_bind_Inr_iff)
    have fp: "file_at w ?p = Some (Env f)" using readEncryptedEnvelope_Inr [OF f] .
    have w1: "file_at w1 = file_at w" using keeps_files [OF preserves_readJSON f] .
    obtain nm where nm: "name = nm @ ''.are''" using False by (auto simp: has_suffix_def suffix_def)
    then have pn: "proper name" using rest(2) by simp
    have dir: "path_dir ?p = d"
      using path_join_name [OF assms(4) pn] path_dir_snoc [of ds name] assms(4,5) pn by simp
    have here: "n = name \<or> (n, False) \<in> set entries" using Cons.prems(5) en by auto
    show ?thesis
    proof (cases "time_before now (en_expires_at f)")
      case True
      with run obtain size w2 where sz: "entry_info L ?p w1 = (Inr size, w2)" and run': "sweep_entries L s now d entries
          (kept @ [\<lparr>of_path = ?p, of_size = size, of_created_at = en_created_at f, of_protected = en_protected f\<rparr>])
          (wrap64 (tot + size)) w2 = (Inr x, w')" by (auto simp: io_bind_Inr_iff)
      have w2: "file_at w2 = file_at w" using keeps_files [OF keeps_entry_info sz] w1 by simp
      have "n \<noteq> name" using Cons.prems(7,8) fp True by (auto simp: time_before_def)
      moreover have "tracked d (kept @ [\<lparr>of_path = ?p, of_size = size, of_created_at = en_created_at f, of_protected = en_protected f\<rparr>]) (file_at w2)"
        using Cons.prems(3) fp dir w2 by (auto simp: tracked_def)
      ultimately show ?thesis using Cons.IH [OF run'] Cons.prems(2,6-8) w2 rest(1) here by auto
    next
      case False
      with run obtain u w2 u' w3 where rm: "os_remove ?p w1 = (Inr u, w2)"
        and ev: "(if d = st_tasks_dir s then removeDirectoryFiles (ownedEventDir s (en_opaque_id f)) else io_return ()) w2 = (Inr u', w3)"
        and run': "sweep_entries L s now d entries kept tot w3 = (Inr x, w')" by (auto simp: io_bind_Inr_iff)
      have s12: "swept s now X (file_at w) (file_at w2)"
        using afterD [OF swept_remove [of "file_at w1" ?p s now X] refl rm] fp False w1 dir assms(7)
        by (auto simp: removable_def time_before_def)
      have "en_opaque_id f \<in> X" if "d = st_tasks_dir s"
        using subsetD [OF Cons.prems(2) expired_idsI [of ?p s "file_at w", OF _ fp False]] dir that by simp
      then have "after (file_at w2) (if d = st_tasks_dir s then removeDirectoryFiles (ownedEventDir s (en_opaque_id f)) else io_return ())
          (\<lambda>_ fm'. swept s now X (file_at w2) fm')" by (simp add: swept_remove_dir after_pure swept_refl)
      from afterD [OF this refl ev] have s23: "swept s now X (file_at w2) (file_at w3)" .
      have s: "swept s now X (file_at w) (file_at w3)" using swept_trans [OF s12 s23] .
      have pl: "expired_ids s now (file_at w3) \<subseteq> X" and tr: "tracked d kept (file_at w3)"
        using expired_swept [OF s Cons.prems(2)] tracked_swept [OF Cons.prems(3) s] .
      have s3: "swept s now X (file_at w3) (file_at w')"
        using afterD [OF sweep_entries_swept [OF pl tr assms(4,5) rest(1) assms(7)] refl run'] by (cases x) simp
      show ?thesis
      proof (cases "file_at w3 (path_join d n) = None")
        case True
        then show ?thesis using swept_None [OF s3] by blast
      next
        case False
        then obtain c where c: "file_at w3 (path_join d n) = Some c" by blast
        then have "file_at w3 (path_join d n) = Some (Env e)" using swept_Some [OF s c] Cons.prems(7) by simp
        moreover have "n \<noteq> name" using os_remove_Inr [OF rm] swept_None [OF s23] c by auto
        ultimately show ?thesis using Cons.IH [OF run' pl tr rest(1)] Cons.prems(6,8) here by blast
      qed
    qed
  qed
qed simp

lemma path_base_snoc: "list_all proper (cs @ [c]) \<Longrightarrow> path_base (abs_path (cs @ [c])) = c"
  by (simp add: path_base_def path_parts_abs_path)

lemma os_read_dir_lists:
  assumes "os_read_dir d w = (Inr entries, w')" "file_at w p \<noteq> None" "path_dir p = d" "p \<noteq> d"
  shows "(path_base p, False) \<in> set entries"
proof -
  have "p \<in> set (map fst (w_files w))" using assms(2) by (auto simp: file_at_def map_of_eq_None_iff)
  then have "p \<in> set (children w d)" using assms(3,4) by (auto simp: children_def)
  then show ?thesis
    using assms(1,2) by (force simp: os_read_dir_def sys_def children_def file_at_def split: option.splits if_splits)
qed

lemma sweep_dirs_clears:
  assumes "sweep_dirs L s now dirs w = (Inr u, w')" "expired_ids s now (file_at w) \<subseteq> X" "d \<in> set dirs"
    "\<And>d. d \<in> set dirs \<Longrightarrow> \<exists>ds. list_all proper ds \<and> d = abs_path ds"
    "proper (n @ ''.are'')" "file_at w (path_join d (n @ ''.are'')) = Some (Env e)" "t_ns (en_expires_at e) \<le> t_ns now"
    "set dirs \<subseteq> set [st_tasks_dir s, st_reports_dir s, st_grants_dir s]"
  shows "file_at w' (path_join d (n @ ''.are'')) = None"
  using assms(1-4,6,8)
proof (induction dirs arbitrary: w)
  case (Cons d0 dirs)
  let ?p = "path_join d (n @ ''.are'')"
  obtain ds where ds: "list_all proper ds" "d0 = abs_path ds" using Cons.prems(4) by auto
  from Cons.prems(1) obtain entries w1 kept tot w2 u1 w3 u2 w4 where rd: "os_read_dir d0 w = (Inr entries, w1)"
      and se: "sweep_entries L s now d0 entries [] 0 w1 = (Inr (kept, tot), w2)"
      and ev: "(if d0 = st_reports_dir s \<and> tot > cf_capacity (st_config s)
              then evict (cf_capacity (st_config s)) (sort_by older kept) tot else io_return ()) w2 = (Inr u1, w3)"
      and sy: "syncDirectory d0 w3 = (Inr u2, w4)" and run: "sweep_dirs L s now dirs w4 = (Inr u, w')"
    by (auto simp: io_bind_Inr_iff)
  have w1: "file_at w1 = file_at w" using keeps_files [OF preserves_calls(5) rd] .
  have w4: "file_at w4 = file_at w3" using keeps_files [OF keeps_sync sy] .
  have names: "list_all (\<lambda>(n, _). sep \<notin> set n) entries" using os_read_dir_names [OF rd] .
  have pl: "expired_ids s now (file_at w1) \<subseteq> X" using Cons.prems(2) w1 by simp
  have tr: "tracked d0 [] (file_at w1)" by (simp add: tracked_def)
  have kind: "d0 \<in> set [st_tasks_dir s, st_reports_dir s, st_grants_dir s]" using Cons.prems(6) by simp
  have s1: "swept s now X (file_at w) (file_at w2)" and tr2: "tracked d0 kept (file_at w2)"
    using afterD [OF sweep_entries_swept [OF pl tr ds names kind] refl se] w1 by simp_all
  have "after (file_at w2) (if d0 = st_reports_dir s \<and> tot > cf_capacity (st_config s)
      then evict (cf_capacity (st_config s)) (sort_by older kept) tot else io_return ()) (\<lambda>_ fm'. swept s now X (file_at w2) fm')"
    using evict_swept [of s "sort_by older kept" "file_at w2"] tr2 tracked_mset [of "sort_by older kept" kept]
    by (auto simp: after_pure swept_refl)
  from afterD [OF this refl ev] have s23: "swept s now X (file_at w2) (file_at w3)" .
  have s4: "swept s now X (file_at w) (file_at w4)" using swept_trans [OF s1 s23] w4 by simp
  have pl4: "expired_ids s now (file_at w4) \<subseteq> X" using expired_swept [OF s4 Cons.prems(2)] .
  have s': "swept s now X (file_at w4) (file_at w')"
    using afterD [OF sweep_dirs_swept [OF pl4] refl run] Cons.prems(4,6) by simp
  show ?case
  proof (cases "file_at w4 ?p = None")
    case True
    then show ?thesis using swept_None [OF s'] by blast
  next
    case False
    then have f4: "file_at w4 ?p = Some (Env e)" using swept_Some [OF s4] Cons.prems(5) by fastforce
    have "d \<noteq> d0"
    proof
      assume d: "d = d0"
      have p: "?p = abs_path (ds @ [n @ ''.are''])" using path_join_name [OF ds(1) assms(5)] d ds(2) by simp
      have pr: "list_all proper (ds @ [n @ ''.are''])" using ds(1) assms(5) by simp
      have "path_dir ?p = d0" unfolding p ds(2) by (rule path_dir_snoc [OF pr])
      moreover have "?p \<noteq> d0" unfolding p ds(2) using abs_path_inject [of "ds @ [n @ ''.are'']" ds] pr ds(1) by simp
      ultimately have "(path_base ?p, False) \<in> set entries" using os_read_dir_lists [OF rd] Cons.prems(5) by simp
      then have ent: "(n @ ''.are'', False) \<in> set entries" using path_base_snoc [OF pr] p by simp
      have f1: "file_at w1 (path_join d0 (n @ ''.are'')) = Some (Env e)" using Cons.prems(5) w1 d by simp
      have suf: "has_suffix (n @ ''.are'') ''.are''" unfolding has_suffix_def by (rule suffixI) (rule refl)
      from sweep_entries_clears [OF se pl tr ds names kind ent suf f1 assms(7)] d have "file_at w2 ?p = None" by simp
      then have "file_at w4 ?p = None" using swept_None [OF s23] w4 by simp
      with f4 show False by simp
    qed
    then show ?thesis using Cons.IH [OF run pl4] Cons.prems(3,4,6) f4 by simp
  qed
qed simp

lemma layout_dirs:
  assumes "store_layout s hs" "d \<in> set [st_tasks_dir s, st_reports_dir s, st_grants_dir s]"
  shows "\<exists>ds. list_all proper ds \<and> d = abs_path ds"
proof -
  have "list_all proper (hs @ [''tasks''])" "list_all proper (hs @ [''reports''])" "list_all proper (hs @ [''grants''])"
    using assms(1) by (simp_all add: store_layout_def)
  then show ?thesis using assms by (simp only: store_layout_def list.set insert_iff empty_iff) metis
qed

lemma record_dirs_distinct:
  assumes "store_layout s hs"
  shows "st_tasks_dir s \<noteq> st_reports_dir s" "st_grants_dir s \<noteq> st_reports_dir s"
proof -
  have "abs_path (hs @ [a]) = abs_path (hs @ [b]) \<longleftrightarrow> a = b" if "proper a" "proper b" for a b
    using abs_path_inject [of "hs @ [a]" "hs @ [b]"] assms that by (simp add: store_layout_def)
  then show "st_tasks_dir s \<noteq> st_reports_dir s" "st_grants_dir s \<noteq> st_reports_dir s"
    using assms by (simp_all add: store_layout_def)
qed

lemma batch_dir:
  assumes "store_layout s hs" "proper i" "proper n"
  shows "path_dir (path_join (ownedEventDir s i) n) \<notin> set [st_tasks_dir s, st_reports_dir s, st_grants_dir s]"
proof -
  note lay = assms(1) [unfolded store_layout_def]
  have pr: "list_all proper (hs @ [''events'', i])" using lay assms(2) by simp
  have "path_join (ownedEventDir s i) n = abs_path ((hs @ [''events'', i]) @ [n])"
    using owned_paths(4) [OF assms(1,2)] path_join_name [OF pr assms(3)] by simp
  moreover have "path_dir (abs_path ((hs @ [''events'', i]) @ [n])) = abs_path (hs @ [''events'', i])"
    by (rule path_dir_snoc) (use pr assms(3) in simp)
  moreover have "abs_path (hs @ [''events'', i]) \<noteq> abs_path (hs @ [d])" if "proper d" for d
    using abs_path_inject [of "hs @ [''events'', i]" "hs @ [d]"] pr lay that by simp
  ultimately show ?thesis using lay by simp
qed

lemma owned_untouched:
  assumes "store_layout s hs" "proper i" "proper j" "i \<noteq> j"
  shows "owned_files s i \<inter> touched s j = {}"
proof (rule equals0I, elim IntE)
  fix p assume "p \<in> owned_files s i" "p \<in> touched s j"
  obtain ts where ts: "list_all proper ts" "p = abs_path (hs @ ts)" "owned_tail i ts" by (rule owned_cases [OF assms(1,2) \<open>p \<in> owned_files s i\<close>])
  obtain us where us: "list_all proper us" "p = abs_path (hs @ us)" "touched_tail j us" by (rule touched_cases [OF assms(1,3) \<open>p \<in> touched s j\<close>])
  have "ts = us" using abs_path_inject [of "hs @ ts" "hs @ us"] ts us assms(1) by (simp add: store_layout_def)
  with tails_disjoint [of i ts j] ts us assms(4) show False by simp
qed

text \<open>
  C28: A sweep that reports success has removed every expired record: no task, report or grant file
  whose expiry has been reached is left, protected or not.
\<close>

theorem Sweep_removes_expired:
  assumes "store_layout s hs" "Sweep L s now w = (Inr (), w')" "proper i"
    "p \<in> {ownedTaskPath s i, ownedReportPath s i, ownedGrantPath s i}"
    "file_at w p = Some (Env e)" "t_ns (en_expires_at e) \<le> t_ns now"
  shows "file_at w' p = None"
proof -
  obtain d where d: "d \<in> set [st_tasks_dir s, st_reports_dir s, st_grants_dir s]" "p = path_join d (i @ ''.are'')"
    using assms(4) by (auto simp: ownedTaskPath_def ownedReportPath_def ownedGrantPath_def)
  have "proper (i @ ''.are'')" using assms(3) by (simp add: proper_def)
  from sweep_dirs_clears [OF assms(2) [unfolded Sweep_def sweepOwned_def] order_refl d(1) layout_dirs [OF assms(1)] this]
  show ?thesis using assms(5,6) d(2) by simp
qed

text \<open>
  C27: A sweep removes nothing it should keep, whichever system calls fail: no file is ever altered or added, and a
  file that goes was an expired record, or an unprotected report (which the capacity limit may
  evict), or lay in the event directory of an id that an expired task record carries. So every
  record that has not expired survives unchanged, a report if it is protected, and so do the
  executor batches of every task that has not expired. Relied on for the last two: the ids in
  expired task records are plain names, which the sweep does not check.
\<close>

theorem Sweep_keeps_live:
  assumes "store_layout s hs" "Sweep L s now w = (r, w')" "X = expired_ids s now (file_at w)"
  shows "(\<forall>p. file_at w' p = file_at w p \<or> file_at w' p = None \<and> (\<exists>c. file_at w p = Some c \<and> removable s now X p c))
    \<and> (\<forall>i p e. Ball X proper \<and> proper i \<and> p \<in> {ownedTaskPath s i, ownedReportPath s i, ownedGrantPath s i}
         \<and> file_at w p = Some (Env e) \<and> t_ns now < t_ns (en_expires_at e) \<and> (p = ownedReportPath s i \<longrightarrow> en_protected e)
         \<longrightarrow> file_at w' p = Some (Env e))
    \<and> (\<forall>i n. Ball X proper \<and> proper i \<and> i \<notin> X \<and> proper n
         \<longrightarrow> file_at w' (path_join (ownedEventDir s i) n) = file_at w (path_join (ownedEventDir s i) n))"
proof (intro conjI allI impI; (elim conjE)?)
  have utc: "removable s (time_utc now) X = removable s now X" "expired_ids s (time_utc now) = expired_ids s now"
    by (simp_all add: removable_def expired_ids_def fun_eq_iff)
  have "after (file_at w) (Sweep L s now) (\<lambda>_ fm'. swept s (time_utc now) X (file_at w) fm')"
    unfolding Sweep_def sweepOwned_def by (rule sweep_dirs_swept [OF _ layout_dirs [OF assms(1)]]) (simp_all add: utc assms(3))
  from afterD [OF this refl assms(2)]
  have sw: "file_at w' p = file_at w p \<or> file_at w' p = None \<and> (\<exists>c. file_at w p = Some c \<and> removable s now X p c)" for p
    by (simp add: swept_def utc)
  then show "file_at w' p = file_at w p \<or> file_at w' p = None \<and> (\<exists>c. file_at w p = Some c \<and> removable s now X p c)" for p .
  have event: "p \<notin> insert (ownedEventDir s j) (event_files s j)" if "p \<in> owned_files s i" "proper i" "proper j" "i \<noteq> j" for p i j
  proof -
    have "insert (ownedEventDir s j) (event_files s j) \<subseteq> touched s j"
      using event_dir_touched [OF assms(1) that(3)] by (auto simp: touched_def)
    then show ?thesis using owned_untouched [OF assms(1) that(2,3,4)] that(1) by blast
  qed
  show "file_at w' p = Some (Env e)"
    if p: "Ball X proper" "proper i" "p \<in> {ownedTaskPath s i, ownedReportPath s i, ownedGrantPath s i}"
      "file_at w p = Some (Env e)" "t_ns now < t_ns (en_expires_at e)" "p = ownedReportPath s i \<longrightarrow> en_protected e" for i p e
  proof -
    have "p \<noteq> ownedEventDir s j" "p \<notin> event_files s j" if "proper j" for j
      using records_not_events [OF assms(1) p(2) _ p(3) that, of "[]"] records_not_events(1) [OF assms(1) p(2) _ p(3) that]
      by (auto simp: event_files_def)
    moreover have "en_protected e" if "path_dir p = st_reports_dir s"
      using that record_path_facts [OF assms(1) p(2)] record_dirs_distinct [OF assms(1)] p(3,6) by auto
    ultimately have "\<not> removable s now X p (Env e)" using p(1,5) by (auto simp: removable_def)
    with sw [of p] p(4) show ?thesis by auto
  qed
  show "file_at w' (path_join (ownedEventDir s i) n) = file_at w (path_join (ownedEventDir s i) n)"
    if n: "Ball X proper" "proper i" "i \<notin> X" "proper n" for i n
  proof -
    let ?p = "path_join (ownedEventDir s i) n"
    have "?p \<in> owned_files s i" using n(4) by (auto simp: owned_files_def)
    then have "?p \<notin> insert (ownedEventDir s j) (event_files s j)" if "j \<in> X" for j
      using event [of ?p i j] n that by blast
    moreover have "path_dir ?p \<notin> set [st_tasks_dir s, st_reports_dir s, st_grants_dir s]"
      by (rule batch_dir [OF assms(1) n(2,4)])
    ultimately have "\<not> removable s now X ?p c" for c by (auto simp: removable_def)
    with sw [of ?p] show ?thesis by blast
  qed
qed

lemma demo_w1_files:
  obtains e where "w_files demo_w1 = [(ownedTaskPath demo_store (o_opaque_id demo_owner), Env e)]"
    "t_ns (time_of_unix 5) < t_ns (en_expires_at e)" "t_ns (en_expires_at e) \<le> t_ns (time_of_unix 100000)"
proof -
  let ?p = "ownedTaskPath demo_store (o_opaque_id demo_owner)"
  have "case w_files demo_w1 of [(p, Env e)] \<Rightarrow> p = ?p \<and> t_ns (time_of_unix 5) < t_ns (en_expires_at e)
      \<and> t_ns (en_expires_at e) \<le> t_ns (time_of_unix 100000) | _ \<Rightarrow> False"
    by code_simp
  then obtain e where e: "w_files demo_w1 = [(?p, Env e)]" "t_ns (time_of_unix 5) < t_ns (en_expires_at e)"
      "t_ns (en_expires_at e) \<le> t_ns (time_of_unix 100000)"
    by (cases "w_files demo_w1"; cases "tl (w_files demo_w1)") (auto split: prod.splits content.splits)
  then show ?thesis using that by blast
qed

lemma demo_proper_id: "proper (o_opaque_id demo_owner)"
  by (simp add: demo_owner_def proper_def)

theorem Sweep_keeps_live_witness:
  "file_at (snd (Sweep demo_storelib demo_store (time_of_unix 5) demo_w1)) (ownedTaskPath demo_store (o_opaque_id demo_owner))
     = file_at demo_w1 (ownedTaskPath demo_store (o_opaque_id demo_owner))
   \<and> file_at (snd (Sweep demo_storelib demo_store (time_of_unix 5) demo_w1)) (path_join (ownedEventDir demo_store (o_opaque_id demo_owner)) ''b.are'')
     = file_at demo_w1 (path_join (ownedEventDir demo_store (o_opaque_id demo_owner)) ''b.are'')"
proof -
  let ?p = "ownedTaskPath demo_store (o_opaque_id demo_owner)"
  obtain e where f: "w_files demo_w1 = [(?p, Env e)]" "t_ns (time_of_unix 5) < t_ns (en_expires_at e)" by (rule demo_w1_files)
  have none: "expired_ids demo_store (time_of_unix 5) (file_at demo_w1) = {}"
    using f by (auto simp: expired_ids_def file_at_def split: if_splits)
  have "?p \<noteq> ownedReportPath demo_store (o_opaque_id demo_owner)" using records_distinct [OF demo_layout demo_proper_id] by simp
  moreover have "proper ''b.are''" by (simp add: proper_def)
  moreover have "file_at demo_w1 ?p = Some (Env e)" using f(1) by (simp add: file_at_def)
  moreover note Sweep_keeps_live [OF demo_layout surjective_pairing refl, of demo_storelib "time_of_unix 5" demo_w1, unfolded none]
  ultimately show ?thesis using f(2) demo_proper_id unfolding ball_empty by (metis empty_iff insertI1)
qed

theorem Sweep_removes_expired_witness:
  "file_at (snd (Sweep demo_storelib demo_store (time_of_unix 100000) demo_w1)) (ownedTaskPath demo_store (o_opaque_id demo_owner)) = None"
proof -
  let ?p = "ownedTaskPath demo_store (o_opaque_id demo_owner)" and ?w = "snd (Sweep demo_storelib demo_store (time_of_unix 100000) demo_w1)"
  obtain e where f: "w_files demo_w1 = [(?p, Env e)]" "t_ns (en_expires_at e) \<le> t_ns (time_of_unix 100000)"
    by (rule demo_w1_files)
  have "fst (Sweep demo_storelib demo_store (time_of_unix 100000) demo_w1) = Inr ()" by code_simp
  then have "Sweep demo_storelib demo_store (time_of_unix 100000) demo_w1 = (Inr (), ?w)" by (simp add: prod_eq_iff)
  from Sweep_removes_expired [OF demo_layout this demo_proper_id, where p = ?p and e = e] f show ?thesis
    by (simp add: file_at_def)
qed

end
