(* ===== verification/Service_Parts.thy ===== *)
theory Service_Parts
  imports Retention Grouping
begin

text \<open>
  Package \<open>app\<close>, the pure parts of \<open>service.go\<close>: aliases of executors' events,
  projection of report paths to aliases, hints for the process observer, the exclusion of
  processes that ran before the task, retrospective candidates and the verdicts of a verification.
\<close>

section \<open>Model\<close>

definition rootPaths :: "validated \<Rightarrow> string list" where
  "rootPaths v = map rt_path (vs_roots v)"

text \<open>\<open>strings.Contains(value, "://")\<close> and the split at slashes of either kind.\<close>

definition safeAlias :: "string \<Rightarrow> bool" where
  "safeAlias v \<longleftrightarrow> \<not> (v = [] \<or> \<not> str_contains v ''://'')
     \<and> list_all (\<lambda>part. part \<noteq> ''..'')
         (split_on (\<lambda>c. c = CHR ''/'') (map (\<lambda>c. if c = CHR 0x5C then CHR ''/'' else c) v))"

fun allowedAlias :: "string list \<Rightarrow> string \<Rightarrow> bool" where
  "allowedAlias [] aliased \<longleftrightarrow> False"
| "allowedAlias (root # roots) aliased \<longleftrightarrow>
     (let p = (if root = ''workspace'' then ''workspace://'' else root)
      in aliased = p \<or> has_prefix aliased (trim_suffix p ''/'' @ ''/'') \<or> allowedAlias roots aliased)"

text \<open>The summary of an executor's event keeps its paths as aliases.\<close>

definition event_paths :: "task_event \<Rightarrow> string list" where
  "event_paths e = e_declared_outputs e @ (if e_working_dir e \<noteq> [] then [e_working_dir e] else [])"

definition alias_summary :: "task_event \<Rightarrow> summary" where
  "alias_summary e =
     \<lparr>su_event_id = e_event_id e, su_type = e_type e, su_timestamp = time_utc (e_timestamp e),
      su_working_dir = e_working_dir e, su_command_fingerprint = e_command_fingerprint e,
      su_exit_code = e_exit_code e, su_process = e_process e,
      su_declared_outputs = e_declared_outputs e, su_receipt_id = e_receipt_id e\<rparr>"

fun executor_loop :: "string list \<Rightarrow> string list \<Rightarrow> task_event list \<Rightarrow> summary list res" where
  "executor_loop allowedRoots known [] = Inr []"
| "executor_loop allowedRoots known (item # events) =
     and_then (validate_event item) (\<lambda>_.
       if e_event_id item \<in> set known then Inl (errors_new ''duplicate event_id'')
       else if list_ex (\<lambda>a. \<not> safeAlias a \<or> \<not> allowedAlias allowedRoots a) (event_paths item)
       then Inl ErrAccessDenied
       else and_then (executor_loop allowedRoots (e_event_id item # known) events) (\<lambda>rest.
              Inr (alias_summary item # rest)))"

definition normalizeExecutorEvents :: "task_event list \<Rightarrow> string list \<Rightarrow> summary list res" where
  "normalizeExecutorEvents events allowedRoots =
     (if int (length events) > MaxBatchEvents then Inl (errors_new ''event batch exceeds size limit'')
      else and_then (executor_loop allowedRoots [] events) (\<lambda>summaries.
             Inr (sort_by summary_less summaries)))"

definition executorRootsAllowed :: "string list \<Rightarrow> summary list \<Rightarrow> alias_table \<Rightarrow> bool" where
  "executorRootsAllowed allowed summaries aliases \<longleftrightarrow>
     (if length allowed = 0 then True
      else list_all (\<lambda>su.
             list_all (\<lambda>exact. case Project aliases exact of
                         Inl _ \<Rightarrow> False | Inr a \<Rightarrow> allowedAlias allowed a)
               (su_declared_outputs su @ (if su_working_dir su \<noteq> [] then [su_working_dir su] else [])))
           summaries)"

definition expand_path :: "os_view \<Rightarrow> alias_table \<Rightarrow> string \<Rightarrow> string res" where
  "expand_path os aliases p = (if str_contains p ''://'' then Resolve os aliases p else Inr p)"

definition expand_summary :: "os_view \<Rightarrow> alias_table \<Rightarrow> summary \<Rightarrow> summary res" where
  "expand_summary os aliases su =
     and_then (expand_path os aliases (su_working_dir su)) (\<lambda>wd.
     and_then (map_res (expand_path os aliases) (su_declared_outputs su)) (\<lambda>outs.
       Inr (su\<lparr>su_working_dir := wd, su_declared_outputs := outs\<rparr>)))"

definition expandAliasedEvents :: "os_view \<Rightarrow> summary list \<Rightarrow> alias_table \<Rightarrow> summary list res" where
  "expandAliasedEvents os summaries aliases = map_res (expand_summary os aliases) summaries"

text \<open>The report with aliases for paths, and the exact paths by candidate id.\<close>

fun project_candidates ::
    "alias_table \<Rightarrow> candidate list \<Rightarrow> (string \<times> string) list \<Rightarrow> (candidate list \<times> (string \<times> string) list) res" where
  "project_candidates aliases [] targets = Inr ([], targets)"
| "project_candidates aliases (c # cs) targets =
     (if c_path c = [] then
        and_then (project_candidates aliases cs targets) (\<lambda>(rest, ts). Inr (c # rest, ts))
      else and_then (Project aliases (c_path c)) (\<lambda>aliased.
           and_then (project_candidates aliases cs (AList.update (c_id c) (c_path c) targets)) (\<lambda>(rest, ts).
             Inr (c\<lparr>c_path := aliased\<rparr> # rest, ts))))"

definition projectReportPaths :: "report \<Rightarrow> alias_table \<Rightarrow> (report \<times> (string \<times> string) list) res" where
  "projectReportPaths r aliases =
     and_then (project_candidates aliases (r_candidates r) []) (\<lambda>(cs, targets).
       Inr (r\<lparr>r_candidates := cs\<rparr>, targets))"

definition failureReport :: "(string \<Rightarrow> string) \<Rightarrow> (string \<Rightarrow> string) \<Rightarrow> string \<Rightarrow> gtime \<Rightarrow> err \<Rightarrow> report" where
  "failureReport sha quote taskID now observationErr =
     \<lparr>r_schema_version = ReportSchemaVersion,
      r_report_id = ''report-'' @ to_hex (take 12 (sha (taskID @ [CHR 0x00] @ rfc3339nano now @ [CHR 0x00] @ ''failure''))),
      r_task_id = taskID, r_observation_mode = ObservationOther [], r_status = ReportObservationFailed,
      r_created_at = now, r_verified_at = None, r_candidates = [],
      r_limitations = [err_text quote observationErr]\<rparr>"

fun processHints :: "summary list \<Rightarrow> hints" where
  "processHints [] = \<lparr>h_event_processes = [], h_receipt_processes = [], h_candidate_paths = []\<rparr>"
| "processHints (su # sus) =
     (case su_process su of
        None \<Rightarrow> processHints sus
      | Some p \<Rightarrow>
          (let h = processHints sus; identity = \<lparr>pi_pid = pi_pid p, pi_created_at = pi_created_at p\<rparr>
           in if su_receipt_id su \<noteq> [] then h\<lparr>h_receipt_processes := identity # h_receipt_processes h\<rparr>
              else h\<lparr>h_event_processes := identity # h_event_processes h\<rparr>))"

definition candidatePaths :: "candidate list \<Rightarrow> string list" where
  "candidatePaths cs = filter (\<lambda>p. p \<noteq> []) (map c_path cs)"

definition baseline_identities :: "proc_baseline \<Rightarrow> (int \<times> identity) list" where
  "baseline_identities b = fold (\<lambda>m acc. AList.update (md_pid m) (md_identity m) acc) (pb_processes b) []"

definition excludeBaselineOnlyProcesses :: "evidence list \<Rightarrow> proc_baseline \<Rightarrow> hints \<Rightarrow> evidence list" where
  "excludeBaselineOnlyProcesses evs baseline h =
     filter (\<lambda>item.
       list_ex (\<lambda>i. pi_pid i = ev_pid item \<and> time_equal (pi_created_at i) (pi_created_at (ev_identity item)))
         (h_event_processes h @ h_receipt_processes h)
       \<or> (case map_of (baseline_identities baseline) (ev_pid item) of
            None \<Rightarrow> True
          | Some before \<Rightarrow> \<not> time_equal (pi_created_at before) (pi_created_at (ev_identity item)))) evs"

definition retro_candidate :: "(string \<Rightarrow> string) \<Rightarrow> entry \<Rightarrow> candidate" where
  "retro_candidate sha e =
     \<lparr>c_id = ''retro-'' @ to_hex (take 12 (sha (''retrospective'' @ [CHR 0x00] @ en_identity e @ [CHR 0x00] @ en_path e))),
      c_kind = (if en_kind e = ''directory'' then CandidateDirectory else CandidateFile), c_path = en_path e,
      c_object_identity = en_identity e, c_process = None, c_parent_pid = 0, c_port = None,
      c_size_bytes = en_size e, c_evidence_level = EvidenceUnattributed, c_current_status = StatusPresent,
      c_reason = ''object modification time falls within the declared task window'', c_recommendation = ''review'',
      c_event_ids = [], c_receipt_ids = [], c_limitations = [], c_conflicts = []\<rparr>"

definition id_less :: "candidate \<Rightarrow> candidate \<Rightarrow> bool" where
  "id_less a b \<longleftrightarrow> c_id a < c_id b"

definition retrospectiveCandidates :: "(string \<Rightarrow> string) \<Rightarrow> fs_baseline \<Rightarrow> gtime \<Rightarrow> gtime \<Rightarrow> candidate list" where
  "retrospectiveCandidates sha baseline startedAt endedAt =
     sort_by id_less (map (\<lambda>(_, e). retro_candidate sha e)
       (filter (\<lambda>(_, e). \<not> (time_before (en_mod_time e) startedAt \<or> time_after (en_mod_time e) endedAt))
         (bl_entries baseline)))"

definition identity_key :: "identity \<Rightarrow> string" where
  "identity_key i = itoa (pi_pid i) @ '':'' @ rfc3339nano (pi_created_at i)"

fun unique_identities :: "string list \<Rightarrow> candidate list \<Rightarrow> identity list" where
  "unique_identities known [] = []"
| "unique_identities known (c # cs) =
     (case c_process c of
        None \<Rightarrow> unique_identities known cs
      | Some p \<Rightarrow>
          if identity_key p \<in> set known then unique_identities known cs
          else \<lparr>pi_pid = pi_pid p, pi_created_at = pi_created_at p\<rparr> # unique_identities (identity_key p # known) cs)"

definition uniqueProcessIdentities :: "candidate list \<Rightarrow> identity list" where
  "uniqueProcessIdentities cs = unique_identities [] cs"

definition verifyPort :: "candidate \<Rightarrow> (int \<times> evidence) list \<Rightarrow> current_status" where
  "verifyPort c processes =
     (case (c_process c, c_port c) of
        (Some p, Some q) \<Rightarrow>
          (case map_of processes (pi_pid p) of
             None \<Rightarrow> StatusNoLongerPresent
           | Some process \<Rightarrow>
               if list_ex (\<lambda>port. po_protocol port = po_protocol q \<and> po_address port = po_address q
                                   \<and> po_number port = po_number q) (ev_ports process)
               then StatusActiveReference else StatusNoLongerPresent)
      | _ \<Rightarrow> StatusUnknown)"

text \<open>One candidate of a verification; \<open>processes\<close> are those verified under their identity.\<close>

definition verify_one ::
    "os_view \<Rightarrow> (string \<Rightarrow> string) \<Rightarrow> (string \<times> string) list \<Rightarrow> (int \<times> evidence) list \<Rightarrow> candidate \<Rightarrow> candidate" where
  "verify_one os quote targets processes c =
     (case c_kind c of
        CandidateProcess \<Rightarrow>
          c\<lparr>c_current_status :=
              (case c_process c of
                 None \<Rightarrow> StatusUnknown
               | Some p \<Rightarrow> if map_of processes (pi_pid p) \<noteq> None then StatusActiveReference
                           else StatusNoLongerPresent)\<rparr>
      | CandidatePort \<Rightarrow> c\<lparr>c_current_status := verifyPort c processes\<rparr>
      | CandidateKindOther _ \<Rightarrow> c
      | _ \<Rightarrow>
          (case map_of targets (c_id c) of
             None \<Rightarrow> c\<lparr>c_current_status := StatusUnknown,
                        c_limitations := c_limitations c @ [''exact candidate target is unavailable'']\<rparr>
           | Some exact \<Rightarrow>
               (case VerifyCandidate os (c\<lparr>c_path := exact\<rparr>) of
                  Inl e \<Rightarrow> c\<lparr>c_current_status := StatusUnknown,
                             c_limitations := c_limitations c @ [err_text quote e]\<rparr>
                | Inr status \<Rightarrow> c\<lparr>c_current_status := status\<rparr>)))"

interpretation by_id: comparator id_less
  by unfold_locales (auto simp: id_less_def)

end
