(* ===== verification/Service.thy ===== *)
theory Service
  imports Service_Parts
begin

text \<open>
  Package \<open>app\<close> (\<open>service.go\<close>): the operations behind the command line and the MCP
  server, composed of the scope guard, the observers, correlation, grouping and the store. The
  machine an operation observes is a record: the file system view, the context's answers and the
  native process adapter; the store's files, the clock and the random source are the world.
  \<open>InspectCompletedInput\<close>, \<open>BeginResult\<close> and the other structs keep their fields.
\<close>

section \<open>Types\<close>

record machine =
  mc_os :: os_view
  mc_ctx :: ctx
  mc_native :: native_adapter

record servicelib = storelib +
  json_revision :: "verification_revision \<Rightarrow> string res"

record begin_result =
  br_observation_id :: string
  br_task_id :: string
  br_started_at :: gtime
  br_owner_handle :: string
  br_recovery_profile :: recovery_profile

record report_history =
  rh_report :: report
  rh_revisions :: "verification_revision list"

record report_summary =
  rs_schema_version :: string
  rs_report_id :: string
  rs_task_id :: string
  rs_observation_mode :: observation_mode
  rs_status :: report_status
  rs_created_at :: gtime
  rs_revision :: int
  rs_candidate_total :: int
  rs_candidates :: "candidate_group list"
  rs_next_cursor :: string
  rs_limitations :: "string list"

record inspect_input =
  ii_scope :: task_scope
  ii_started_at :: gtime
  ii_ended_at :: gtime
  ii_events :: "task_event list"

record grant_result =
  gr_grant_handle :: string
  gr_expires_at :: gtime

section \<open>Steps shared by the operations\<close>

text \<open>\<open>s.now().UTC()\<close>\<close>

definition now_utc :: "(content, gtime) io" where
  "now_utc = io_bind read_clock (\<lambda>t. io_return (time_utc t))"

definition no_limits :: limits where
  "no_limits = NewObserver \<lparr>lm_max_entries = 0, lm_max_bytes = 0, lm_max_duration = 0\<rparr>"

definition mint_owner :: "(content, owner) io" where
  "mint_owner =
     io_bind (draw_random 18) (\<lambda>opaque.
     io_bind (draw_random 32) (\<lambda>key.
     io_bind (draw_random 32) (\<lambda>seed. io_lift (NewOwner (Inr opaque) (Inr key) (Inr seed)))))"

definition capture_now :: "machine \<Rightarrow> validated \<Rightarrow> (content, fs_baseline) io" where
  "capture_now M v = io_bind read_clock (\<lambda>t. io_lift (Capture (mc_os M) no_limits (mc_ctx M) t v))"

definition observed_processes :: "machine \<Rightarrow> validated \<Rightarrow> hints \<Rightarrow> evidence list \<times> limitation list" where
  "observed_processes M v h =
     proc_resolve (mc_os M) (NewProcessObserver (mc_os M) (rootPaths v)) (mc_native M) h"

definition verificationDigest :: "'z servicelib_scheme \<Rightarrow> verification_revision \<Rightarrow> string res" where
  "verificationDigest L revision =
     and_then (json_revision L (revision\<lparr>v_digest := []\<rparr>)) (\<lambda>raw. Inr (''sha256:'' @ to_hex (sha256 L raw)))"

section \<open>Observing a task\<close>

definition with_defaults :: "task_scope \<Rightarrow> task_scope" where
  "with_defaults scope =
     scope\<lparr>s_observation_mode := (if s_observation_mode scope = ObservationOther [] then ObservationGuided
                                   else s_observation_mode scope),
           s_recovery_profile := (if s_recovery_profile scope = RecoveryOther [] then RecoveryRecoverable
                                   else s_recovery_profile scope)\<rparr>"

definition Begin :: "'z storelib_scheme \<Rightarrow> store \<Rightarrow> machine \<Rightarrow> task_scope \<Rightarrow> (content, begin_result) io" where
  "Begin L s M taskScope0 =
     io_bind (io_lift (ValidateMetadata taskScope0)) (\<lambda>_.
       let taskScope = with_defaults taskScope0
       in io_bind (io_lift (scope_validate (mc_os M) (NewGuard (mc_os M)) taskScope)) (\<lambda>validated.
          io_bind (capture_now M validated) (\<lambda>baseline.
          io_bind (io_bind read_clock (\<lambda>t. io_lift (process_baseline (mc_native M) t))) (\<lambda>processBaseline.
          io_bind (io_lift (alias_new (mc_os M) validated)) (\<lambda>aliases.
          io_bind mint_owner (\<lambda>ow.
          io_bind (CreateOwnedTaskWithMetadata L s (owner_string L ow) (s_task_id taskScope) baseline processBaseline
                     \<lparr>om_aliases = aliases, om_observation_mode = s_observation_mode taskScope,
                      om_recovery_profile = s_recovery_profile taskScope\<rparr>) (\<lambda>_.
            io_return \<lparr>br_observation_id = ''observation-'' @ o_opaque_id ow, br_task_id = s_task_id taskScope,
                       br_started_at = bl_captured_at baseline, br_owner_handle = owner_string L ow,
                       br_recovery_profile = s_recovery_profile taskScope\<rparr>)))))))"

definition loadTaskForAppend :: "'z storelib_scheme \<Rightarrow> store \<Rightarrow> string \<Rightarrow> (content, task_record) io" where
  "loadTaskForAppend L s handle = LoadOwnedTaskForAppend L s handle"

definition append_as_owner ::
    "'z storelib_scheme \<Rightarrow> store \<Rightarrow> machine \<Rightarrow> string \<Rightarrow> task_event list \<Rightarrow> (content, unit) io" where
  "append_as_owner L s M handle events =
     io_bind (loadTaskForAppend L s handle) (\<lambda>task.
     io_bind (io_lift (Normalize (mc_os M) events (bl_scope (tr_baseline task)))) (\<lambda>summaries.
     io_bind now_utc (\<lambda>now.
       if (case ParseExecutor L handle now of
             Inl _ \<Rightarrow> False
           | Inr x \<Rightarrow> \<not> executorRootsAllowed (x_allowed_roots x) summaries (tr_aliases task))
       then denied
       else AppendOwnedEvents L s handle summaries)))"

definition AppendEvents ::
    "'z storelib_scheme \<Rightarrow> store \<Rightarrow> machine \<Rightarrow> string \<Rightarrow> task_event list \<Rightarrow> (content, unit) io" where
  "AppendEvents L s M handle events =
     io_bind now_utc (\<lambda>now.
       case ParseExecutor L handle now of
         Inr x \<Rightarrow>
           io_bind (io_lift (normalizeExecutorEvents events (x_allowed_roots x))) (\<lambda>summaries.
             AppendOwnedExecutorEvents L s handle summaries)
       | Inl _ \<Rightarrow> append_as_owner L s M handle events)"

text \<open>The report of a task whose observation failed, and the one of a compared task.\<close>

definition end_failed ::
    "'z storelib_scheme \<Rightarrow> store \<Rightarrow> machine \<Rightarrow> string \<Rightarrow> task_record \<Rightarrow> gtime \<Rightarrow> err \<Rightarrow> (content, report) io" where
  "end_failed L s M ownerHandle task now observationErr =
     (let report = (failureReport (sha256 L) (na_quote (mc_native M)) (tr_task_id task) now observationErr)
                     \<lparr>r_observation_mode := tr_observation_mode task\<rparr>
      in io_bind (io_try (CompleteOwnedTask L s ownerHandle report [])) (\<lambda>saved.
           case saved of
             Inl saveErr \<Rightarrow> io_fail (ErrJoin observationErr saveErr)
           | Inr _ \<Rightarrow> io_return report))"

definition end_report ::
    "'z storelib_scheme \<Rightarrow> machine \<Rightarrow> task_record \<Rightarrow> summary list \<Rightarrow> gtime \<Rightarrow> fs_diff \<Rightarrow> (report \<times> (string \<times> string) list) res" where
  "end_report L M task events now diff =
     (let h = (processHints events)\<lparr>h_candidate_paths := candidatePaths (df_candidates diff)\<rparr>;
          (evs, lims) = observed_processes M (bl_scope (tr_baseline task)) h
      in and_then (BuildReport (sha256 L) now
                     \<lparr>in_task_id = tr_task_id task, in_now = now, in_diff = diff, in_events = events,
                      in_processes = excludeBaselineOnlyProcesses evs (tr_process_baseline task) h,
                      in_process_limitations = lims\<rparr>) (\<lambda>r.
           projectReportPaths (r\<lparr>r_observation_mode := tr_observation_mode task\<rparr>) (tr_aliases task)))"

definition End :: "'z storelib_scheme \<Rightarrow> store \<Rightarrow> machine \<Rightarrow> string \<Rightarrow> (content, report) io" where
  "End L s M ownerHandle =
     io_bind (LoadOwnedTaskForEnd L s ownerHandle) (\<lambda>task.
     io_bind (io_lift (expandAliasedEvents (mc_os M) (tr_events task) (tr_aliases task))) (\<lambda>events.
     io_bind now_utc (\<lambda>now.
       case Compare (sha256 L) (mc_os M) no_limits (mc_ctx M) (tr_baseline task) of
         Inl err \<Rightarrow> end_failed L s M ownerHandle task now err
       | Inr diff \<Rightarrow>
           io_bind (io_lift (end_report L M task events now diff)) (\<lambda>(report, exactTargets).
           io_bind (CompleteOwnedTask L s ownerHandle report
                      [\<lparr>oe_exact_targets = exactTargets, oe_aliases = tr_aliases task\<rparr>]) (\<lambda>_.
             io_return report)))))"

section \<open>Retrospective inspection\<close>

definition InspectCompleted :: "inspect_input \<Rightarrow> (content, report) io" where
  "InspectCompleted input = denied"

definition GrantRetrospective ::
    "'z storelib_scheme \<Rightarrow> store \<Rightarrow> machine \<Rightarrow> inspect_input \<Rightarrow> (content, grant_result) io" where
  "GrantRetrospective L s M input =
     (if is_zero (ii_started_at input) \<or> is_zero (ii_ended_at input)
         \<or> time_before (ii_ended_at input) (ii_started_at input)
      then io_fail (errors_new ''a valid retrospective time window is required'')
      else let scope = (ii_scope input)\<lparr>s_observation_mode := ObservationRetrospective,
                                         s_recovery_profile := RecoveryRecoverable\<rparr>
           in io_bind (io_lift (scope_validate (mc_os M) (NewGuard (mc_os M)) scope)) (\<lambda>validated.
              io_bind (io_lift (Normalize (mc_os M) (ii_events input) validated)) (\<lambda>_.
              io_bind mint_owner (\<lambda>ow.
              io_bind now_utc (\<lambda>now.
                let expires = time_add now (10 * minute_ns)
                in io_bind (CreateRetrospectiveGrant L s (owner_string L ow)
                              \<lparr>rg_scope = scope, rg_started_at = time_utc (ii_started_at input),
                               rg_ended_at = time_utc (ii_ended_at input), rg_created_at = now,
                               rg_expires_at = expires\<rparr>) (\<lambda>_.
                   io_return \<lparr>gr_grant_handle = owner_string L ow, gr_expires_at = expires\<rparr>))))))"

definition retro_limitation :: string where
  "retro_limitation = ''no prospective baseline was available; retrospective attribution is limited to the explicitly granted roots and time window''"

definition unattributed :: "candidate \<Rightarrow> candidate" where
  "unattributed c =
     (if c_evidence_level c = EvidenceBaselineObserved then c\<lparr>c_evidence_level := EvidenceUnattributed\<rparr> else c)"

definition retro_report ::
    "'z storelib_scheme \<Rightarrow> machine \<Rightarrow> validated \<Rightarrow> retrospective_grant \<Rightarrow> summary list \<Rightarrow> fs_baseline \<Rightarrow> gtime \<Rightarrow> report res" where
  "retro_report L M validated grant summaries baseline now =
     (let diff = \<lparr>df_candidates = retrospectiveCandidates (sha256 L) baseline
                     (time_utc (rg_started_at grant)) (time_utc (rg_ended_at grant)),
                   df_removed = [], df_limitations = [retro_limitation]\<rparr>;
          h = (processHints summaries)\<lparr>h_candidate_paths := candidatePaths (df_candidates diff)\<rparr>;
          (evs, lims) = observed_processes M validated h
      in and_then (BuildReport (sha256 L) now
                     \<lparr>in_task_id = s_task_id (rg_scope grant), in_now = now, in_diff = diff,
                      in_events = summaries, in_processes = evs, in_process_limitations = lims\<rparr>) (\<lambda>r.
           Inr (r\<lparr>r_candidates := map unattributed (r_candidates r),
                  r_observation_mode := ObservationRetrospective\<rparr>)))"

definition InspectCompletedAuthorized ::
    "'z storelib_scheme \<Rightarrow> store \<Rightarrow> machine \<Rightarrow> string \<Rightarrow> task_event list \<Rightarrow> (content, report) io" where
  "InspectCompletedAuthorized L s M grantHandle events =
     io_bind (LoadRetrospectiveGrant L s grantHandle) (\<lambda>grant.
     io_bind (io_lift (scope_validate (mc_os M) (NewGuard (mc_os M)) (rg_scope grant))) (\<lambda>validated.
     io_bind (io_lift (Normalize (mc_os M) events validated)) (\<lambda>summaries.
     io_bind (capture_now M validated) (\<lambda>baseline.
     io_bind now_utc (\<lambda>now.
     io_bind (io_lift (retro_report L M validated grant summaries baseline now)) (\<lambda>report.
     io_bind (io_lift (alias_new (mc_os M) validated)) (\<lambda>aliases.
     io_bind (io_lift (projectReportPaths report aliases)) (\<lambda>(report, exactTargets).
     io_bind (CompleteRetrospectiveGrant L s grantHandle report
                \<lparr>oe_exact_targets = exactTargets, oe_aliases = aliases\<rparr>) (\<lambda>_.
       io_return report)))))))))"

section \<open>Reading reports\<close>

definition GetReport :: "'z storelib_scheme \<Rightarrow> store \<Rightarrow> string \<Rightarrow> (content, report) io" where
  "GetReport L s ownerHandle = io_bind (GetOwnedReport L s ownerHandle) (\<lambda>rr. io_return (rr_report rr))"

definition GetHistory :: "'z storelib_scheme \<Rightarrow> store \<Rightarrow> string \<Rightarrow> (content, report_history) io" where
  "GetHistory L s ownerHandle =
     io_bind (GetOwnedReport L s ownerHandle) (\<lambda>rr.
       io_return \<lparr>rh_report = rr_report rr, rh_revisions = rr_revisions rr\<rparr>)"

definition GetCandidatePage ::
    "'z storelib_scheme \<Rightarrow> store \<Rightarrow> string \<Rightarrow> int \<Rightarrow> string \<Rightarrow> int \<Rightarrow> (content, candidate_page) io" where
  "GetCandidatePage L s ownerHandle revision cursor limit =
     io_bind (GetOwnedReport L s ownerHandle) (\<lambda>rr.
       if revision > 0 then
         if revision > int (length (rr_revisions rr)) then denied
         else io_lift (Page (Candidates (v_candidates (rr_revisions rr ! nat (revision - 1)))) cursor limit)
       else if revision < 0 then denied
       else io_lift (Page (Candidates (r_candidates (rr_report rr))) cursor limit))"

text \<open>
  \<open>Summarize\<close> reads the report twice, each time under the lock of the store: what other
  calls do to the world in between is the argument \<open>between\<close>. Indexing a slice out of range
  panics.
\<close>

definition other_calls :: "('c world \<Rightarrow> 'c world) \<Rightarrow> ('c, unit) io" where
  "other_calls between w = (Inr (), between w)"

definition Summarize_between ::
    "'z storelib_scheme \<Rightarrow> store \<Rightarrow> (content world \<Rightarrow> content world) \<Rightarrow> string \<Rightarrow> int \<Rightarrow> string \<Rightarrow> int
       \<Rightarrow> (content, report_summary) io" where
  "Summarize_between L s between ownerHandle revision cursor limit =
     io_bind (GetOwnedReport L s ownerHandle) (\<lambda>rr.
     io_bind (other_calls between) (\<lambda>_.
     io_bind (GetCandidatePage L s ownerHandle revision cursor limit) (\<lambda>page.
       let r = rr_report rr;
           summary = \<lparr>rs_schema_version = r_schema_version r, rs_report_id = r_report_id r,
             rs_task_id = r_task_id r, rs_observation_mode = r_observation_mode r, rs_status = r_status r,
             rs_created_at = r_created_at r, rs_revision = revision, rs_candidate_total = p_total page,
             rs_candidates = p_items page, rs_next_cursor = p_next_cursor page, rs_limitations = r_limitations r\<rparr>
       in if revision > 0 then
            if revision > int (length (rr_revisions rr)) then io_fail (GoPanic ''index out of range'')
            else let selected = rr_revisions rr ! nat (revision - 1)
                 in io_return (summary\<lparr>rs_created_at := v_created_at selected,
                                       rs_limitations := v_limitations selected\<rparr>)
          else io_return summary)))"

text \<open>The same with no other call in between, as a process that runs one command makes it.\<close>

definition Summarize ::
    "'z storelib_scheme \<Rightarrow> store \<Rightarrow> string \<Rightarrow> int \<Rightarrow> string \<Rightarrow> int \<Rightarrow> (content, report_summary) io" where
  "Summarize L s = Summarize_between L s (\<lambda>w. w)"

definition DelegateExecutor ::
    "'z storelib_scheme \<Rightarrow> store \<Rightarrow> string \<Rightarrow> gtime \<Rightarrow> event_type list \<Rightarrow> string list \<Rightarrow> (content, string) io" where
  "DelegateExecutor L s ownerHandle expiresAt allowedTypes allowedRoots =
     io_bind (or_denied (io_lift (ParseOwner L ownerHandle))) (\<lambda>_.
       DelegateOwnedExecutor L s ownerHandle expiresAt (map event_type_string allowedTypes) allowedRoots)"

fun resolve_candidate_in :: "os_view \<Rightarrow> alias_table \<Rightarrow> string \<Rightarrow> string \<Rightarrow> candidate list \<Rightarrow> string res" where
  "resolve_candidate_in os aliases candidateID exact [] = Inl ErrAccessDenied"
| "resolve_candidate_in os aliases candidateID exact (c # cs) =
     (if c_id c \<noteq> candidateID \<or> c_path c = [] then resolve_candidate_in os aliases candidateID exact cs
      else case Resolve os aliases (c_path c) of
             Inl _ \<Rightarrow> Inl ErrAccessDenied
           | Inr resolved \<Rightarrow> if resolved \<noteq> exact then Inl ErrAccessDenied else Inr exact)"

definition ResolveCandidate :: "'z storelib_scheme \<Rightarrow> store \<Rightarrow> machine \<Rightarrow> string \<Rightarrow> string \<Rightarrow> (content, string) io" where
  "ResolveCandidate L s M ownerHandle candidateID =
     io_bind (GetOwnedReport L s ownerHandle) (\<lambda>rr.
       case map_of (rr_exact_targets rr) candidateID of
         None \<Rightarrow> denied
       | Some exact \<Rightarrow>
           io_lift (resolve_candidate_in (mc_os M) (rr_aliases rr) candidateID exact (r_candidates (rr_report rr))))"

section \<open>Verification\<close>

definition current_candidates :: "report_record \<Rightarrow> candidate list" where
  "current_candidates rr =
     (if length (rr_revisions rr) > 0 then v_candidates (last (rr_revisions rr)) else r_candidates (rr_report rr))"

definition verify_revision :: "machine \<Rightarrow> report_record \<Rightarrow> gtime \<Rightarrow> verification_revision" where
  "verify_revision M rr verifiedAt =
     (let candidates = current_candidates rr;
          (processes, lims) = proc_verify (mc_os M) (NewProcessObserver (mc_os M) []) (mc_native M)
                                (uniqueProcessIdentities candidates)
      in \<lparr>v_revision = int (length (rr_revisions rr)) + 1, v_created_at = verifiedAt,
          v_previous_digest = last_digest rr, v_digest = [],
          v_candidates = map (verify_one (mc_os M) (na_quote (mc_native M)) (rr_exact_targets rr) processes) candidates,
          v_limitations = map (\<lambda>l. ''verify '' @ li_operation l @ '': '' @ li_detail l) lims\<rparr>)"

definition Verify :: "'z servicelib_scheme \<Rightarrow> store \<Rightarrow> machine \<Rightarrow> string \<Rightarrow> (content, verification_revision) io" where
  "Verify L s M ownerHandle =
     io_bind (GetOwnedReport L s ownerHandle) (\<lambda>rr.
     io_bind now_utc (\<lambda>verifiedAt.
       let revision = verify_revision M rr verifiedAt
       in io_bind (io_lift (verificationDigest L revision)) (\<lambda>digest.
            let revision = revision\<lparr>v_digest := digest\<rparr>
            in io_bind (AppendOwnedRevision L s ownerHandle revision) (\<lambda>_. io_return revision))))"

end
