(* ===== verification/Service_Read.thy ===== *)
theory Service_Read
  imports Service
begin

text \<open>
  What the operations on finished reports show and change: the bounded summary, the disclosure
  of one exact path, and the verification revisions with the status of every candidate.
\<close>

section \<open>Reading the report of a handle\<close>

lemma GetOwnedReport_iff:
  "GetOwnedReport L s h w = (Inr rr, w') \<longleftrightarrow>
     w_fault w (w_calls w) = None
     \<and> (\<exists>ow e now. ParseOwner L h = Inr ow
         \<and> file_at w (ownedReportPath s (o_opaque_id ow)) = Some (Env e) \<and> env_size L e \<le> 128 * 1024 * 1024
         \<and> en_record_kind e = ''report'' \<and> en_opaque_id e = o_opaque_id ow
         \<and> clock_reading s w = Some now \<and> t_ns now < t_ns (en_expires_at e)
         \<and> en_public_key e = ownerPublicKey L ow
         \<and> openRecord L (unjson_report_record L) e (o_record_key ow) = Inr rr)
     \<and> w' = w\<lparr>w_calls := Suc (w_calls w), w_reads := Suc (w_reads w)\<rparr>"
  by (auto simp: GetOwnedReport_def io_bind_Inr_iff readEncryptedEnvelope_iff store_clock_iff clock_reading_def
      time_before_def split: if_splits)

lemma GetOwnedReport_same:
  "GetOwnedReport L s h w = (Inr rr, w1) \<Longrightarrow> file_at w2 = file_at w \<Longrightarrow> GetOwnedReport L s h w2 = (Inr rr', w3) \<Longrightarrow> rr' = rr"
  by (auto simp: GetOwnedReport_iff)

lemma keeps_GetOwnedReport [simp]: "preserves {} (GetOwnedReport L s h)"
  unfolding GetOwnedReport_def
  by (auto intro!: preserves_bind preserves_or_denied)

lemma GetOwnedReport_denied:
  "cf_clock (st_config s) \<noteq> None \<Longrightarrow> fails_with (\<lambda>e. e = ErrAccessDenied) (GetOwnedReport L s h)"
  unfolding GetOwnedReport_def by (auto intro!: fails_with_bind fails_with_denied fails_with_clock)

lemma fails_with_mono: "fails_with E m \<Longrightarrow> (\<And>e. E e \<Longrightarrow> E' e) \<Longrightarrow> fails_with E' m"
  by (auto simp: fails_with_def)

lemma fails_with_lift: "(\<And>e. r = Inl e \<Longrightarrow> E e) \<Longrightarrow> fails_with E (io_lift r)"
  by (auto simp: fails_with_def io_lift_def)

lemma fails_withD: "fails_with E m \<Longrightarrow> m w = (Inl e, w') \<Longrightarrow> E e"
  by (auto simp: fails_with_def)

lemma io_bind_cases:
  assumes "io_bind m f w = (r, w')"
  obtains (stops) e where "m w = (Inl e, w')" "r = Inl e"
  | (runs) v w1 where "m w = (Inr v, w1)" "f v w1 = (r, w')"
  using assms by (cases "m w"; cases "fst (m w)") (auto simp: io_bind_def)

section \<open>The bounded summary\<close>

text \<open>What a revision number selects of a report: zero is the report itself.\<close>

definition shown_candidates :: "report_record \<Rightarrow> int \<Rightarrow> candidate list" where
  "shown_candidates rr revision =
     (if revision > 0 then v_candidates (rr_revisions rr ! nat (revision - 1)) else r_candidates (rr_report rr))"

definition shown_limitations :: "report_record \<Rightarrow> int \<Rightarrow> string list" where
  "shown_limitations rr revision =
     (if revision > 0 then v_limitations (rr_revisions rr ! nat (revision - 1)) else r_limitations (rr_report rr))"

definition shown_created_at :: "report_record \<Rightarrow> int \<Rightarrow> gtime" where
  "shown_created_at rr revision =
     (if revision > 0 then v_created_at (rr_revisions rr ! nat (revision - 1)) else r_created_at (rr_report rr))"

lemma GetCandidatePage_Inr:
  assumes "GetCandidatePage L s h revision cursor limit w = (Inr page, w')"
  obtains rr where "GetOwnedReport L s h w = (Inr rr, w')" "0 \<le> revision" "revision \<le> int (length (rr_revisions rr))"
    "Page (Candidates (shown_candidates rr revision)) cursor limit = Inr page"
  using assms
  by (auto simp: GetCandidatePage_def io_bind_Inr_iff denied_def io_fail_def io_lift_def shown_candidates_def split: if_splits)

definition no_panic :: "err \<Rightarrow> bool" where
  "no_panic e \<longleftrightarrow> (\<forall>m. e \<noteq> GoPanic m)"

lemma no_panic_simps [simp]: "no_panic ErrAccessDenied" "no_panic (Errorf fs)" "\<not> no_panic (GoPanic m)"
  by (simp_all add: no_panic_def)

lemma Page_error: "Page items cursor limit = Inl e \<Longrightarrow> no_panic e"
  by (auto simp: Page_def and_then_def Let_def split: if_splits option.splits sum.splits)

lemma GetCandidatePage_no_panic:
  "cf_clock (st_config s) \<noteq> None \<Longrightarrow> fails_with no_panic (GetCandidatePage L s h revision cursor limit)"
  unfolding GetCandidatePage_def
  by (auto intro!: fails_with_bind fails_with_denied fails_with_lift fails_with_mono [OF GetOwnedReport_denied]
      dest: Page_error)

lemma keeps_GetCandidatePage [simp]: "preserves {} (GetCandidatePage L s h revision cursor limit)"
  unfolding GetCandidatePage_def by (auto intro!: preserves_bind)

lemma other_calls_none: "io_bind (other_calls (\<lambda>w. w)) f = f ()"
  by (simp add: io_bind_def other_calls_def fun_eq_iff)

lemma keeps_Summarize [simp]: "preserves {} (Summarize L s h revision cursor limit)"
  unfolding Summarize_def Summarize_between_def other_calls_none Let_def by (auto intro!: preserves_bind)

lemma Page_Inr_not_panic [simp]: "Page items cursor limit \<noteq> Inl (GoPanic m)"
  using Page_error by fastforce

text \<open>The outcomes of the second read.\<close>

lemma GetCandidatePage_cases:
  assumes "cf_clock (st_config s) \<noteq> None" "GetCandidatePage L s h revision cursor limit w = (r, w')"
  shows "file_at w' = file_at w" "r \<noteq> Inl (GoPanic m)"
    "r = Inr page \<longleftrightarrow> (\<exists>rr. fst (GetOwnedReport L s h w) = Inr rr \<and> 0 \<le> revision \<and> revision \<le> int (length (rr_revisions rr))
       \<and> Page (Candidates (shown_candidates rr revision)) cursor limit = Inr page)"
proof -
  show "file_at w' = file_at w" by (rule keeps_files [OF keeps_GetCandidatePage assms(2)])
  show "r \<noteq> Inl (GoPanic m)" using fails_withD [OF GetCandidatePage_no_panic [OF assms(1)], of L h revision cursor limit w _ w'] assms(2) by auto
  obtain x w1 where g: "GetOwnedReport L s h w = (x, w1)" by force
  show "r = Inr page \<longleftrightarrow> (\<exists>rr. fst (GetOwnedReport L s h w) = Inr rr \<and> 0 \<le> revision \<and> revision \<le> int (length (rr_revisions rr))
       \<and> Page (Candidates (shown_candidates rr revision)) cursor limit = Inr page)"
    using assms(2) g
    by (cases x) (auto simp: GetCandidatePage_def io_bind_def denied_def io_fail_def io_lift_def shown_candidates_def split: if_splits)
qed

section \<open>Exact paths\<close>

lemma resolve_candidate_in_cases:
  "case resolve_candidate_in os t cid exact cs of
     Inl e \<Rightarrow> e = ErrAccessDenied
   | Inr p \<Rightarrow> p = exact \<and> (\<exists>c \<in> set cs. c_id c = cid \<and> Resolve os t (c_path c) = Inr p)"
  by (induction os t cid exact cs rule: resolve_candidate_in.induct) (auto split: sum.splits if_splits)

lemma Resolve_inside:
  assumes "table_ok t" "Resolve os t a = Inr p"
  shows "canonical p \<and> (\<exists>b \<in> set t. within (b_path b) p \<and> stableIdentity os (b_path b) = Inr (b_identity b))"
proof -
  from Resolve_in_table [OF assms(2)] obtain b where b: "b \<in> set t" "resolve_in os b a = Inr p" by blast
  then have "canonical (b_path b)" using assms(1) by (auto simp: table_ok_def in_set_conv_nth)
  from resolve_in_contained [OF b(2) this] b(1) show ?thesis by blast
qed

section \<open>Appending a revision\<close>

lemma GetOwnedReport_view:
  assumes "GetOwnedReport L s h w = (Inr rr, w')" "ParseOwner L h = Inr ow"
  shows "ov_report (view L s ow (file_at w)) = Some rr"
  using assms by (auto simp: GetOwnedReport_iff view_def opened_def)

lemma AppendOwnedRevision_states:
  assumes "sound_setting L s ow" "ParseOwner L h = Inr ow" "ov_report (view L s ow (file_at w)) = Some rr"
    "AppendOwnedRevision L s h x w = (r, w')"
  shows "view L s ow (file_at w') = view L s ow (file_at w) \<and> (\<exists>e. r = Inl e)
    \<or> view L s ow (file_at w') = (view L s ow (file_at w))\<lparr>ov_report := stored_report L (rr\<lparr>rr_revisions := rr_revisions rr @ [x]\<rparr>)\<rparr>"
proof -
  let ?v = "view L s ow (file_at w)"
  have "seen (view L s ow) ?v (AppendOwnedRevision L s h x) (\<lambda>r v'. v' = ?v \<and> (\<exists>e. r = Inl e)
      \<or> v' = ?v\<lparr>ov_report := stored_report L (rr\<lparr>rr_revisions := rr_revisions rr @ [x]\<rparr>)\<rparr>)"
    unfolding AppendOwnedRevision_def split_def
    by (intro seen_owner [OF assms(2)] seen_intros) (use assms(3) seen_write(2) [OF assms(1)] in auto)
  then have "after (file_at w) (AppendOwnedRevision L s h x) (\<lambda>r fm'. view L s ow fm' = ?v \<and> (\<exists>e. r = Inl e)
      \<or> view L s ow fm' = ?v\<lparr>ov_report := stored_report L (rr\<lparr>rr_revisions := rr_revisions rr @ [x]\<rparr>)\<rparr>)"
    by (simp add: seen_def)
  from afterD [OF this refl assms(4)] show ?thesis .
qed

section \<open>Verification of candidates\<close>

text \<open>What a verification may not change of a candidate.\<close>

definition fixed_part :: "candidate \<Rightarrow> candidate" where
  "fixed_part c = c\<lparr>c_current_status := StatusUnknown, c_limitations := []\<rparr>"

lemma verify_one_fixed: "fixed_part (verify_one os quote targets processes c) = fixed_part c"
  by (auto simp: verify_one_def fixed_part_def split: candidate_kind.splits option.splits sum.splits)
















lemma verify_one_process:
  "c_kind c = CandidateProcess \<Longrightarrow> c_process c = Some p \<Longrightarrow>
     c_current_status (verify_one os quote targets processes c)
       = (if map_of processes (pi_pid p) \<noteq> None then StatusActiveReference else StatusNoLongerPresent)"
  by (simp add: verify_one_def)

lemma port_eq_iff: "a = b \<longleftrightarrow> po_protocol a = po_protocol b \<and> po_address a = po_address b \<and> po_number a = po_number b"
  for a b :: port
  by (cases a; cases b) simp

lemma verify_one_port:
  "c_kind c = CandidatePort \<Longrightarrow> c_process c = Some p \<Longrightarrow> c_port c = Some q \<Longrightarrow>
     c_current_status (verify_one os quote targets processes c)
       = (case map_of processes (pi_pid p) of None \<Rightarrow> StatusNoLongerPresent
          | Some ev \<Rightarrow> if q \<in> set (ev_ports ev) then StatusActiveReference else StatusNoLongerPresent)"
  by (auto simp: verify_one_def verifyPort_def list_ex_iff port_eq_iff [symmetric] split: option.splits)






text \<open>
  A process table that cannot be read leaves no doubt in the statuses: every process and every port
  is reported gone, and only the limitations of the revision tell that nothing was looked at.
\<close>

lemma Verify_assumes_gone:
  assumes "na_snapshot (mc_native M) = Inl e" "i < length (current_candidates rr)"
    "c = current_candidates rr ! i" "c' = v_candidates (verify_revision M rr t) ! i"
    "c_kind c \<in> {CandidateProcess, CandidatePort}" "c_process c = Some p" "c_port c = Some q"
  shows "c_current_status c' = StatusNoLongerPresent \<and> v_limitations (verify_revision M rr t) \<noteq> []"
  using assms
  by (auto simp: verify_revision_def Let_def proc_verify_def proc_resolve_def verify_one_process verify_one_port)

section \<open>When nothing fails\<close>

lemma world_fields [simp]:
  "w_fault (set_file p c w) = w_fault w" "w_dirs (set_file p c w) = w_dirs w" "w_calls (set_file p c w) = w_calls w"
  "w_fault (set_mode p m w) = w_fault w" "w_dirs (set_mode p m w) = w_dirs w" "w_calls (set_mode p m w) = w_calls w"
  "w_fault (drop_file p w) = w_fault w" "w_dirs (drop_file p w) = w_dirs w" "w_calls (drop_file p w) = w_calls w"
  by (simp_all add: set_file_def set_mode_def drop_file_def)

text \<open>In a world where no call fails, a write to an existing directory succeeds.\<close>

lemma atomicWriteJSON_quiet:
  assumes "quiet w" "w_rand w (w_draws w) = Inr b" "path_dir path \<in> set (w_dirs w)" "path \<notin> set (w_dirs w)"
    "\<And>p. is_temp (path_dir path) p \<Longrightarrow> file_at w p = None \<and> p \<notin> set (w_dirs w)"
  shows "\<exists>w'. atomicWriteJSON path e w = (Inr (), w')"
proof -
  define tmp where "tmp = path_join (path_dir path) (temp_name (map b [0..<4]))"
  have "is_temp (path_dir path) tmp" by (auto simp: is_temp_def tmp_def)
  with assms(5) have t: "file_at w tmp = None" "tmp \<notin> set (w_dirs w)" by blast+
  define w1 where "w1 = set_mode tmp 384 (set_file tmp (Bytes []) (w\<lparr>w_draws := Suc (w_draws w), w_calls := Suc (w_calls w)\<rparr>))"
  have f: "w_fault w1 n = None" for n using assms(1) by (simp add: w1_def quiet_def)
  have "os_create_temp (path_dir path) (Bytes []) w = (Inr tmp, w1)"
    using assms(1-3) t by (simp add: os_create_temp_def io_bind_def draw_random_def sys_def quiet_def Let_def tmp_def w1_def)
  moreover have "\<exists>w'. write_temp (path_dir path) tmp path e w1 = (Inr (), w')"
  proof -
    have x: "file_at w1 tmp = Some (Bytes [])" "w_dirs w1 = w_dirs w" by (simp_all add: w1_def)
    show ?thesis using assms(3,4) t(2)
      by (simp add: write_temp_def move_into_place_def or_close_def io_bind_def io_try_def protectPrivatePath_def
        os_chmod_def os_write_def os_sync_def os_close_def replaceFile_def os_rename_def sync_parent_def syncDirectory_def
        os_open_dir_def sys_def f x io_return_def io_lift_def split: option.splits) auto
  qed
  ultimately show ?thesis by (auto simp: atomicWriteJSON_def io_bind_def io_try_def io_return_def)
qed


lemma open_report_quiet:
  assumes "quiet w" "file_at w (ownedReportPath s (o_opaque_id ow)) = Some (Env e)" "env_size L e \<le> 128 * 1024 * 1024"
    "en_record_kind e = ''report''" "en_public_key e = ownerPublicKey L ow"
    "openRecord L (unjson_report_record L) e (o_record_key ow) = Inr rr"
  shows "open_report L s ow w = (Inr (e, rr), w\<lparr>w_calls := Suc (w_calls w)\<rparr>)"
proof -
  have "readEncryptedEnvelope L (ownedReportPath s (o_opaque_id ow)) w = (Inr e, w\<lparr>w_calls := Suc (w_calls w)\<rparr>)"
    using assms(1-3) by (simp add: readEncryptedEnvelope_iff quiet_def)
  then show ?thesis using assms(4-6)
    by (simp add: open_report_def io_bind_def or_denied_def io_lift_def io_return_def)
qed

lemma sealRecord_ok:
  assumes "length key = 32" "kind \<noteq> []" "opaque \<noteq> []" "0 \<le> rv" "\<not> is_zero cr" "\<not> is_zero ex" "w_rand w (w_draws w) = Inr b"
  shows "\<exists>e. sealRecord L kind opaque rv cr ex pub prot key (Inr plain) w = (Inr e, w\<lparr>w_draws := Suc (w_draws w)\<rparr>)"
  using assms by (simp add: sealRecord_def io_bind_def draw_random_def io_lift_def io_return_def Let_def)

text \<open>A store that can be written: no call fails, the directory of reports exists, no leftover temporary file is in the way.\<close>

definition reports_writable :: "store \<Rightarrow> owner \<Rightarrow> content world \<Rightarrow> bool" where
  "reports_writable s ow w \<longleftrightarrow> quiet w \<and> (\<forall>n. is_ok (w_rand w n)) \<and> st_reports_dir s \<in> set (w_dirs w)
     \<and> ownedReportPath s (o_opaque_id ow) \<notin> set (w_dirs w)
     \<and> (\<forall>p. is_temp (st_reports_dir s) p \<longrightarrow> file_at w p = None \<and> p \<notin> set (w_dirs w))"

lemma reports_writable_steps [simp]:
  "reports_writable s ow (w\<lparr>w_calls := n\<rparr>) = reports_writable s ow w"
  "reports_writable s ow (w\<lparr>w_reads := n\<rparr>) = reports_writable s ow w"
  "reports_writable s ow (w\<lparr>w_draws := n\<rparr>) = reports_writable s ow w"
  by (simp_all add: reports_writable_def quiet_def)

lemma write_report_succeeds:
  assumes "sound_setting L s ow" "reports_writable s ow w" "length (o_record_key ow) = 32" "0 \<le> rv" "\<not> is_zero cr" "\<not> is_zero ex"
  shows "\<exists>w'. writeOwnedProtected L (ownedReportPath s (o_opaque_id ow)) ''report'' ow rv cr ex prot (Inr plain) w = (Inr (), w')"
proof -
  from assms(1) obtain hs where lay: "store_layout s hs" "proper (o_opaque_id ow)" by (auto simp: sound_setting_def)
  have dir: "path_dir (ownedReportPath s (o_opaque_id ow)) = st_reports_dir s" using record_path_facts [OF lay] by simp
  obtain b b' where rnd: "w_rand w (w_draws w) = Inr b" "w_rand w (Suc (w_draws w)) = Inr b'"
    using assms(2) unfolding reports_writable_def by (metis is_okE)
  from lay(2) have "o_opaque_id ow \<noteq> []" by (auto simp: proper_def)
  from sealRecord_ok [OF assms(3) _ this assms(4-6) rnd(1), where kind = "''report''" and L = L and pub = "ownerPublicKey L ow"
      and prot = prot and plain = plain]
  obtain e where e: "sealRecord L ''report'' (o_opaque_id ow) rv cr ex (ownerPublicKey L ow) prot (o_record_key ow) (Inr plain) w
      = (Inr e, w\<lparr>w_draws := Suc (w_draws w)\<rparr>)" by auto
  have "\<exists>w'. atomicWriteJSON (ownedReportPath s (o_opaque_id ow)) e (w\<lparr>w_draws := Suc (w_draws w)\<rparr>) = (Inr (), w')"
    by (rule atomicWriteJSON_quiet [where b = b']) (use assms(2) dir rnd in \<open>auto simp: reports_writable_def quiet_def\<close>)
  then show ?thesis using e by (simp add: writeOwnedProtected_def io_bind_def)
qed

section \<open>Properties\<close>


text \<open>
  C26: A summary under concurrent calls: the report is read twice and anything may happen to the
  files in between. The call panics exactly when a revision with the requested number was
  appended between the two reads, so never when nothing changed. When the other calls only append
  revisions, a summary that is returned shows one page of the groups of exactly the selected
  revision of the report first read, with its time and limitations, and revisions that do not
  exist are never shown. The call itself changes no file.
\<close>

theorem Summarize_exact:
  assumes "cf_clock (st_config s) \<noteq> None" "Summarize_between L s between h revision cursor limit w = (r, w')"
    "w1 = between (snd (GetOwnedReport L s h w))"
  shows "((\<exists>m. r = Inl (GoPanic m)) \<longleftrightarrow>
      (\<exists>rr rr' page. fst (GetOwnedReport L s h w) = Inr rr \<and> fst (GetOwnedReport L s h w1) = Inr rr'
         \<and> int (length (rr_revisions rr)) < revision \<and> revision \<le> int (length (rr_revisions rr'))
         \<and> Page (Candidates (shown_candidates rr' revision)) cursor limit = Inr page))
    \<and> (file_at w1 = file_at w \<longrightarrow> (\<forall>m. r \<noteq> Inl (GoPanic m)))
    \<and> (\<forall>sm. r = Inr sm \<and> (\<forall>rr rr'. fst (GetOwnedReport L s h w) = Inr rr \<and> fst (GetOwnedReport L s h w1) = Inr rr'
           \<longrightarrow> rr_report rr' = rr_report rr \<and> prefix (rr_revisions rr) (rr_revisions rr')) \<longrightarrow>
      (\<exists>rr page. fst (GetOwnedReport L s h w) = Inr rr \<and> 0 \<le> revision \<and> revision \<le> int (length (rr_revisions rr))
      \<and> Page (Candidates (shown_candidates rr revision)) cursor limit = Inr page
      \<and> rs_candidates sm = p_items page \<and> rs_candidate_total sm = p_total page \<and> rs_next_cursor sm = p_next_cursor page
      \<and> rs_revision sm = revision \<and> rs_report_id sm = r_report_id (rr_report rr) \<and> rs_task_id sm = r_task_id (rr_report rr)
      \<and> rs_status sm = r_status (rr_report rr) \<and> rs_created_at sm = shown_created_at rr revision
      \<and> rs_limitations sm = shown_limitations rr revision))
    \<and> file_at w' \<in> {file_at w, file_at w1}"
proof -
  note run = assms(2) [unfolded Summarize_between_def]
  show ?thesis
  proof (cases "GetOwnedReport L s h w")
    case first: (Pair x w0)
    show ?thesis
    proof (cases x)
      case (Inl e)
      then have "r = Inl e" "w' = w0" using run first by (simp_all add: io_bind_def)
      moreover have "e = ErrAccessDenied" using fails_withD [OF GetOwnedReport_denied [OF assms(1)]] first Inl by blast
      moreover have "file_at w0 = file_at w" by (rule keeps_files [OF keeps_GetOwnedReport first])
      ultimately show ?thesis using first Inl by simp
    next
      case (Inr rr)
      obtain g w2 where g: "GetCandidatePage L s h revision cursor limit w1 = (g, w2)" by force
      note page = GetCandidatePage_cases [OF assms(1) g]
      have r: "w' = w2" "r = (case g of Inl e \<Rightarrow> Inl e | Inr pg \<Rightarrow>
          if int (length (rr_revisions rr)) < revision then Inl (GoPanic ''index out of range'') else Inr
          \<lparr>rs_schema_version = r_schema_version (rr_report rr), rs_report_id = r_report_id (rr_report rr),
             rs_task_id = r_task_id (rr_report rr), rs_observation_mode = r_observation_mode (rr_report rr),
             rs_status = r_status (rr_report rr), rs_created_at = shown_created_at rr revision, rs_revision = revision,
             rs_candidate_total = p_total pg, rs_candidates = p_items pg, rs_next_cursor = p_next_cursor pg,
             rs_limitations = shown_limitations rr revision\<rparr>)"
        using run first Inr g assms(3)
        by (auto simp: io_bind_def other_calls_def Let_def io_return_def io_fail_def shown_created_at_def shown_limitations_def
            split: sum.splits if_splits)
      have same: "rr' = rr" if "file_at w1 = file_at w" "fst (GetOwnedReport L s h w1) = Inr rr'" for rr'
        using GetOwnedReport_same [of L s h w rr w0 w1 rr'] that first Inr by (cases "GetOwnedReport L s h w1") simp
      have panic: "(\<exists>m. r = Inl (GoPanic m)) \<longleftrightarrow> int (length (rr_revisions rr)) < revision \<and> (\<exists>pg. g = Inr pg)"
        using page(2) by (auto simp: r(2) split: sum.splits)
      have shown: "shown_candidates rr' revision = shown_candidates rr revision"
        if "rr_report rr' = rr_report rr" "prefix (rr_revisions rr) (rr_revisions rr')" "revision \<le> int (length (rr_revisions rr))" for rr'
        using that by (auto simp: shown_candidates_def prefix_def nth_append)
      show ?thesis
      proof (intro conjI)
        show "(\<exists>m. r = Inl (GoPanic m)) \<longleftrightarrow>
          (\<exists>rr rr' page. fst (GetOwnedReport L s h w) = Inr rr \<and> fst (GetOwnedReport L s h w1) = Inr rr'
             \<and> int (length (rr_revisions rr)) < revision \<and> revision \<le> int (length (rr_revisions rr'))
             \<and> Page (Candidates (shown_candidates rr' revision)) cursor limit = Inr page)"
          unfolding panic page(3) using first Inr by auto
        show "file_at w1 = file_at w \<longrightarrow> (\<forall>m. r \<noteq> Inl (GoPanic m))"
          using panic page(3) same by fastforce
        show "file_at w' \<in> {file_at w, file_at w1}" using r(1) page(1) by simp
        show "(\<forall>sm. r = Inr sm \<and> (\<forall>rr rr'. fst (GetOwnedReport L s h w) = Inr rr \<and> fst (GetOwnedReport L s h w1) = Inr rr'
           \<longrightarrow> rr_report rr' = rr_report rr \<and> prefix (rr_revisions rr) (rr_revisions rr')) \<longrightarrow>
      (\<exists>rr page. fst (GetOwnedReport L s h w) = Inr rr \<and> 0 \<le> revision \<and> revision \<le> int (length (rr_revisions rr))
      \<and> Page (Candidates (shown_candidates rr revision)) cursor limit = Inr page
      \<and> rs_candidates sm = p_items page \<and> rs_candidate_total sm = p_total page \<and> rs_next_cursor sm = p_next_cursor page
      \<and> rs_revision sm = revision \<and> rs_report_id sm = r_report_id (rr_report rr) \<and> rs_task_id sm = r_task_id (rr_report rr)
      \<and> rs_status sm = r_status (rr_report rr) \<and> rs_created_at sm = shown_created_at rr revision
      \<and> rs_limitations sm = shown_limitations rr revision))"
        proof (intro allI impI, elim conjE)
          fix sm
          assume sm: "r = Inr sm" and rely: "\<forall>rr rr'. fst (GetOwnedReport L s h w) = Inr rr \<and> fst (GetOwnedReport L s h w1) = Inr rr'
            \<longrightarrow> rr_report rr' = rr_report rr \<and> prefix (rr_revisions rr) (rr_revisions rr')"
          obtain pg where pg: "g = Inr pg" "revision \<le> int (length (rr_revisions rr))"
            using sm by (auto simp: r(2) split: sum.splits if_splits)
          then obtain rr' :: report_record where rr': "fst (GetOwnedReport L s h w1) = Inr rr'" "0 \<le> revision"
            "Page (Candidates (shown_candidates rr' revision)) cursor limit = Inr pg" using page(3) [of pg] by blast
          have f: "fst (GetOwnedReport L s h w) = Inr rr" using first Inr by simp
          then have "rr_report rr' = rr_report rr" "prefix (rr_revisions rr) (rr_revisions rr')" using rely rr'(1) by blast+
          from shown [OF this pg(2)] rr'(3) have "Page (Candidates (shown_candidates rr revision)) cursor limit = Inr pg" by metis
          then show "(\<exists>rr page. fst (GetOwnedReport L s h w) = Inr rr \<and> 0 \<le> revision \<and> revision \<le> int (length (rr_revisions rr))
      \<and> Page (Candidates (shown_candidates rr revision)) cursor limit = Inr page
      \<and> rs_candidates sm = p_items page \<and> rs_candidate_total sm = p_total page \<and> rs_next_cursor sm = p_next_cursor page
      \<and> rs_revision sm = revision \<and> rs_report_id sm = r_report_id (rr_report rr) \<and> rs_task_id sm = r_task_id (rr_report rr)
      \<and> rs_status sm = r_status (rr_report rr) \<and> rs_created_at sm = shown_created_at rr revision
      \<and> rs_limitations sm = shown_limitations rr revision)"
            using sm f rr'(2) pg by (intro exI [of _ rr] exI [of _ pg]) (auto simp: r(2))
        qed
      qed
    qed
  qed
qed

text \<open>
  C21: One exact path is disclosed only as recorded: the returned path is the target the report
  holds for this candidate id, a candidate of the report has this id, and its alias still
  resolves to this very path, inside a bound root whose identity is unchanged. Everything else
  is the one error \<open>access denied\<close>, and no file changes.
\<close>

theorem ResolveCandidate_confined:
  assumes "cf_clock (st_config s) \<noteq> None" "ResolveCandidate L s M h cid w = (r, w')"
  shows "file_at w' = file_at w
    \<and> (case r of Inl e \<Rightarrow> e = ErrAccessDenied | Inr p \<Rightarrow> \<exists>rr c. fst (GetOwnedReport L s h w) = Inr rr
      \<and> map_of (rr_exact_targets rr) cid = Some p \<and> c \<in> set (r_candidates (rr_report rr)) \<and> c_id c = cid
      \<and> Resolve (mc_os M) (rr_aliases rr) (c_path c) = Inr p
      \<and> (table_ok (rr_aliases rr) \<longrightarrow> canonical p \<and> (\<exists>b \<in> set (rr_aliases rr). within (b_path b) p
           \<and> stableIdentity (mc_os M) (b_path b) = Inr (b_identity b))))"
proof
  have "preserves {} (ResolveCandidate L s M h cid)"
    unfolding ResolveCandidate_def by (auto intro!: preserves_bind split: option.splits)
  from keeps_files [OF this assms(2)] show "file_at w' = file_at w" .
  from assms(2) [unfolded ResolveCandidate_def] show "case r of Inl e \<Rightarrow> e = ErrAccessDenied
    | Inr p \<Rightarrow> \<exists>rr c. fst (GetOwnedReport L s h w) = Inr rr
      \<and> map_of (rr_exact_targets rr) cid = Some p \<and> c \<in> set (r_candidates (rr_report rr)) \<and> c_id c = cid
      \<and> Resolve (mc_os M) (rr_aliases rr) (c_path c) = Inr p
      \<and> (table_ok (rr_aliases rr) \<longrightarrow> canonical p \<and> (\<exists>b \<in> set (rr_aliases rr). within (b_path b) p
           \<and> stableIdentity (mc_os M) (b_path b) = Inr (b_identity b)))"
  proof (cases rule: io_bind_cases)
    case (stops e)
    with fails_withD [OF GetOwnedReport_denied [OF assms(1)] stops(1)] show ?thesis by simp
  next
    case (runs rr w1)
    show ?thesis
    proof (cases "map_of (rr_exact_targets rr) cid")
      case None
      with runs(2) have "r = Inl ErrAccessDenied" by (simp add: denied_def io_fail_def)
      then show ?thesis by simp
    next
      case (Some exact)
      with runs(2) have r: "r = resolve_candidate_in (mc_os M) (rr_aliases rr) cid exact (r_candidates (rr_report rr))"
        by (simp add: io_lift_def)
      show ?thesis
        using resolve_candidate_in_cases [where os = "mc_os M" and t = "rr_aliases rr" and cid = cid and exact = exact
            and cs = "r_candidates (rr_report rr)"]
          Resolve_inside runs(1) Some unfolding r [symmetric] by (cases r) auto
    qed
  qed
qed

lemma keeps_now_utc [simp]: "preserves P now_utc"
  unfolding now_utc_def by (intro preserves_bind) simp_all

lemma Verify_digests:
  assumes "io_bind (io_lift (verificationDigest L (verify_revision M rr t))) (\<lambda>digest.
        io_bind (AppendOwnedRevision L s h ((verify_revision M rr t)\<lparr>v_digest := digest\<rparr>)) (\<lambda>_.
          io_return ((verify_revision M rr t)\<lparr>v_digest := digest\<rparr>))) w = (r, w')"
  shows "(\<exists>e. r = Inl e \<and> file_at w' = file_at w)
    \<or> (\<exists>v. verificationDigest L v = Inr (v_digest v) \<and> (\<exists>t. v = (verify_revision M rr t)\<lparr>v_digest := v_digest v\<rparr>)
        \<and> io_bind (AppendOwnedRevision L s h v) (\<lambda>_. io_return v) w = (r, w'))"
proof (cases "verificationDigest L (verify_revision M rr t)")
  case (Inl e)
  then show ?thesis using assms by (auto simp: io_lift_def io_bind_def)
next
  case (Inr d)
  let ?v = "(verify_revision M rr t)\<lparr>v_digest := d\<rparr>"
  have "verificationDigest L ?v = Inr (v_digest ?v)" using Inr by (simp add: verificationDigest_def)
  moreover have "io_bind (AppendOwnedRevision L s h ?v) (\<lambda>_. io_return ?v) w = (r, w')"
    using assms Inr by (simp add: io_lift_def io_bind_def)
  moreover have "?v = (verify_revision M rr t)\<lparr>v_digest := v_digest ?v\<rparr>" by simp
  ultimately show ?thesis by blast
qed

lemma Verify_reaches:
  assumes "Verify L s M h w = (r, w')"
  shows "(\<exists>e. r = Inl e \<and> file_at w' = file_at w)
    \<or> (\<exists>rr w1 v w3. GetOwnedReport L s h w = (Inr rr, w1) \<and> file_at w3 = file_at w
        \<and> verificationDigest L v = Inr (v_digest v) \<and> (\<exists>t. v = (verify_revision M rr t)\<lparr>v_digest := v_digest v\<rparr>)
        \<and> io_bind (AppendOwnedRevision L s h v) (\<lambda>_. io_return v) w3 = (r, w'))"
  using assms [unfolded Verify_def Let_def]
proof (cases rule: io_bind_cases)
  case (stops e)
  then show ?thesis using keeps_files [OF keeps_GetOwnedReport stops(1)] by blast
next
  case (runs rr w1)
  note f1 = keeps_files [OF keeps_GetOwnedReport runs(1)] and get = runs(1)
  from runs(2) show ?thesis
  proof (cases rule: io_bind_cases)
    case (stops e)
    then show ?thesis using keeps_files [OF keeps_now_utc stops(1)] f1 by simp
  next
    case (runs t w2)
    have "file_at w2 = file_at w" using keeps_files [OF keeps_now_utc runs(1)] f1 by simp
    with Verify_digests [OF runs(2)] get show ?thesis by fastforce
  qed
qed

text \<open>
  C11: A verification only adds to the history: a returned revision has the next number, names the
  digest of the revision before it, carries the digest of its own contents, holds the same
  candidates in the same order, changed in status and limitations only, and is stored behind the
  unchanged report and revisions. When the call fails the owner's records are as before, or the
  complete revision is stored.
\<close>

theorem Verify_extends:
  assumes "sound_setting L s ow" "ParseOwner L h = Inr ow" "Verify L s M h w = (r, w')"
  shows "(\<exists>e. r = Inl e) \<and> view L s ow (file_at w') = view L s ow (file_at w)
    \<or> (\<exists>rr v. (r = Inr v \<or> (\<exists>e. r = Inl e)) \<and> fst (GetOwnedReport L s h w) = Inr rr
      \<and> v_revision v = int (length (rr_revisions rr)) + 1 \<and> v_previous_digest v = last_digest rr
      \<and> verificationDigest L v = Inr (v_digest v)
      \<and> map fixed_part (v_candidates v) = map fixed_part (current_candidates rr)
      \<and> view L s ow (file_at w')
        = (view L s ow (file_at w))\<lparr>ov_report := stored_report L (rr\<lparr>rr_revisions := rr_revisions rr @ [v]\<rparr>)\<rparr>)"
proof (cases "\<exists>e. r = Inl e \<and> file_at w' = file_at w")
  case False
  from Verify_reaches [OF assms(3)] False obtain rr w1 v w3 where st: "GetOwnedReport L s h w = (Inr rr, w1)" "file_at w3 = file_at w"
      "verificationDigest L v = Inr (v_digest v)" "\<exists>t. v = (verify_revision M rr t)\<lparr>v_digest := v_digest v\<rparr>"
      "io_bind (AppendOwnedRevision L s h v) (\<lambda>_. io_return v) w3 = (r, w')"
    by blast
  from st(5) obtain r' where ap: "AppendOwnedRevision L s h v w3 = (r', w')" "r' = Inr () \<and> r = Inr v \<or> (\<exists>e. r' = Inl e \<and> r = Inl e)"
    by (cases rule: io_bind_cases) (auto simp: io_return_def)
  have "ov_report (view L s ow (file_at w3)) = Some rr" using GetOwnedReport_view [OF st(1) assms(2)] st(2) by simp
  from AppendOwnedRevision_states [OF assms(1,2) this ap(1)]
  have "view L s ow (file_at w') = view L s ow (file_at w) \<and> (\<exists>e. r = Inl e)
    \<or> (r = Inr v \<or> (\<exists>e. r = Inl e)) \<and> view L s ow (file_at w')
        = (view L s ow (file_at w))\<lparr>ov_report := stored_report L (rr\<lparr>rr_revisions := rr_revisions rr @ [v]\<rparr>)\<rparr>"
    using ap(2) st(2) by auto
  moreover from st(4) obtain t where v: "v = (verify_revision M rr t)\<lparr>v_digest := v_digest v\<rparr>" by blast
  have "v_revision v = v_revision (verify_revision M rr t)" "v_previous_digest v = v_previous_digest (verify_revision M rr t)"
      "v_candidates v = v_candidates (verify_revision M rr t)"
    by (subst v, simp)+
  then have "v_revision v = int (length (rr_revisions rr)) + 1" "v_previous_digest v = last_digest rr"
      "map fixed_part (v_candidates v) = map fixed_part (current_candidates rr)"
    by (simp_all add: verify_revision_def Let_def case_prod_unfold comp_def verify_one_fixed)
  moreover have "fst (GetOwnedReport L s h w) = Inr rr" using st(1) by simp
  ultimately show ?thesis using st(3) by blast
qed auto

lemma Verify_runs:
  assumes "sound_setting L s ow" "ParseOwner L h = Inr ow" "fst (GetOwnedReport L s h w) = Inr rr" "reports_writable s ow w"
    "file_at w (ownedReportPath s (o_opaque_id ow)) = Some (Env e)"
    "0 \<le> en_revision e" "en_revision e < 2 ^ 63 - 1" "\<not> is_zero (en_created_at e)" "\<not> is_zero (en_expires_at e)"
    "t = time_utc (w_clock w (Suc (w_reads w)))" "\<not> is_zero t" "v = verify_revision M rr t"
    "is_ok (verificationDigest L v)"
    "\<And>d. verificationDigest L v = Inr d \<Longrightarrow> is_ok (json_report_record L (rr\<lparr>rr_revisions := rr_revisions rr @ [v\<lparr>v_digest := d\<rparr>]\<rparr>))"
  shows "\<exists>d. verificationDigest L v = Inr d \<and> fst (Verify L s M h w) = Inr (v\<lparr>v_digest := d\<rparr>)"
proof -
  obtain w1 where get: "GetOwnedReport L s h w = (Inr rr, w1)" using assms(3) by (metis prod.collapse)
  then have opn: "openRecord L (unjson_report_record L) e (o_record_key ow) = Inr rr" "env_size L e \<le> 128 * 1024 * 1024"
      "en_record_kind e = ''report''" "en_public_key e = ownerPublicKey L ow"
    and w1: "w1 = w\<lparr>w_calls := Suc (w_calls w), w_reads := Suc (w_reads w)\<rparr>"
    using assms(2,5) by (auto simp: GetOwnedReport_iff)
  define w2 where "w2 = w1\<lparr>w_reads := Suc (w_reads w1)\<rparr>"
  have clock: "now_utc w1 = (Inr t, w2)" by (simp add: now_utc_def io_bind_def read_clock_def io_return_def assms(10) w2_def w1)
  obtain d where d: "verificationDigest L v = Inr d" by (rule is_okE [OF assms(13)])
  let ?v = "v\<lparr>v_digest := d\<rparr>"
  have v: "v_revision ?v = int (length (rr_revisions rr)) + 1" "v_created_at ?v = t" "v_previous_digest ?v = last_digest rr" "v_digest ?v \<noteq> []"
    using d by (auto simp: assms(12) verify_revision_def Let_def case_prod_unfold verificationDigest_def and_then_def split: sum.splits)
  have wr: "reports_writable s ow (w2\<lparr>w_calls := Suc (w_calls w2)\<rparr>)" using assms(4) by (simp add: w2_def w1)
  have "quiet w2" "file_at w2 (ownedReportPath s (o_opaque_id ow)) = Some (Env e)"
    using assms(4,5) by (simp_all add: w2_def w1 reports_writable_def)
  note opened = open_report_quiet [OF this opn(2-4,1)]
  obtain x where x: "json_report_record L (rr\<lparr>rr_revisions := rr_revisions rr @ [?v]\<rparr>) = Inr x"
    by (rule is_okE [OF assms(14) [OF d]])
  have key: "length (o_record_key ow) = 32" using opn(1) by (auto simp: openRecord_def split: if_splits)
  have rv: "0 \<le> wrap64 (en_revision e + 1)" using assms(6,7) by (subst wrap64_id) (auto simp: in_i64_def)
  obtain w3 where "writeOwnedProtected L (ownedReportPath s (o_opaque_id ow)) ''report'' ow (wrap64 (en_revision e + 1))
      (en_created_at e) (en_expires_at e) (en_protected e) (Inr x) (w2\<lparr>w_calls := Suc (w_calls w2)\<rparr>) = (Inr (), w3)"
    using write_report_succeeds [OF assms(1) wr key rv assms(8,9)] by blast
  then have "AppendOwnedRevision L s h ?v w2 = (Inr (), w3)"
    using opened v assms(11) x assms(2) by (simp add: AppendOwnedRevision_def io_bind_def or_denied_def io_lift_def)
  then have "fst (Verify L s M h w) = Inr ?v"
    using get clock d by (simp add: Verify_def io_bind_def io_lift_def Let_def io_return_def assms(12))
  with d show ?thesis by blast
qed

text \<open>
  C31: A report that can be read can be verified: when no system call fails and the store can be
  written, a verification returns the revision it computed from the report, the machine and the
  time it read, with its digest, so its own revision always passes the chain test of the store.
  Relied on: the clock is set at that reading, JSON encodes that revision and the
  report extended by it, and the envelope of the stored report has sane metadata.
\<close>

theorem Verify_succeeds:
  assumes "sound_setting L s ow" "ParseOwner L h = Inr ow" "fst (GetOwnedReport L s h w) = Inr rr" "reports_writable s ow w"
    "file_at w (ownedReportPath s (o_opaque_id ow)) = Some (Env e)"
    "0 \<le> en_revision e" "en_revision e < 2 ^ 63 - 1" "\<not> is_zero (en_created_at e)" "\<not> is_zero (en_expires_at e)"
    "t = time_utc (w_clock w (Suc (w_reads w)))" "\<not> is_zero t" "v = verify_revision M rr t"
    "is_ok (verificationDigest L v)"
    "\<And>d. verificationDigest L v = Inr d \<Longrightarrow> is_ok (json_report_record L (rr\<lparr>rr_revisions := rr_revisions rr @ [v\<lparr>v_digest := d\<rparr>]\<rparr>))"
  shows "\<exists>d. verificationDigest L v = Inr d \<and> fst (Verify L s M h w) = Inr (v\<lparr>v_digest := d\<rparr>)"
  by (rule Verify_runs [OF assms(1-13)]) (rule assms(14))

section \<open>Witnesses\<close>

text \<open>A report with a log file below the temporary root, a running process and its port.\<close>

definition demo_machine :: machine where
  "demo_machine = \<lparr>mc_os = demo_os, mc_ctx = no_timeout, mc_native = demo_adapter\<rparr>"

definition demo_found :: "string \<Rightarrow> candidate_kind \<Rightarrow> candidate" where
  "demo_found i k =
     \<lparr>c_id = i, c_kind = k, c_path = [], c_object_identity = [], c_process = None, c_parent_pid = 0, c_port = None,
      c_size_bytes = 0, c_evidence_level = EvidenceBaselineObserved, c_current_status = StatusPresent, c_reason = [],
      c_recommendation = ''review'', c_event_ids = [], c_receipt_ids = [], c_limitations = [], c_conflicts = []\<rparr>"

definition demo_full :: report_record where
  "demo_full = demo_rr\<lparr>rr_report := demo_report\<lparr>r_candidates :=
       [(demo_found ''c1'' CandidateFile)\<lparr>c_path := ''temp://0/log''\<rparr>,
        (demo_found ''c2'' CandidateProcess)\<lparr>c_process := Some (md_identity (demo_proc 11 1 ''/''))\<rparr>]\<rparr>,
     rr_exact_targets := [(''c1'', ''/tmp/t/log'')], rr_aliases := demo_table\<rparr>"

definition demo_servicelib :: servicelib where
  "demo_servicelib = storelib.extend
     (demo_storelib\<lparr>json_report_record := (\<lambda>_. Inr ''r''), unjson_report_record := (\<lambda>_. Some demo_full)\<rparr>)
     \<lparr>json_revision = (\<lambda>_. Inr ''v'')\<rparr>"


definition demo_sealed_report :: envelope where
  "demo_sealed_report = \<lparr>en_format_version = encryptedFormatVersion, en_record_kind = ''report'',
     en_opaque_id = o_opaque_id demo_owner, en_revision = 0, en_created_at = time_of_unix 2,
     en_expires_at = time_of_unix 100000, en_public_key = ownerPublicKey demo_servicelib demo_owner, en_protected = False,
     en_nonce = b64_encode (replicate 12 (CHR ''n'')), en_ciphertext = b64_encode ''r''\<rparr>"

definition demo_done :: "content world" where
  "demo_done = demo_world\<lparr>w_files := [(ownedReportPath demo_store (o_opaque_id demo_owner), Env demo_sealed_report)],
     w_dirs := [''/s/reports'']\<rparr>"

lemma demo_service_parses: "ParseOwner demo_servicelib demo_handle = Inr demo_owner"
proof -
  have "ParseOwner demo_servicelib demo_handle = ParseOwner demo_storelib demo_handle"
    by (simp add: ParseOwner_def decode_owner_def demo_servicelib_def demo_storelib_def storelib.defs)
  then show ?thesis by (simp add: demo_parses)
qed

lemma demo_service_setting: "sound_setting demo_servicelib demo_store demo_owner"
  using demo_layout by (auto simp: sound_setting_def demo_owner_def proper_def aead_ok_def demo_servicelib_def demo_storelib_def storelib.defs)

lemma demo_service_clock: "cf_clock (st_config demo_store) \<noteq> None"
  by (simp add: demo_store_def default_config_def)

lemma demo_opens: "openRecord demo_servicelib (unjson_report_record demo_servicelib) demo_sealed_report (o_record_key demo_owner) = Inr demo_full"
  by (simp add: openRecord_def demo_sealed_report_def encryptedFormatVersion_def decode_canonical_encode nonce_size_def
      demo_servicelib_def demo_storelib_def storelib.defs demo_owner_def del: b64_encode.simps)

lemma demo_get:
  assumes "quiet w" "file_at w = file_at demo_done" "clock_reading demo_store w = Some (time_of_unix n)" "n < 100000"
  shows "GetOwnedReport demo_servicelib demo_store demo_handle w
    = (Inr demo_full, w\<lparr>w_calls := Suc (w_calls w), w_reads := Suc (w_reads w)\<rparr>)"
proof -
  have "file_at w (ownedReportPath demo_store (o_opaque_id demo_owner)) = Some (Env demo_sealed_report)"
    using assms(2) by (simp add: file_at_def demo_done_def)
  then show ?thesis using assms(1,3,4) demo_opens unfolding GetOwnedReport_iff demo_service_parses
    by (auto simp: quiet_def demo_sealed_report_def demo_servicelib_def demo_storelib_def storelib.defs time_of_unix_def second_ns_def
        simp del: b64_encode.simps)
qed

lemma demo_done_gets:
  "GetOwnedReport demo_servicelib demo_store demo_handle demo_done
     = (Inr demo_full, demo_done\<lparr>w_calls := Suc 0, w_reads := Suc 0\<rparr>)"
  "GetOwnedReport demo_servicelib demo_store demo_handle (demo_done\<lparr>w_calls := Suc 0, w_reads := Suc 0\<rparr>)
     = (Inr demo_full, demo_done\<lparr>w_calls := Suc (Suc 0), w_reads := Suc (Suc 0)\<rparr>)"
proof -
  have now: "clock_reading demo_store (demo_done\<lparr>w_calls := n, w_reads := n\<rparr>) = Some (time_of_unix (int n))" for n
    by (simp add: clock_reading_def demo_store_def default_config_def demo_done_def demo_world_def time_of_unix_def time_utc_def)
  have q: "quiet (demo_done\<lparr>w_calls := n, w_reads := n\<rparr>)" for n by (simp add: quiet_def demo_done_def demo_world_def)
  have f: "file_at (demo_done\<lparr>w_calls := n, w_reads := n\<rparr>) = file_at demo_done" for n by (simp add: fun_eq_iff)
  have z: "demo_done\<lparr>w_calls := 0, w_reads := 0\<rparr> = demo_done" by (simp add: demo_done_def demo_world_def)
  show "GetOwnedReport demo_servicelib demo_store demo_handle demo_done
     = (Inr demo_full, demo_done\<lparr>w_calls := Suc 0, w_reads := Suc 0\<rparr>)"
    using demo_get [OF q f now, of 0] unfolding z by (simp add: demo_done_def demo_world_def)
  show "GetOwnedReport demo_servicelib demo_store demo_handle (demo_done\<lparr>w_calls := Suc 0, w_reads := Suc 0\<rparr>)
     = (Inr demo_full, demo_done\<lparr>w_calls := Suc (Suc 0), w_reads := Suc (Suc 0)\<rparr>)"
    using demo_get [OF q f now, of "Suc 0"] by (simp add: demo_done_def demo_world_def)
qed

lemma demo_page: "is_ok (Page (Candidates (r_candidates (rr_report demo_full))) [] 20)"
  by code_simp

theorem Summarize_exact_witness:
  "\<exists>sm page. fst (Summarize demo_servicelib demo_store demo_handle 0 [] 20 demo_done) = Inr sm
     \<and> Page (Candidates (r_candidates (rr_report demo_full))) [] 20 = Inr page \<and> rs_candidates sm = p_items page"
proof -
  obtain page where pg: "Page (Candidates (r_candidates (rr_report demo_full))) [] 20 = Inr page" by (rule is_okE [OF demo_page])
  then obtain sm where sm: "fst (Summarize demo_servicelib demo_store demo_handle 0 [] 20 demo_done) = Inr sm"
    by (simp add: Summarize_def Summarize_between_def other_calls_none GetCandidatePage_def io_bind_def demo_done_gets io_lift_def io_return_def Let_def)
  from Summarize_exact [OF demo_service_clock surjective_pairing refl, of demo_servicelib "\<lambda>w. w" demo_handle 0 "[]" 20 demo_done]
  have "rs_candidates sm = p_items page"
    by (simp add: sm [unfolded Summarize_def] demo_done_gets shown_candidates_def pg)
  with sm pg show ?thesis by blast
qed

text \<open>A verification between the two reads makes a request for the new revision panic.\<close>

definition demo_racelib :: servicelib where
  "demo_racelib = demo_servicelib\<lparr>unjson_report_record := (\<lambda>p. Some (if p = ''r'' then demo_full else demo_full\<lparr>rr_revisions := [demo_revision]\<rparr>))\<rparr>"

definition demo_append_between :: "content world \<Rightarrow> content world" where
  "demo_append_between w = w\<lparr>w_files := [(ownedReportPath demo_store (o_opaque_id demo_owner),
     Env (demo_sealed_report\<lparr>en_revision := 1, en_ciphertext := b64_encode ''s''\<rparr>))]\<rparr>"

lemma Summarize_panics_between:
  "fst (Summarize_between demo_racelib demo_store demo_append_between demo_handle 1 [] 20 demo_done) = Inl (GoPanic ''index out of range'')
   \<and> fst (Summarize demo_racelib demo_store demo_handle 1 [] 20 demo_done) = Inl ErrAccessDenied"
  by code_simp

theorem ResolveCandidate_confined_witness:
  "fst (ResolveCandidate demo_servicelib demo_store demo_machine demo_handle ''c1'' demo_done) = Inr ''/tmp/t/log''
     \<and> map_of (rr_exact_targets demo_full) ''c1'' = Some ''/tmp/t/log''"
proof -
  have "resolve_candidate_in (mc_os demo_machine) (rr_aliases demo_full) ''c1'' ''/tmp/t/log'' (r_candidates (rr_report demo_full))
      = Inr ''/tmp/t/log''" "map_of (rr_exact_targets demo_full) ''c1'' = Some ''/tmp/t/log''"
    by code_simp+
  then have "fst (ResolveCandidate demo_servicelib demo_store demo_machine demo_handle ''c1'' demo_done) = Inr ''/tmp/t/log''"
    by (simp add: ResolveCandidate_def io_bind_def demo_done_gets io_lift_def)
  with ResolveCandidate_confined [OF demo_service_clock surjective_pairing, of demo_servicelib demo_machine demo_handle "''c1''" demo_done]
  show ?thesis by (auto simp: demo_done_gets)
qed

lemma demo_writable: "reports_writable demo_store demo_owner demo_done"
proof -
  let ?d = "''/s/reports''" and ?p = "ownedReportPath demo_store (o_opaque_id demo_owner)"
  have d: "st_reports_dir demo_store = ?d" by (simp add: demo_store_def)
  have "?d = abs_path [''s'', ''reports'']" "list_all proper [''s'', ''reports'']" by (simp_all add: abs_path_def proper_def)
  then have "\<not> is_temp ?d ?d" using is_temp_abs [of "[''s'', ''reports'']"]
    by (metis abs_path_inject proper_temp_name append_self_conv list_all_append list.pred_inject not_Cons_self2)
  moreover have "\<not> is_temp ?d ?p" using record_path_facts [OF demo_layout demo_proper_id] d by simp
  moreover have "?p \<noteq> ?d" by code_simp
  moreover have "set (w_dirs demo_done) = {?d}" "\<And>q. file_at demo_done q = (if q = ?p then Some (Env demo_sealed_report) else None)"
    "quiet demo_done" "\<And>n. is_ok (w_rand demo_done n)"
    by (simp_all add: demo_done_def file_at_def quiet_def demo_world_def)
  ultimately show ?thesis unfolding reports_writable_def d by (metis singletonD singletonI)
qed

lemma demo_sealed_facts:
  "file_at demo_done (ownedReportPath demo_store (o_opaque_id demo_owner)) = Some (Env demo_sealed_report)"
  "0 \<le> en_revision demo_sealed_report" "en_revision demo_sealed_report < 2 ^ 63 - 1" "\<not> is_zero (en_created_at demo_sealed_report)"
  "\<not> is_zero (en_expires_at demo_sealed_report)" "\<not> is_zero (time_utc (w_clock demo_done n))"
  "is_ok (verificationDigest demo_servicelib v)" "is_ok (json_report_record demo_servicelib x)"
  by (simp_all add: verificationDigest_def time_utc_def file_at_def demo_done_def demo_sealed_report_def time_of_unix_def is_zero_def demo_world_def demo_servicelib_def
      demo_storelib_def storelib.defs unix_epoch_def second_ns_def del: b64_encode.simps)

lemma demo_reads: "fst (GetOwnedReport demo_servicelib demo_store demo_handle demo_done) = Inr demo_full"
  by (simp add: demo_done_gets)

theorem Verify_succeeds_witness:
  "\<exists>d. fst (Verify demo_servicelib demo_store demo_machine demo_handle demo_done)
     = Inr ((verify_revision demo_machine demo_full (time_of_unix 1))\<lparr>v_digest := d\<rparr>)"
proof -
  have t: "time_of_unix 1 = time_utc (w_clock demo_done (Suc (w_reads demo_done)))"
    by (simp add: demo_done_def demo_world_def time_of_unix_def time_utc_def)
  from Verify_succeeds [OF demo_service_setting demo_service_parses demo_reads demo_writable demo_sealed_facts(1-5) t _ refl
      demo_sealed_facts(7,8)] demo_sealed_facts(6) [of "Suc (w_reads demo_done)"]
  show ?thesis unfolding t by blast
qed

theorem Verify_extends_witness:
  "\<exists>v. fst (Verify demo_servicelib demo_store demo_machine demo_handle demo_done) = Inr v \<and> v_revision v = 1"
proof -
  obtain v where v: "fst (Verify demo_servicelib demo_store demo_machine demo_handle demo_done) = Inr v"
    using Verify_runs [OF demo_service_setting demo_service_parses demo_reads demo_writable demo_sealed_facts(1-5) refl
        demo_sealed_facts(6) refl demo_sealed_facts(7,8)] by blast
  with Verify_extends [OF demo_service_setting demo_service_parses surjective_pairing, of demo_machine demo_done]
  show ?thesis by (auto simp: demo_done_gets demo_full_def demo_rr_def new_report_record_def)
qed


end
