(* ===== verification/Service_Alias.thy ===== *)
theory Service_Alias
  imports Service_Read
begin

text \<open>
  Aliases at the service's border: the events an executor may send, which name paths by alias
  only, stay below the roots the owner delegated to it, and the reports the service returns
  name paths by alias only while the store keeps the exact targets.
\<close>

section \<open>Aliases without traversal\<close>

lemma list_all2_from: "list_all2 P xs ys \<Longrightarrow> y \<in> set ys \<Longrightarrow> \<exists>x \<in> set xs. P x y"
  by (induction rule: list_all2_induct) auto

lemma split_on_refines:
  "(\<forall>x \<in> set (hd (split_on P s)). \<not> Q x) \<longrightarrow> hd (split_on (\<lambda>x. P x \<or> Q x) s) = hd (split_on P s)"
  "c \<in> set (tl (split_on P s)) \<Longrightarrow> \<forall>x \<in> set c. \<not> Q x \<Longrightarrow> c \<in> set (tl (split_on (\<lambda>x. P x \<or> Q x) s))"
proof (induction s)
  case (Cons x s)
  have ne: "split_on P s \<noteq> []" "split_on (\<lambda>x. P x \<or> Q x) s \<noteq> []" by (rule split_on_not_Nil)+
  {
    case 1
    then show ?case using Cons.IH(1) ne by (auto split: list.splits)
  next
    case 2
    then show ?case using Cons.IH ne by (auto split: list.splits if_splits)
  }
qed simp_all

lemma dotdot_traverses:
  assumes "''..'' \<in> set (path_parts v)"
  shows "hasTraversal v"
proof -
  let ?P = "\<lambda>c. c = CHR ''/''" and ?Q = "\<lambda>c. c = CHR 0x5C"
  have "split_on ?P v \<noteq> []" "split_on (\<lambda>c. ?P c \<or> ?Q c) v \<noteq> []" by (rule split_on_not_Nil)+
  then have "''..'' \<in> set (split_on (\<lambda>c. ?P c \<or> ?Q c) v)"
    using split_on_refines [where P = ?P and Q = ?Q and s = v] assms
    by (cases "split_on ?P v"; cases "split_on (\<lambda>c. ?P c \<or> ?Q c) v") (auto simp: path_parts_def)
  then show ?thesis by (auto simp: hasTraversal_def fields_func_def)
qed

lemma fold_clean_plain:
  "\<forall>c \<in> set ps. sep \<notin> set c \<and> c \<noteq> ''..'' \<Longrightarrow> fold (clean_step True) ps st = rev (filter proper ps) @ st"
proof (induction ps arbitrary: st)
  case (Cons c ps)
  have "clean_step True c st = (if proper c then c # st else st)"
    using Cons.prems by (auto simp: clean_step_def proper_def)
  with Cons show ?case by auto
qed simp

lemma path_join_plain:
  assumes "list_all proper bs" "''..'' \<notin> set (path_parts v)" "v \<noteq> []"
  shows "path_clean (path_join (abs_path bs) v) = abs_path (bs @ filter proper (path_parts v))"
proof -
  let ?j = "abs_path bs @ sep # v"
  have abs: "is_abs ?j" by (simp add: is_abs_def has_prefix_def abs_path_def)
  have parts: "path_parts ?j = path_parts (abs_path bs) @ path_parts v" by (simp add: path_parts_def split_on_append)
  have plain: "\<forall>c \<in> set (path_parts v). sep \<notin> set c \<and> c \<noteq> ''..''"
    using assms(2) by (auto simp: path_parts_def dest: split_on_parts)
  have "fold (clean_step True) (path_parts (abs_path bs)) [] = rev bs"
    using assms(1) by (simp add: path_parts_abs_path fold_clean_proper)
  then have "clean_parts True (path_parts ?j) = bs @ filter proper (path_parts v)"
    by (simp add: clean_parts_def parts fold_clean_plain [OF plain])
  then have "path_clean ?j = abs_path (bs @ filter proper (path_parts v))"
    using abs by (simp add: path_clean_def)
  moreover have "path_join (abs_path bs) v = path_clean ?j"
    using assms(3) by (simp add: path_join_def)
  moreover have "list_all proper (bs @ filter proper (path_parts v))" using assms(1) by (auto simp: list_all_iff)
  ultimately show ?thesis by simp
qed

text \<open>The path an alias stands for, in components.\<close>

lemma resolve_in_parts:
  assumes "canonical (b_path b)" "b_alias b = root_alias i" "resolve_in os b (alias_base i @ sep # v) = Inr p"
  shows "rel_parts p = rel_parts (b_path b) @ filter proper (path_parts v)"
proof -
  from assms(1) obtain bs where bs: "list_all proper bs" "b_path b = abs_path bs" "rel_parts (b_path b) = bs" by (rule canonicalE)
  have rel: "trim_prefix (trim_prefix (alias_base i @ sep # v) (trim_suffix (b_alias b) ''/'')) ''/'' = v"
    by (simp add: assms(2) trim_root_alias trim_prefix_def has_prefix_def)
  show ?thesis
  proof (cases "v = []")
    case True
    then have "p = b_path b" using assms(3) unfolding resolve_in_def rel Let_def by (auto split: sum.splits if_splits)
    then show ?thesis using True by (simp add: path_parts_def proper_def)
  next
    case False
    then have "\<not> hasTraversal v" "p = path_clean (path_join (b_path b) v)"
      using assms(3) unfolding resolve_in_def rel Let_def by (auto split: sum.splits if_splits)
    moreover from this(1) have "''..'' \<notin> set (path_parts v)" using dotdot_traverses by blast
    ultimately have "p = abs_path (bs @ filter proper (path_parts v))" using path_join_plain [OF bs(1) _ False] bs(2) by simp
    moreover have "list_all proper (bs @ filter proper (path_parts v))" using bs(1) by (auto simp: list_all_iff)
    ultimately show ?thesis using bs(3) by simp
  qed
qed

lemma Resolve_shape:
  assumes "table_ok t" "Resolve os t x = Inr q"
  obtains (below) i v where "i < length t" "x = alias_base i @ sep # v"
      "rel_parts q = rel_parts (b_path (t ! i)) @ filter proper (path_parts v)"
  | (at_root) i where "i < length t" "0 < i" "x = root_alias i" "q = b_path (t ! i)"
proof -
  from Resolve_in_table [OF assms(2)] obtain i where i: "i < length t" "alias_matches (t ! i) x" "resolve_in os (t ! i) x = Inr q"
    by (auto simp: in_set_conv_nth)
  have b: "b_alias (t ! i) = root_alias i" "canonical (b_path (t ! i))" using assms(1) i(1) by (auto simp: table_ok_def)
  show ?thesis
  proof (cases "\<exists>v. x = alias_base i @ sep # v")
    case True
    then obtain v where "x = alias_base i @ sep # v" by blast
    with resolve_in_parts [OF b(2,1)] i(3) below [OF i(1)] show ?thesis by blast
  next
    case False
    with i(2) b(1) have x: "x = root_alias i" using alias_matches_root by blast
    with False have "0 < i" by (auto simp: root_alias_base split: if_splits)
    moreover have "trim_prefix (trim_prefix x (trim_suffix (b_alias (t ! i)) ''/'')) ''/'' = []"
      using x \<open>0 < i\<close> by (simp only: b(1) trim_root_alias) (simp add: root_alias_base trim_prefix_def has_prefix_def)
    with i(3) have "q = b_path (t ! i)" unfolding resolve_in_def Let_def by (auto split: sum.splits if_splits)
    ultimately show ?thesis using at_root i(1) x by blast
  qed
qed

section \<open>Delegated roots\<close>

definition root_text :: "string \<Rightarrow> string" where
  "root_text root = (if root = ''workspace'' then ''workspace://'' else root)"

lemma allowedAlias_iff:
  "allowedAlias allowed a \<longleftrightarrow> (\<exists>root \<in> set allowed. a = root_text root \<or> has_prefix a (trim_suffix (root_text root) ''/'' @ ''/''))"
  by (induction allowed) (auto simp: root_text_def Let_def)

lemma trim_slash_parts:
  assumes "filter proper (path_parts v) = us"
  shows "\<exists>v'. trim_suffix (u @ sep # v) ''/'' = (if v = [] then u else u @ sep # v') \<and> (v \<noteq> [] \<longrightarrow> filter proper (path_parts v') = us)"
proof (cases "v = []")
  case True
  then show ?thesis using trim_suffix_snoc [of u sep] by auto
next
  case False
  then obtain v' c where v: "v = v' @ [c]" by (cases v rule: rev_cases) auto
  show ?thesis
  proof (cases "c = sep")
    case True
    have "filter proper (path_parts v') = us"
      using assms v True by (auto simp: path_parts_def split_on_append proper_def)
    with True v show ?thesis using trim_suffix_snoc [of "u @ sep # v'" sep] by auto
  next
    case nc: False
    then have "trim_suffix (u @ sep # v) ''/'' = u @ sep # v" using v by (intro trim_suffix_last) auto
    with assms False show ?thesis by auto
  qed
qed

text \<open>
  The directory a delegated root stands for, read off its text and the bound roots whatever has become of
  them: a bound root or a path below one. A text that is neither, such as \<open>temp://\<close>, covers
  every bound root whose alias begins with it.
\<close>

definition denotes :: "alias_table \<Rightarrow> string \<Rightarrow> string \<Rightarrow> bool" where
  "denotes t x q \<longleftrightarrow> (\<exists>i < length t. x = root_alias i \<and> q = b_path (t ! i)
     \<or> (\<exists>v. x = alias_base i @ sep # v \<and> q = abs_path (rel_parts (b_path (t ! i)) @ filter proper (path_parts v))))"

definition covers :: "alias_table \<Rightarrow> string \<Rightarrow> string \<Rightarrow> bool" where
  "covers t x q \<longleftrightarrow> denotes t x q
     \<or> (\<forall>q'. \<not> denotes t x q') \<and> (\<exists>i < length t. q = b_path (t ! i) \<and> prefix (trim_suffix x ''/'' @ ''/'') (alias_base i @ ''/''))"

lemma trim_slash_cases: "x = trim_suffix x ''/'' \<or> x = trim_suffix x ''/'' @ ''/''"
  by (auto simp: trim_suffix_def has_suffix_def suffix_def)

lemma resolved_root:
  assumes "table_ok t" "Resolve os t a = Inr p" "a = root_alias i \<or> a = alias_base i @ sep # v"
  shows "within (b_path (t ! i)) p"
proof -
  from Resolve_in_table [OF assms(2)] obtain j where j: "j < length t" "alias_matches (t ! j) a" "resolve_in os (t ! j) a = Inr p"
    by (auto simp: in_set_conv_nth)
  have b: "b_alias (t ! j) = root_alias j" "canonical (b_path (t ! j))" using assms(1) j(1) by (auto simp: table_ok_def)
  have "i = j" using j(2) assms(3) alias_matches_iff [OF b(1)] by auto
  with resolve_in_contained [OF j(3) b(2)] show ?thesis by blast
qed

lemma resolved_parts:
  assumes "table_ok t" "Resolve os t (alias_base i @ sep # v) = Inr p"
  shows "rel_parts p = rel_parts (b_path (t ! i)) @ filter proper (path_parts v)"
  using assms
proof (cases rule: Resolve_shape)
  case (below j v')
  then show ?thesis using alias_base_sep by auto
next
  case (at_root j)
  then show ?thesis using alias_base_no_sep [of j i v] by (simp add: root_alias_base)
qed

lemma denoted_within:
  assumes "table_ok t" "denotes t x q" "Resolve os t a = Inr p" "a = x \<or> a = trim_suffix x ''/'' @ sep # u"
  shows "within q p"
proof -
  from assms(2) obtain i where i: "i < length t" and
    x: "x = root_alias i \<and> q = b_path (t ! i)
      \<or> (\<exists>v. x = alias_base i @ sep # v \<and> q = abs_path (rel_parts (b_path (t ! i)) @ filter proper (path_parts v)))"
    by (auto simp: denotes_def)
  from x show ?thesis
  proof (elim disjE exE conjE)
    assume "x = root_alias i" "q = b_path (t ! i)"
    then show ?thesis using resolved_root [OF assms(1,3)] assms(4) by (auto simp: trim_root_alias)
  next
    fix v assume x: "x = alias_base i @ sep # v" and q: "q = abs_path (rel_parts (b_path (t ! i)) @ filter proper (path_parts v))"
    have "canonical (b_path (t ! i))" using assms(1) i by (simp add: table_ok_def)
    then obtain bs where "list_all proper bs" "rel_parts (b_path (t ! i)) = bs" by (rule canonicalE)
    then have "list_all proper (rel_parts (b_path (t ! i)) @ filter proper (path_parts v))" by (auto simp: list_all_iff)
    then have q': "rel_parts q = rel_parts (b_path (t ! i)) @ filter proper (path_parts v)" by (simp add: q)
    from trim_slash_parts [OF refl, of "alias_base i" v] obtain v' where
      v': "trim_suffix x ''/'' = (if v = [] then alias_base i else alias_base i @ sep # v')"
        "v \<noteq> [] \<longrightarrow> filter proper (path_parts v') = filter proper (path_parts v)" using x by auto
    obtain v2 where "a = alias_base i @ sep # v2" "prefix (filter proper (path_parts v)) (filter proper (path_parts v2))"
    proof (cases "a = x")
      case True
      then show ?thesis using that [of v] x by simp
    next
      case False
      then have a: "a = trim_suffix x ''/'' @ sep # u" using assms(4) by simp
      show ?thesis
      proof (cases "v = []")
        case True
        with a v' that [of u] show ?thesis by (simp add: path_parts_def proper_def)
      next
        case False
        with a v' that [of "v' @ sep # u"] show ?thesis by (simp add: path_parts_def split_on_append)
      qed
    qed
    with resolved_parts [OF assms(1), of os i v2 p] assms(3) q' show ?thesis by (simp add: within_def)
  qed
qed

lemma denoted_itself:
  assumes "table_ok t" "Resolve os t x = Inr p"
  shows "denotes t x p"
  using assms
proof (cases rule: Resolve_shape)
  case (below i v)
  have "canonical p" using Resolve_inside [OF assms] by blast
  then have "p = abs_path (rel_parts p)" by (metis canonicalE)
  with below show ?thesis by (auto simp: denotes_def)
next
  case (at_root i)
  then show ?thesis by (auto simp: denotes_def)
qed

text \<open>An alias that was admitted for a delegated root lies in a directory this root covers.\<close>

lemma delegated_covered:
  assumes "table_ok t" "Resolve os t a = Inr p" "a = x \<or> has_prefix a (trim_suffix x ''/'' @ ''/'')"
  shows "\<exists>q. covers t x q \<and> within q p"
proof (cases "\<exists>q. denotes t x q")
  case True
  then obtain q where q: "denotes t x q" by blast
  from assms(3) obtain u where "a = x \<or> a = trim_suffix x ''/'' @ sep # u" by (auto simp: has_prefix_def prefix_def)
  with denoted_within [OF assms(1) q assms(2)] q show ?thesis by (auto simp: covers_def)
next
  case False
  then have "a \<noteq> x" using denoted_itself [OF assms(1,2)] by blast
  with assms(3) have pre: "prefix (trim_suffix x ''/'' @ ''/'') a" by (simp add: has_prefix_def)
  obtain i where i: "i < length t" "prefix (trim_suffix x ''/'' @ ''/'') (alias_base i @ ''/'')"
    "a = root_alias i \<or> (\<exists>v. a = alias_base i @ sep # v)"
    using assms(1,2)
  proof (cases rule: Resolve_shape)
    case (below i v)
    have "prefix (alias_base i @ ''/'') a" using below(2) by simp
    from prefix_same_cases [OF pre this] show ?thesis
    proof
      assume "prefix (trim_suffix x ''/'' @ ''/'') (alias_base i @ ''/'')"
      then show ?thesis using that below by blast
    next
      assume "prefix (alias_base i @ ''/'') (trim_suffix x ''/'' @ ''/'')"
      then obtain r where r: "trim_suffix x ''/'' @ ''/'' = alias_base i @ sep # r" by (auto simp: prefix_def)
      show ?thesis
      proof (cases r rule: rev_cases)
        case Nil
        then show ?thesis using r that below by simp
      next
        case (snoc r' c)
        then have "trim_suffix x ''/'' = alias_base i @ sep # r'" using r by auto
        then have "\<exists>v. x = alias_base i @ sep # v" using trim_slash_cases [of x] by auto
        then have "\<exists>q. denotes t x q" using below(1) unfolding denotes_def by blast
        with False show ?thesis by blast
      qed
    qed
  next
    case (at_root i)
    have "prefix (trim_suffix x ''/'' @ ''/'') (alias_base i @ ''/'')"
      using pre at_root by (simp add: root_alias_base)
    then show ?thesis using that at_root by blast
  qed
  from i(3) resolved_root [OF assms(1,2)] have "within (b_path (t ! i)) p" by blast
  with False i(1,2) show ?thesis unfolding covers_def by blast
qed

section \<open>Events of executors\<close>

definition alias_allowed :: "string list \<Rightarrow> string \<Rightarrow> bool" where
  "alias_allowed allowed a \<longleftrightarrow> safeAlias a \<and> allowedAlias allowed a"

lemma executor_loop_iff:
  "executor_loop allowed known es = Inr ss \<longleftrightarrow>
     ss = map alias_summary es \<and> list_all event_ok es \<and> distinct (map e_event_id es)
     \<and> set (map e_event_id es) \<inter> set known = {} \<and> (\<forall>e \<in> set es. \<forall>a \<in> set (event_paths e). alias_allowed allowed a)"
proof (induction es arbitrary: known ss)
  case (Cons e es)
  show ?case
    by (auto simp: res_simps validate_event_iff Cons.IH list_ex_iff alias_allowed_def)
qed auto

lemma expand_path_alias:
  "safeAlias a \<Longrightarrow> expand_path os t a = Resolve os t a"
  by (auto simp: expand_path_def safeAlias_def)

lemma expanded_path:
  assumes "expand_summary os t su = Inr su'" "p \<in> set (su_declared_outputs su') \<or> p = su_working_dir su' \<and> p \<noteq> []"
  obtains a where "a \<in> set (su_declared_outputs su) \<or> a = su_working_dir su \<and> a \<noteq> []" "expand_path os t a = Inr p"
proof -
  from assms(1) obtain wd outs where e: "expand_path os t (su_working_dir su) = Inr wd"
      "list_all2 (\<lambda>a p. expand_path os t a = Inr p) (su_declared_outputs su) outs"
      "su' = su\<lparr>su_working_dir := wd, su_declared_outputs := outs\<rparr>"
    by (auto simp: expand_summary_def res_simps map_res_eq_Inr)
  from assms(2) show ?thesis
  proof
    assume "p \<in> set (su_declared_outputs su')"
    then obtain i where "i < length outs" "p = outs ! i" using e(3) by (auto simp: in_set_conv_nth)
    moreover have "i < length (su_declared_outputs su)" using e(2) \<open>i < length outs\<close> by (simp add: list_all2_lengthD)
    ultimately show ?thesis using that [of "su_declared_outputs su ! i"] list_all2_nthD2 [OF e(2)] by simp
  next
    assume "p = su_working_dir su' \<and> p \<noteq> []"
    moreover have "su_working_dir su \<noteq> []" if "wd \<noteq> []"
      using e(1) that by (auto simp: expand_path_def str_contains_def split: if_splits)
    ultimately show ?thesis using that e(1,3) by auto
  qed
qed

section \<open>Reports\<close>

lemma Project_is_alias:
  assumes "project_loop t p = Inr a"
  shows "\<exists>b \<in> set t. alias_matches b a"
  using assms
proof (induction t p rule: project_loop.induct)
  case (2 b bs p)
  then show ?case by (auto simp: alias_matches_def has_prefix_def split: sum.splits if_splits)
qed simp

text \<open>An alias of a bound root or of something below it; never an absolute path.\<close>

definition alias_text :: "alias_table \<Rightarrow> string \<Rightarrow> bool" where
  "alias_text t a \<longleftrightarrow> (\<exists>i < length t. a = root_alias i \<or> (\<exists>v. a = alias_base i @ sep # v))"

lemma alias_text_relative: "alias_text t a \<Longrightarrow> \<not> is_abs a"
  by (auto simp: alias_text_def root_alias_def alias_base_def is_abs_def has_prefix_def split: if_splits)

lemma Project_alias_text: "table_ok t \<Longrightarrow> Project t p = Inr a \<Longrightarrow> alias_text t a"
  using Project_is_alias [of t "path_clean p" a] alias_matches_root
  by (fastforce simp: Project_def alias_text_def in_set_conv_nth table_ok_def)

definition projected :: "alias_table \<Rightarrow> candidate \<Rightarrow> candidate \<Rightarrow> bool" where
  "projected t c c' \<longleftrightarrow> c' = c\<lparr>c_path := c_path c'\<rparr>
     \<and> (if c_path c = [] then c_path c' = [] else Project t (c_path c) = Inr (c_path c'))"

lemma projected_simps [simp]:
  "c_path c = [] \<Longrightarrow> projected t c c" "c_path c \<noteq> [] \<Longrightarrow> Project t (c_path c) = Inr a \<Longrightarrow> projected t c (c\<lparr>c_path := a\<rparr>)"
  by (simp_all add: projected_def)

lemma projected_id: "projected t c c' \<Longrightarrow> c_id c' = c_id c"
  unfolding projected_def by (drule conjunct1, drule arg_cong [of _ _ c_id]) simp

lemma project_candidates_keys:
  assumes "project_candidates t cs ts = Inr (cs', ts')"
  shows "k \<notin> c_id ` set cs \<Longrightarrow> map_of ts' k = map_of ts k"
    and "distinct (map fst ts) \<Longrightarrow> distinct (map fst ts')"
  using assms
proof (induction t cs ts arbitrary: cs' ts' rule: project_candidates.induct)
  case (2 t d cs ts)
  {
    case 1
    then show ?case using "2.IH"(1,3) by (auto simp: res_simps update_conv' split: if_splits)
  next
    case 2
    then show ?case using "2.IH"(2,4) by (auto simp: res_simps distinct_update split: if_splits)
  }
qed auto

lemma project_candidates_spec:
  assumes "project_candidates t cs ts = Inr (cs', ts')"
  shows "list_all2 (projected t) cs cs'"
    and "distinct (map c_id cs) \<Longrightarrow> c \<in> set cs \<Longrightarrow> c_path c \<noteq> [] \<Longrightarrow> map_of ts' (c_id c) = Some (c_path c)"
  using assms
proof (induction t cs ts arbitrary: cs' ts' rule: project_candidates.induct)
  case (2 t d cs ts)
  {
    case 1
    then show ?case using "2.IH"(1,3) by (auto simp: res_simps split: if_splits)
  next
    case 2
    then show ?case using "2.IH"(2,4) project_candidates_keys(1) [of t cs _ _ _ "c_id d"]
      by (auto simp: res_simps update_conv' split: if_splits)
  }
qed auto

lemma cloneTargets_map_of: "map_of (cloneTargets xs) = map_of (rev xs)"
proof -
  have "map_of (fold (\<lambda>(k, v) r. AList.update k v r) xs acc) = map_of acc ++ map_of (rev xs)" for acc
    by (induction xs arbitrary: acc) (auto simp: update_conv fun_eq_iff map_add_def split: option.splits)
  from this [of "[]"] show ?thesis by (cases "xs = []") (simp_all add: cloneTargets_def)
qed

lemma cloneTargets_id: "distinct (map fst xs) \<Longrightarrow> map_of (cloneTargets xs) = map_of xs"
  unfolding cloneTargets_map_of by (subst map_of_inject_set) (simp_all add: rev_map [symmetric])

text \<open>What is stored for a report: every shown path can be traced to the exact path it stands for.\<close>

definition traceable :: "alias_table \<Rightarrow> report \<Rightarrow> report_record \<Rightarrow> bool" where
  "traceable t r rr \<longleftrightarrow> rr_report rr = r \<and> rr_revisions rr = []
     \<and> (\<forall>c \<in> set (r_candidates r). c_path c \<noteq> [] \<longrightarrow>
          (\<exists>x. map_of (rr_exact_targets rr) (c_id c) = Some x \<and> Project t x = Inr (c_path c)))"

lemma projected_traceable:
  assumes "projectReportPaths r0 t = Inr (r, ts)" "distinct (map c_id (r_candidates r))" "table_ok t"
  shows "traceable t r (new_report_record r now d [\<lparr>oe_exact_targets = ts, oe_aliases = al\<rparr>])"
    and "c \<in> set (r_candidates r) \<Longrightarrow> c_path c \<noteq> [] \<Longrightarrow> alias_text t (c_path c)"
proof -
  from assms(1) obtain cs' where p: "project_candidates t (r_candidates r0) [] = Inr (cs', ts)" "r = r0\<lparr>r_candidates := cs'\<rparr>"
    by (auto simp: projectReportPaths_def res_simps)
  note all = project_candidates_spec(1) [OF p(1)]
  have ids: "map c_id cs' = map c_id (r_candidates r0)"
    using all by (induction rule: list_all2_induct) (auto dest: projected_id)
  have ts: "distinct (map fst ts)" using project_candidates_keys(2) [OF p(1)] by simp
  have from_: "\<exists>c0 \<in> set (r_candidates r0). projected t c0 c" if "c \<in> set cs'" for c
    using list_all2_from [OF all that] .
  have one: "\<exists>x. map_of (cloneTargets ts) (c_id c) = Some x \<and> Project t x = Inr (c_path c)" if c: "c \<in> set cs'" "c_path c \<noteq> []" for c
  proof -
    from from_ [OF c(1)] obtain c0 where c0: "c0 \<in> set (r_candidates r0)" "projected t c0 c" by blast
    then have "c_path c0 \<noteq> []" "c_id c = c_id c0" "Project t (c_path c0) = Inr (c_path c)"
      using c(2) projected_id [OF c0(2)] by (auto simp: projected_def split: if_splits)
    moreover have "map_of ts (c_id c0) = Some (c_path c0)"
      using project_candidates_spec(2) [OF p(1) _ c0(1)] \<open>c_path c0 \<noteq> []\<close> assms(2) ids p(2) by simp
    ultimately show ?thesis by (simp add: cloneTargets_id [OF ts])
  qed
  show "traceable t r (new_report_record r now d [\<lparr>oe_exact_targets = ts, oe_aliases = al\<rparr>])"
    using one p(2) by (auto simp: traceable_def new_report_record_def)
  assume "c \<in> set (r_candidates r)" "c_path c \<noteq> []"
  with from_ [of c] p(2) show "alias_text t (c_path c)"
    using Project_alias_text [OF assms(3)] by (auto simp: projected_def split: if_splits)
qed

lemma end_report_spec:
  assumes "end_report L M task events now diff = Inr (r, ts)"
  obtains r0 r1 i where "projectReportPaths r0 (tr_aliases task) = Inr (r, ts)" "r_task_id r = tr_task_id task"
    "r_observation_mode r = tr_observation_mode task" "r_status r \<noteq> ReportObservationFailed"
    "BuildReport (sha256 L) now i = Inr r1" "in_diff i = diff" "r_candidates r0 = r_candidates r1"
proof -
  define h where "h = (processHints events)\<lparr>h_candidate_paths := candidatePaths (df_candidates diff)\<rparr>"
  define found where "found = observed_processes M (bl_scope (tr_baseline task)) h"
  define i where "i = \<lparr>in_task_id = tr_task_id task, in_now = now, in_diff = diff, in_events = events,
     in_processes = excludeBaselineOnlyProcesses (fst found) (tr_process_baseline task) h, in_process_limitations = snd found\<rparr>"
  from assms have "and_then (BuildReport (sha256 L) now i) (\<lambda>r0.
      projectReportPaths (r0\<lparr>r_observation_mode := tr_observation_mode task\<rparr>) (tr_aliases task)) = Inr (r, ts)"
    by (simp add: end_report_def Let_def case_prod_unfold h_def found_def i_def)
  then obtain r0 where i: "BuildReport (sha256 L) now i = Inr r0"
      "projectReportPaths (r0\<lparr>r_observation_mode := tr_observation_mode task\<rparr>) (tr_aliases task) = Inr (r, ts)"
    by (auto simp: res_simps)
  have "r_task_id r = r_task_id r0" "r_observation_mode r = tr_observation_mode task" "r_status r = r_status r0"
    using i(2) by (auto simp: projectReportPaths_def res_simps)
  moreover have "r_task_id r0 = tr_task_id task" "r_status r0 \<noteq> ReportObservationFailed"
    unfolding BuildReport_Inr(1) [OF i(1)] by (simp_all add: report_of_def Let_def i_def)
  moreover have "in_diff i = diff" by (simp add: i_def)
  ultimately show ?thesis using that [OF i(2) _ _ _ i(1)] by simp
qed

text \<open>The two ways a task ends with a report.\<close>

lemma End_cases:
  assumes "End L s M h w = (Inr r, w')"
  obtains (failed) task w1 e w2 where "LoadOwnedTaskForEnd L s h w = (Inr task, w1)"
      "Compare (sha256 L) (mc_os M) no_limits (mc_ctx M) (tr_baseline task) = Inl e" "file_at w2 = file_at w"
      "CompleteOwnedTask L s h r [] w2 = (Inr (), w')" "r_status r = ReportObservationFailed" "r_candidates r = []"
      "r_limitations r = [err_text (na_quote (mc_native M)) e]" "r_task_id r = tr_task_id task" "r_observation_mode r = tr_observation_mode task"
  | (compared) task w1 diff ts w2 r0 r1 i now where "LoadOwnedTaskForEnd L s h w = (Inr task, w1)"
      "Compare (sha256 L) (mc_os M) no_limits (mc_ctx M) (tr_baseline task) = Inr diff" "file_at w2 = file_at w"
      "CompleteOwnedTask L s h r [\<lparr>oe_exact_targets = ts, oe_aliases = tr_aliases task\<rparr>] w2 = (Inr (), w')"
      "projectReportPaths r0 (tr_aliases task) = Inr (r, ts)" "r_status r \<noteq> ReportObservationFailed"
      "r_task_id r = tr_task_id task" "r_observation_mode r = tr_observation_mode task"
      "BuildReport (sha256 L) now i = Inr r1" "in_diff i = diff" "r_candidates r0 = r_candidates r1"
proof -
  from assms obtain task w1 events now w2 where st: "LoadOwnedTaskForEnd L s h w = (Inr task, w1)"
      "now_utc w1 = (Inr now, w2)"
    and rest: "(case Compare (sha256 L) (mc_os M) no_limits (mc_ctx M) (tr_baseline task) of
         Inl err \<Rightarrow> end_failed L s M h task now err
       | Inr diff \<Rightarrow> io_bind (io_lift (end_report L M task events now diff)) (\<lambda>(report, exactTargets).
           io_bind (CompleteOwnedTask L s h report [\<lparr>oe_exact_targets = exactTargets, oe_aliases = tr_aliases task\<rparr>]) (\<lambda>_.
             io_return report))) w2 = (Inr r, w')"
    by (auto simp: End_def io_bind_Inr_iff io_lift_def)
  have "preserves {} (LoadOwnedTaskForEnd L s h)"
    unfolding LoadOwnedTaskForEnd_def by (auto intro!: preserves_bind)
  from keeps_files [OF this st(1)] keeps_files [OF keeps_now_utc st(2)] have f: "file_at w2 = file_at w" by simp
  show ?thesis
  proof (cases "Compare (sha256 L) (mc_os M) no_limits (mc_ctx M) (tr_baseline task)")
    case (Inl e)
    with rest have "CompleteOwnedTask L s h r [] w2 = (Inr (), w')" "r_status r = ReportObservationFailed" "r_candidates r = []"
        "r_limitations r = [err_text (na_quote (mc_native M)) e]" "r_task_id r = tr_task_id task" "r_observation_mode r = tr_observation_mode task"
      by (auto simp: end_failed_def Let_def io_bind_Inr_iff io_try_def io_fail_def io_return_def failureReport_def
          split: prod.splits sum.splits)
    with failed st(1) Inl f show ?thesis by blast
  next
    case (Inr diff)
    with rest obtain ts where c: "end_report L M task events now diff = Inr (r, ts)"
        "CompleteOwnedTask L s h r [\<lparr>oe_exact_targets = ts, oe_aliases = tr_aliases task\<rparr>] w2 = (Inr (), w')"
      by (auto simp: io_bind_Inr_iff io_lift_def io_return_def)
    from c(1) obtain r0 r1 i where "projectReportPaths r0 (tr_aliases task) = Inr (r, ts)" "r_task_id r = tr_task_id task"
      "r_observation_mode r = tr_observation_mode task" "r_status r \<noteq> ReportObservationFailed"
      "BuildReport (sha256 L) now i = Inr r1" "in_diff i = diff" "r_candidates r0 = r_candidates r1" by (rule end_report_spec)
    with compared st(1) Inr f c(2) show ?thesis by blast
  qed
qed

section \<open>Properties\<close>

text \<open>
  C32: The batch of an executor is checked like a specification: it is accepted exactly when it is
  not too long, every event is valid, no event id repeats, and every path it names is a safe
  alias below a delegated root; the result then is exactly the summaries of the events, which keep
  the aliases, in the order of time and id. Nothing else about the events matters.
\<close>

theorem normalizeExecutorEvents_exact:
  "normalizeExecutorEvents events allowed = Inr ss \<longleftrightarrow>
     int (length events) \<le> MaxBatchEvents \<and> list_all event_ok events \<and> distinct (map e_event_id events)
     \<and> list_all (\<lambda>e. list_all (alias_allowed allowed) (event_paths e)) events
     \<and> ss = sort_by summary_less (map alias_summary events)"
  by (auto simp: normalizeExecutorEvents_def res_simps executor_loop_iff list_all_iff)

text \<open>
  C12: Executors stay inside what was delegated: when the paths of an accepted batch are expanded
  for the report, every one of them is a cleaned absolute path inside a bound root whose identity
  is unchanged, and inside a directory that one of the delegated roots covers: the bound root or the path
  below one that its text stands for, whether or not it still exists; a delegated text
  that is no alias but the beginning of some (\<open>temp://\<close>) covers those bound roots.
\<close>

theorem executor_events_confined:
  assumes "normalizeExecutorEvents events allowed = Inr ss" "table_ok t" "expandAliasedEvents os ss t = Inr ss'"
    "su \<in> set ss'" "p \<in> set (su_declared_outputs su) \<or> p = su_working_dir su \<and> p \<noteq> []"
  shows "canonical p
    \<and> (\<exists>b \<in> set t. within (b_path b) p \<and> stableIdentity os (b_path b) = Inr (b_identity b))
    \<and> (\<exists>root \<in> set allowed. \<exists>q. covers t (root_text root) q \<and> within q p)"
proof -
  from assms(1) have ss: "set ss = alias_summary ` set events" and ok: "\<forall>e \<in> set events. \<forall>a \<in> set (event_paths e). alias_allowed allowed a"
    by (auto simp: normalizeExecutorEvents_def res_simps executor_loop_iff)
  from list_all2_from [OF assms(3) [unfolded expandAliasedEvents_def map_res_eq_Inr] assms(4)]
  obtain su0 where su0: "su0 \<in> set ss" "expand_summary os t su0 = Inr su" by blast
  then obtain e where e: "e \<in> set events" "su0 = alias_summary e" using ss by auto
  from su0(2) assms(5) obtain a where a: "a \<in> set (su_declared_outputs su0) \<or> a = su_working_dir su0 \<and> a \<noteq> []"
      "expand_path os t a = Inr p" by (rule expanded_path)
  then have al: "alias_allowed allowed a" using ok e by (auto simp: alias_summary_def event_paths_def)
  then have r: "Resolve os t a = Inr p" using a(2) expand_path_alias by (simp add: alias_allowed_def)
  from al obtain root where root: "root \<in> set allowed" "a = root_text root \<or> has_prefix a (trim_suffix (root_text root) ''/'' @ ''/'')"
    by (auto simp: alias_allowed_def allowedAlias_iff)
  then have "\<exists>q. covers t (root_text root) q \<and> within q p" using delegated_covered [OF assms(2) r] by blast
  with root(1) Resolve_inside [OF assms(2) r] show ?thesis by blast
qed

text \<open>
  C7: Ending a task replaces it by its report: the report is valid by the contract, is about the
  loaded task, and the paths of its candidates are aliases of the bound roots, never absolute; the owner's
  task is gone and in its place the record of exactly this report is stored, in which each shown
  path can be traced to the exact path it stands for. A report of status
  \<open>OBSERVATION_FAILED\<close> shows no candidate and has the text of the error of the comparison as its
  only limitation; that text is not projected to aliases. Relied on: the
  task's alias table is the one made for its scope, and candidate ids do not collide.
\<close>

theorem End_publishes:
  assumes "sound_setting L s ow" "ParseOwner L h = Inr ow" "End L s M h w = (Inr r, w')"
    "fst (LoadOwnedTaskForEnd L s h w) = Inr task" "table_ok (tr_aliases task)" "distinct (map c_id (r_candidates r))"
  shows "validate_report r = Inr () \<and> r_task_id r = tr_task_id task \<and> r_observation_mode r = tr_observation_mode task
    \<and> list_all (\<lambda>c. c_path c = [] \<or> alias_text (tr_aliases task) (c_path c) \<and> \<not> is_abs (c_path c)) (r_candidates r)
    \<and> ov_task (view L s ow (file_at w')) = None
    \<and> (\<exists>rr. ov_report (view L s ow (file_at w')) = stored_report L rr \<and> traceable (tr_aliases task) r rr
         \<and> reportDigest L r = Inr (rr_original_digest rr))
    \<and> (r_status r = ReportObservationFailed \<longrightarrow> r_candidates r = []
         \<and> (\<exists>e. Compare (sha256 L) (mc_os M) no_limits (mc_ctx M) (tr_baseline task) = Inl e
              \<and> r_limitations r = [err_text (na_quote (mc_native M)) e]))"
proof -
  have stored: "validate_report r = Inr () \<and> ov_task (view L s ow (file_at w')) = None
      \<and> (\<exists>rr. ov_report (view L s ow (file_at w')) = stored_report L rr \<and> traceable (tr_aliases task) r rr
         \<and> reportDigest L r = Inr (rr_original_digest rr))"
    if c: "CompleteOwnedTask L s h r ev w2 = (Inr (), w')" and t: "\<And>now d. traceable (tr_aliases task) r (new_report_record r now d ev)" for ev w2
  proof -
    from CompleteOwnedTask_states [OF assms(1,2) c] obtain now d where "reportDigest L r = Inr d" "validate_report r = Inr ()"
        "ov_report (view L s ow (file_at w')) = stored_report L (new_report_record r now d ev)"
        "ov_task (view L s ow (file_at w')) = None" by auto
    moreover have "rr_original_digest (new_report_record r now d ev) = d" by (simp add: new_report_record_def)
    ultimately show ?thesis using t by metis
  qed
  from assms(3) show ?thesis
  proof (cases rule: End_cases)
    case (failed task' w1 e w2)
    have "traceable (tr_aliases task) r (new_report_record r now d [])" for now d
      using failed(6) by (simp add: traceable_def new_report_record_def)
    from stored [OF failed(4) this] failed assms(4) show ?thesis by auto
  next
    case (compared task' w1 diff ts w2 r0 r1 i now)
    have t: "task' = task" using compared(1) assms(4) by simp
    note tr = projected_traceable [OF compared(5) assms(6), unfolded t, OF assms(5)]
    have "list_all (\<lambda>c. c_path c = [] \<or> alias_text (tr_aliases task) (c_path c) \<and> \<not> is_abs (c_path c)) (r_candidates r)"
      unfolding list_all_iff using tr(2) alias_text_relative by blast
    with stored [OF compared(4) [unfolded t] tr(1)] compared t show ?thesis by auto
  qed
qed

section \<open>Witnesses\<close>

definition demo_artifact :: task_event where
  "demo_artifact = \<lparr>e_schema_version = EventSchemaVersion, e_task_id = ''t'', e_event_id = ''e1'', e_type = EventArtifactDeclared,
     e_timestamp = time_of_unix 3, e_working_dir = [], e_command_fingerprint = [], e_exit_code = None, e_process = None,
     e_declared_outputs = [''workspace://out/a.o''], e_receipt_id = []\<rparr>"

definition demo_active :: task_record where
  "demo_active = demo_task\<lparr>tr_aliases := demo_table, tr_baseline := projr (Capture demo_os no_limits no_timeout (time_of_unix 0) demo_validated)\<rparr>"

definition demo_endlib :: storelib where
  "demo_endlib = demo_storelib\<lparr>unjson_task := (\<lambda>_. Some demo_active), json_report_record := (\<lambda>_. Inr ''r'')\<rparr>"

definition demo_sealed_task :: envelope where
  "demo_sealed_task = demo_sealed_report\<lparr>en_record_kind := ''task'', en_ciphertext := b64_encode ''t''\<rparr>"

definition demo_live :: "content world" where
  "demo_live = demo_world\<lparr>w_files := [(ownedTaskPath demo_store (o_opaque_id demo_owner), Env demo_sealed_task)]\<rparr>"

definition demo_changed :: machine where
  "demo_changed = \<lparr>mc_os = demo_os\<lparr>shape := (\<lambda>p. if p = ''/home/dev/repo'' then DDir [(''out'', DLeaf)] else DDir [])\<rparr>,
     mc_ctx = no_timeout, mc_native = demo_adapter\<lparr>na_snapshot := Inr []\<rparr>\<rparr>"

theorem executor_events_confined_witness:
  "canonical ''/home/dev/repo/out/a.o'' \<and> (\<exists>q. covers demo_table ''workspace://out'' q \<and> within q ''/home/dev/repo/out/a.o'')"
proof -
  let ?su = "(alias_summary demo_artifact)\<lparr>su_declared_outputs := [''/home/dev/repo/out/a.o'']\<rparr>"
  have run: "normalizeExecutorEvents [demo_artifact] [''workspace://out''] = Inr [alias_summary demo_artifact]"
    "expandAliasedEvents demo_os [alias_summary demo_artifact] demo_table = Inr [?su]" by code_simp+
  have "table_ok demo_table" using alias_new_table_ok(1) [OF demo_alias_new scope_validate_ok [OF demo_scope_validates demo_getwd]] .
  from executor_events_confined [OF run(1) this run(2), of ?su "''/home/dev/repo/out/a.o''"]
  show ?thesis by (simp add: root_text_def)
qed

text \<open>The directory delegated in the witness.\<close>

lemma demo_denotes: "denotes demo_table ''workspace://out'' ''/home/dev/repo/out''"
proof -
  have "0 < length demo_table" "''workspace://out'' = alias_base 0 @ sep # ''out''"
    "''/home/dev/repo/out'' = abs_path (rel_parts (b_path (demo_table ! 0)) @ filter proper (path_parts ''out''))" by code_simp+
  then show ?thesis unfolding denotes_def by blast
qed

lemma demo_end_run:
  "case fst (End demo_endlib demo_store demo_changed demo_handle demo_live) of
     Inl _ \<Rightarrow> False
   | Inr r \<Rightarrow> distinct (map c_id (r_candidates r)) \<and> map c_path (r_candidates r) = [''workspace://out'']
       \<and> r_status r \<noteq> ReportObservationFailed"
  by code_simp

lemma demo_end_setting:
  "sound_setting demo_endlib demo_store demo_owner" "ParseOwner demo_endlib demo_handle = Inr demo_owner"
  "fst (LoadOwnedTaskForEnd demo_endlib demo_store demo_handle demo_live) = Inr demo_active"
proof -
  show "sound_setting demo_endlib demo_store demo_owner"
    using demo_layout by (auto simp: sound_setting_def demo_owner_def proper_def aead_ok_def demo_endlib_def demo_storelib_def)
  have "ParseOwner demo_endlib demo_handle = ParseOwner demo_storelib demo_handle"
    by (simp add: ParseOwner_def decode_owner_def demo_endlib_def demo_storelib_def)
  then show "ParseOwner demo_endlib demo_handle = Inr demo_owner" by (simp add: demo_parses)
  show "fst (LoadOwnedTaskForEnd demo_endlib demo_store demo_handle demo_live) = Inr demo_active" by code_simp
qed

lemma demo_end_result:
  obtains r where "fst (End demo_endlib demo_store demo_changed demo_handle demo_live) = Inr r"
    "End demo_endlib demo_store demo_changed demo_handle demo_live
       = (Inr r, snd (End demo_endlib demo_store demo_changed demo_handle demo_live))"
    "distinct (map c_id (r_candidates r))" "map c_path (r_candidates r) = [''workspace://out'']"
    "r_status r \<noteq> ReportObservationFailed"
  using demo_end_run by (cases "fst (End demo_endlib demo_store demo_changed demo_handle demo_live)") (auto simp: prod_eq_iff)

theorem End_publishes_witness:
  "\<exists>r. fst (End demo_endlib demo_store demo_changed demo_handle demo_live) = Inr r
     \<and> alias_text demo_table ''workspace://out''
     \<and> ov_task (view demo_endlib demo_store demo_owner (file_at (snd (End demo_endlib demo_store demo_changed demo_handle demo_live)))) = None"
proof (rule demo_end_result)
  fix r
  assume r: "fst (End demo_endlib demo_store demo_changed demo_handle demo_live) = Inr r"
    "End demo_endlib demo_store demo_changed demo_handle demo_live
       = (Inr r, snd (End demo_endlib demo_store demo_changed demo_handle demo_live))"
    "distinct (map c_id (r_candidates r))" "map c_path (r_candidates r) = [''workspace://out'']"
  have "table_ok (tr_aliases demo_active)"
    using alias_new_table_ok(1) [OF demo_alias_new scope_validate_ok [OF demo_scope_validates demo_getwd]] by (simp add: demo_active_def)
  from End_publishes [OF demo_end_setting(1,2) r(2) demo_end_setting(3) this r(3)]
  have p: "list_all (\<lambda>c. c_path c = [] \<or> alias_text (tr_aliases demo_active) (c_path c) \<and> \<not> is_abs (c_path c)) (r_candidates r)"
      "ov_task (view demo_endlib demo_store demo_owner (file_at (snd (End demo_endlib demo_store demo_changed demo_handle demo_live)))) = None"
    by blast+
  have "alias_text (tr_aliases demo_active) ''workspace://out''"
    using p(1) r(4) by (auto simp: map_eq_Cons_conv)
  with r(1) p(2) show ?thesis by (auto simp: demo_active_def)
qed

text \<open>
  The limitation of a failed observation quotes the absolute path of the root: one unreadable
  directory is enough, the whole comparison then fails.
\<close>

definition demo_unreadable :: os_view where
  "demo_unreadable = demo_os\<lparr>shape := (\<lambda>p. if p = ''/home/dev/repo'' then DDir [(''secret'', DUnreadable (ErrOS ''permission denied''))] else DDir [])\<rparr>"

lemma failed_observation_quotes_root:
  "\<exists>e. Compare (\<lambda>x. x) demo_unreadable no_limits no_timeout (tr_baseline demo_active) = Inl e
     \<and> r_limitations (failureReport (\<lambda>x. x) (\<lambda>x. x) ''t'' (time_of_unix 0) e) = [err_text (\<lambda>x. x) e]
     \<and> str_contains (err_text (\<lambda>x. x) e) ''/home/dev/repo''"
proof -
  have "case Compare (\<lambda>x. x) demo_unreadable no_limits no_timeout (tr_baseline demo_active) of
      Inl e \<Rightarrow> str_contains (err_text (\<lambda>x. x) e) ''/home/dev/repo'' | Inr _ \<Rightarrow> False" by code_simp
  then show ?thesis by (auto simp: failureReport_def split: sum.splits)
qed

end
