(* ===== verification/Service_Report.thy ===== *)
theory Service_Report
  imports Service_Alias
begin

text \<open>
  What the report of an ended task contains, end to end: the file candidates of the report the
  service stores are exactly what changed below the roots since the baseline.
\<close>

section \<open>From observed to shown candidates\<close>

lemma processCandidates_path: "c \<in> set (processCandidates sha ev) \<Longrightarrow> c_path c = []"
  by (auto simp: processCandidates_def port_candidate_def Let_def)

lemma bind_candidate_object: "same_object c (bind_candidate es c)"
  using bind_candidate_bound(1) [of es c] by (simp add: bound_to_def)

text \<open>The projection links every candidate with a path to one of the report, and back.\<close>

lemma project_links:
  assumes "projectReportPaths r0 t = Inr (r, ts)" "distinct (map c_id (r_candidates r))"
  shows "c0 \<in> set (r_candidates r0) \<Longrightarrow> c_path c0 \<noteq> [] \<Longrightarrow>
      \<exists>c \<in> set (r_candidates r). projected t c0 c \<and> map_of (cloneTargets ts) (c_id c) = Some (c_path c0)"
    "c \<in> set (r_candidates r) \<Longrightarrow> c_path c \<noteq> [] \<Longrightarrow>
      \<exists>c0 \<in> set (r_candidates r0). c_path c0 \<noteq> [] \<and> projected t c0 c \<and> map_of (cloneTargets ts) (c_id c) = Some (c_path c0)"
    "c \<in> set (r_candidates r) \<Longrightarrow> \<exists>c0 \<in> set (r_candidates r0). projected t c0 c"
proof -
  from assms(1) obtain cs' where p: "project_candidates t (r_candidates r0) [] = Inr (cs', ts)" "r = r0\<lparr>r_candidates := cs'\<rparr>"
    by (auto simp: projectReportPaths_def res_simps)
  note all = project_candidates_spec(1) [OF p(1)]
  have ids: "map c_id cs' = map c_id (r_candidates r0)"
    using all by (induction rule: list_all2_induct) (auto dest: projected_id)
  have clone: "map_of (cloneTargets ts) = map_of ts"
    using project_candidates_keys(2) [OF p(1)] by (intro cloneTargets_id) simp
  have link: "map_of (cloneTargets ts) (c_id c) = Some (c_path c0)"
    if "c0 \<in> set (r_candidates r0)" "projected t c0 c" "c_path c0 \<noteq> []" for c c0
    using project_candidates_spec(2) [OF p(1) _ that(1,3)] assms(2) ids p(2) projected_id [OF that(2)] clone by simp
  { assume c0: "c0 \<in> set (r_candidates r0)" "c_path c0 \<noteq> []"
    then obtain i where "i < length (r_candidates r0)" "c0 = r_candidates r0 ! i" by (auto simp: in_set_conv_nth)
    then have "projected t c0 (cs' ! i)" "cs' ! i \<in> set cs'"
      using all by (auto simp: list_all2_conv_all_nth)
    with link c0 p(2) show "\<exists>c \<in> set (r_candidates r). projected t c0 c \<and> map_of (cloneTargets ts) (c_id c) = Some (c_path c0)"
      by auto }
  { assume "c \<in> set (r_candidates r)"
    then show "\<exists>c0 \<in> set (r_candidates r0). projected t c0 c" using list_all2_from [OF all, of c] p(2) by simp
    moreover assume "c_path c \<noteq> []"
    ultimately show "\<exists>c0 \<in> set (r_candidates r0). c_path c0 \<noteq> [] \<and> projected t c0 c \<and> map_of (cloneTargets ts) (c_id c) = Some (c_path c0)"
      using link by (fastforce simp: projected_def split: if_splits) }
qed

lemma projected_status: "projected t c c' \<Longrightarrow> c_current_status c' = c_current_status c"
  "projected t c c' \<Longrightarrow> c_evidence_level c' = c_evidence_level c"
  unfolding projected_def by (metis candidate.select_convs candidate.update_convs candidate.surjective)+

lemma projected_Project: "projected t c c' \<Longrightarrow> c_path c \<noteq> [] \<Longrightarrow> Project t (c_path c) = Inr (c_path c')"
  by (simp add: projected_def)

lemma report_paths:
  assumes "BuildReport sha clock i = Inr r"
  shows "c0 \<in> set (df_candidates (in_diff i)) \<Longrightarrow> bind_candidate (in_events i) c0 \<in> set (r_candidates r)"
    "c \<in> set (r_candidates r) \<Longrightarrow> c_path c \<noteq> [] \<Longrightarrow> \<exists>c0 \<in> set (df_candidates (in_diff i)). c = bind_candidate (in_events i) c0"
proof -
  show "c0 \<in> set (df_candidates (in_diff i)) \<Longrightarrow> bind_candidate (in_events i) c0 \<in> set (r_candidates r)"
    by (simp add: BuildReport_Inr(1) [OF assms] report_of_def Let_def raw_candidates_def)
  assume c: "c \<in> set (r_candidates r)" "c_path c \<noteq> []"
  from report_candidate [OF assms c(1)] obtain c0 where c0: "c0 \<in> set (raw_candidates sha i)" "c = bind_candidate (in_events i) c0" by blast
  have "c_path c0 \<noteq> []" using c(2) c0(2) bind_candidate_object [of c0 "in_events i"] by (simp add: same_object_def)
  then have "c0 \<in> set (df_candidates (in_diff i))" using c0(1) processCandidates_path by (auto simp: raw_candidates_def)
  with c0(2) show "\<exists>c0 \<in> set (df_candidates (in_diff i)). c = bind_candidate (in_events i) c0" by blast
qed

text \<open>
  Observed and shown candidates correspond, when the service changes at most what is not part of
  the object on the way.
\<close>

lemma shown_links:
  assumes "BuildReport sha clock i = Inr r1" "r_candidates r0 = map f (r_candidates r1)"
    "\<And>c. c_path (f c) = c_path c \<and> c_current_status (f c) = c_current_status c"
    "projectReportPaths r0 t = Inr (r, ts)" "distinct (map c_id (r_candidates r))"
  shows "c0 \<in> set (df_candidates (in_diff i)) \<Longrightarrow> c_path c0 \<noteq> [] \<Longrightarrow>
      \<exists>c \<in> set (r_candidates r). map_of (cloneTargets ts) (c_id c) = Some (c_path c0)
        \<and> Project t (c_path c0) = Inr (c_path c) \<and> c_current_status c = c_current_status c0"
    "c \<in> set (r_candidates r) \<Longrightarrow> c_path c \<noteq> [] \<Longrightarrow>
      \<exists>c0 \<in> set (df_candidates (in_diff i)). map_of (cloneTargets ts) (c_id c) = Some (c_path c0)
        \<and> Project t (c_path c0) = Inr (c_path c) \<and> c_current_status c = c_current_status c0"
proof -
  note links = project_links [OF assms(4,5)]
  note paths = report_paths [OF assms(1)]
  have obj: "c_path (f (bind_candidate es c)) = c_path c" "c_current_status (f (bind_candidate es c)) = c_current_status c" for es c
    using bind_candidate_object [of c es] by (simp_all add: assms(3) same_object_def)
  { assume c0: "c0 \<in> set (df_candidates (in_diff i))" "c_path c0 \<noteq> []"
    let ?c = "f (bind_candidate (in_events i) c0)"
    have "?c \<in> set (r_candidates r0)" "c_path ?c \<noteq> []" using paths(1) [OF c0(1)] c0(2) by (simp_all add: assms(2) obj)
    from links(1) [OF this] obtain c where "c \<in> set (r_candidates r)" "projected t ?c c" "map_of (cloneTargets ts) (c_id c) = Some (c_path c0)"
      by (auto simp: obj)
    then show "\<exists>c \<in> set (r_candidates r). map_of (cloneTargets ts) (c_id c) = Some (c_path c0)
        \<and> Project t (c_path c0) = Inr (c_path c) \<and> c_current_status c = c_current_status c0"
      using projected_status(1) [of t ?c c] projected_Project [of t ?c c] c0(2) by (auto simp: obj) }
  assume c: "c \<in> set (r_candidates r)" "c_path c \<noteq> []"
  from links(2) [OF c] obtain u where u: "u \<in> set (r_candidates r0)" "c_path u \<noteq> []" "projected t u c"
      "map_of (cloneTargets ts) (c_id c) = Some (c_path u)" by blast
  from u(1) obtain c1 where c1: "c1 \<in> set (r_candidates r1)" "u = f c1" unfolding assms(2) by auto
  with u(2) have "c_path c1 \<noteq> []" by (simp add: assms(3))
  from paths(2) [OF c1(1) this] obtain c0 where c0: "c0 \<in> set (df_candidates (in_diff i))" "c1 = bind_candidate (in_events i) c0" by blast
  have "c_path u = c_path c0" "c_current_status u = c_current_status c0" unfolding c1(2) c0(2) by (simp_all add: obj)
  with c0(1) u(4) projected_status(1) [OF u(3)] projected_Project [OF u(3,2)]
  show "\<exists>c0 \<in> set (df_candidates (in_diff i)). map_of (cloneTargets ts) (c_id c) = Some (c_path c0)
        \<and> Project t (c_path c0) = Inr (c_path c) \<and> c_current_status c = c_current_status c0" by auto
qed

section \<open>The residue of a task\<close>

text \<open>The state of an object now is the one its baseline entry records.\<close>

definition unchanged :: "entry \<Rightarrow> finfo \<Rightarrow> bool" where
  "unchanged b info \<longleftrightarrow> objectIdentity info = Inr (en_identity b) \<and> fi_size info = en_size b
     \<and> t_ns (fi_mtime info) = t_ns (en_mod_time b) \<and> fi_mode info = en_mode b"

text \<open>
  What a task left at a path below a root of its scope: an object the baseline does not have, or
  one that changed since.
\<close>

definition residue :: "os_view \<Rightarrow> fs_baseline \<Rightarrow> nat \<Rightarrow> string \<Rightarrow> current_status \<Rightarrow> bool" where
  "residue os b j q st \<longleftrightarrow>
     (\<exists>rel info. path_rel (rt_path (vs_roots (bl_scope b) ! j)) q = Inr rel \<and> lstat os q = Inr info
        \<and> (case map_of (bl_entries b) (entryKey (int j) rel) of
             None \<Rightarrow> st = StatusPresent
           | Some before \<Rightarrow> st = StatusChangedSinceReport \<and> \<not> unchanged before info))"

lemma entry_same_state:
  assumes "entry_ok os i r k e" "lstat os (en_path e) = Inr info"
  shows "same_state e b \<longleftrightarrow> unchanged b info"
  using assms by (auto simp: entry_ok_def same_state_def unchanged_def time_utc_def)

lemma Compare_residue:
  assumes "Compare sha os (NewObserver l) ctx b = Inr d" "scope_ok os (bl_scope b)" "listings_ok os (vs_roots (bl_scope b))"
  shows "j < length (vs_roots (bl_scope b)) \<Longrightarrow> q \<in> set (root_paths os (vs_roots (bl_scope b) ! j)) \<Longrightarrow>
      q \<noteq> rt_path (vs_roots (bl_scope b) ! j) \<Longrightarrow> residue os b j q st \<Longrightarrow>
      \<exists>c \<in> set (df_candidates d). c_path c = q \<and> c_current_status c = st"
    "c \<in> set (df_candidates d) \<Longrightarrow> c_path c \<noteq> [] \<and> (\<exists>j < length (vs_roots (bl_scope b)). residue os b j (c_path c) (c_current_status c))"
proof -
  let ?rs = "vs_roots (bl_scope b)"
  have pos: "0 \<le> lm_max_entries (NewObserver l)" "0 \<le> lm_max_bytes (NewObserver l)"
    using NewObserver_pos [of l] by simp_all
  from assms(1) obtain cur where c: "snapshot os (NewObserver l) ctx (bl_scope b) = Inr (cur, bl_root_ids b)"
    and d: "set (df_candidates d) = {c. \<exists>(k, e) \<in> set cur. diff_entry sha (map_of (bl_entries b) k) e = Some c}"
    by (auto simp: Compare_Inr set_diff_candidates)
  { assume j: "j < length ?rs" and q: "q \<in> set (root_paths os (?rs ! j))" "q \<noteq> rt_path (?rs ! j)" and res: "residue os b j q st"
    from snapshot_complete [OF c assms(2,3) pos j q] obtain e rel where e: "path_rel (rt_path (?rs ! j)) q = Inr rel"
        "map_of cur (entryKey (int j) rel) = Some e" "en_path e = q" "entry_in os ?rs (entryKey (int j) rel) e" by blast
    then obtain i where ok: "entry_ok os (int i) (rt_path (?rs ! i)) (entryKey (int j) rel) e" by (auto simp: entry_in_def)
    from res e(1) obtain info where info: "lstat os q = Inr info" "case map_of (bl_entries b) (entryKey (int j) rel) of
             None \<Rightarrow> st = StatusPresent | Some before \<Rightarrow> st = StatusChangedSinceReport \<and> \<not> unchanged before info"
      by (auto simp: residue_def)
    have "same_state e b' \<longleftrightarrow> unchanged b' info" for b' using entry_same_state [OF ok] info(1) e(3) by simp
    then obtain c where "diff_entry sha (map_of (bl_entries b) (entryKey (int j) rel)) e = Some c" "c_path c = q" "c_current_status c = st"
      using info(2) e(3) by (cases "map_of (bl_entries b) (entryKey (int j) rel)") (auto simp: diff_entry_def)
    with map_of_SomeD [OF e(2)] show "\<exists>c \<in> set (df_candidates d). c_path c = q \<and> c_current_status c = st"
      unfolding d by blast }
  assume "c \<in> set (df_candidates d)"
  then obtain k e where e: "(k, e) \<in> set cur" "diff_entry sha (map_of (bl_entries b) k) e = Some c" unfolding d by auto
  with snapshot_facts(3) [OF c assms(2,3) pos] obtain j where j: "j < length ?rs" "entry_ok os (int j) (rt_path (?rs ! j)) k e"
    by (auto simp: entry_in_def)
  from j(2) obtain info where i: "lstat os (en_path e) = Inr info" by (auto simp: entry_ok_def)
  have "c_path c = en_path e" using e(2) by (auto simp: diff_entry_def split: option.splits if_splits)
  moreover have "canonical (en_path e)" using j(2) by (simp add: entry_ok_def)
  then have "en_path e \<noteq> []" by (auto simp: canonical_def abs_path_def)
  moreover have "residue os b j (en_path e) (c_current_status c)"
    using e(2) j(2) i entry_same_state [OF j(2) i]
    by (auto simp: residue_def entry_ok_def diff_entry_def split: option.splits if_splits)
  ultimately show "c_path c \<noteq> [] \<and> (\<exists>j < length ?rs. residue os b j (c_path c) (c_current_status c))" using j(1) by auto
qed

lemma End_residue:
  assumes "sound_setting L s ow" "ParseOwner L h = Inr ow" "End L s M h w = (Inr r, w')"
    "fst (LoadOwnedTaskForEnd L s h w) = Inr task" "distinct (map c_id (r_candidates r))" "r_status r \<noteq> ReportObservationFailed"
    "scope_ok (mc_os M) (bl_scope (tr_baseline task))" "listings_ok (mc_os M) (vs_roots (bl_scope (tr_baseline task)))"
  shows "\<exists>rr. ov_report (view L s ow (file_at w')) = stored_report L rr \<and> rr_report rr = r
    \<and> (\<forall>j q st. j < length (vs_roots (bl_scope (tr_baseline task)))
         \<and> q \<in> set (root_paths (mc_os M) (vs_roots (bl_scope (tr_baseline task)) ! j))
         \<and> q \<noteq> rt_path (vs_roots (bl_scope (tr_baseline task)) ! j) \<and> residue (mc_os M) (tr_baseline task) j q st
         \<longrightarrow> (\<exists>c \<in> set (r_candidates r). map_of (rr_exact_targets rr) (c_id c) = Some q
               \<and> Project (tr_aliases task) q = Inr (c_path c) \<and> c_current_status c = st))
    \<and> (\<forall>c \<in> set (r_candidates r). c_path c \<noteq> [] \<longrightarrow>
         (\<exists>q. map_of (rr_exact_targets rr) (c_id c) = Some q \<and> Project (tr_aliases task) q = Inr (c_path c)
            \<and> (\<exists>j < length (vs_roots (bl_scope (tr_baseline task))). residue (mc_os M) (tr_baseline task) j q (c_current_status c))))"
  using assms(3)
proof (cases rule: End_cases)
  case (compared task' w1 diff ts w2 r0 r1 i now)
  have t: "task' = task" using compared(1) assms(4) by simp
  let ?ev = "[\<lparr>oe_exact_targets = ts, oe_aliases = tr_aliases task\<rparr>]"
  from CompleteOwnedTask_states [OF assms(1,2) compared(4)] obtain now' dg where
    rr: "ov_report (view L s ow (file_at w')) = stored_report L (new_report_record r now' dg ?ev)" unfolding t by auto
  have tg: "rr_exact_targets (new_report_record r now' dg ?ev) = cloneTargets ts" by (simp add: new_report_record_def)
  note res = Compare_residue [OF compared(2) [unfolded t no_limits_def] assms(7,8)]
  have same: "r_candidates r0 = map (\<lambda>c. c) (r_candidates r1)" by (simp add: compared(11))
  note shown = shown_links [OF compared(9) same conjI [OF refl refl] compared(5) [unfolded t] assms(5), unfolded compared(10)]
  have fwd: "\<exists>c \<in> set (r_candidates r). map_of (cloneTargets ts) (c_id c) = Some q
      \<and> Project (tr_aliases task) q = Inr (c_path c) \<and> c_current_status c = st"
    if "j < length (vs_roots (bl_scope (tr_baseline task)))" "q \<in> set (root_paths (mc_os M) (vs_roots (bl_scope (tr_baseline task)) ! j))"
      "q \<noteq> rt_path (vs_roots (bl_scope (tr_baseline task)) ! j)" "residue (mc_os M) (tr_baseline task) j q st" for j q st
  proof -
    from res(1) [OF that] obtain c0 where c0: "c0 \<in> set (df_candidates diff)" "c_path c0 = q" "c_current_status c0 = st" by blast
    with shown(1) [OF c0(1)] res(2) [OF c0(1)] show ?thesis by auto
  qed
  have bwd: "\<exists>q. map_of (cloneTargets ts) (c_id c) = Some q \<and> Project (tr_aliases task) q = Inr (c_path c)
      \<and> (\<exists>j < length (vs_roots (bl_scope (tr_baseline task))). residue (mc_os M) (tr_baseline task) j q (c_current_status c))"
    if c: "c \<in> set (r_candidates r)" "c_path c \<noteq> []" for c
    using shown(2) [OF c] res(2) by fastforce
  show ?thesis
  proof (intro exI [of _ "new_report_record r now' dg ?ev"] conjI allI ballI impI)
    show "rr_report (new_report_record r now' dg ?ev) = r" by (simp add: new_report_record_def)
  qed (use rr fwd bwd in \<open>unfold tg, blast+\<close>)
qed (use assms(6) in simp)

section \<open>The report of a task\<close>

text \<open>
  C6: The report of an ended task names exactly what the task left behind: when the comparison
  with the baseline succeeded, every object now below a root of the scope that the baseline does
  not have, or that differs from its baseline entry in identity, size, modification time or mode,
  is a candidate of the stored report, under the alias of its path, with its exact path recorded
  for the owner and the status new or changed; and every candidate with a path is such an object.
  Relied on: candidate ids differ, directory listings hold proper file names, and the roots are
  still directories.
\<close>

theorem End_reports_residue:
  assumes "sound_setting L s ow" "ParseOwner L h = Inr ow" "End L s M h w = (Inr r, w')"
    "fst (LoadOwnedTaskForEnd L s h w) = Inr task" "distinct (map c_id (r_candidates r))" "r_status r \<noteq> ReportObservationFailed"
    "scope_ok (mc_os M) (bl_scope (tr_baseline task))" "listings_ok (mc_os M) (vs_roots (bl_scope (tr_baseline task)))"
  shows "\<exists>rr. ov_report (view L s ow (file_at w')) = stored_report L rr \<and> rr_report rr = r
    \<and> (\<forall>j q st. j < length (vs_roots (bl_scope (tr_baseline task)))
         \<and> q \<in> set (root_paths (mc_os M) (vs_roots (bl_scope (tr_baseline task)) ! j))
         \<and> q \<noteq> rt_path (vs_roots (bl_scope (tr_baseline task)) ! j) \<and> residue (mc_os M) (tr_baseline task) j q st
         \<longrightarrow> (\<exists>c \<in> set (r_candidates r). map_of (rr_exact_targets rr) (c_id c) = Some q
               \<and> Project (tr_aliases task) q = Inr (c_path c) \<and> c_current_status c = st))
    \<and> (\<forall>c \<in> set (r_candidates r). c_path c \<noteq> [] \<longrightarrow>
         (\<exists>q. map_of (rr_exact_targets rr) (c_id c) = Some q \<and> Project (tr_aliases task) q = Inr (c_path c)
            \<and> (\<exists>j < length (vs_roots (bl_scope (tr_baseline task))). residue (mc_os M) (tr_baseline task) j q (c_current_status c))))"
  by (rule End_residue [OF assms])

lemma demo_active_tree:
  "bl_scope (tr_baseline demo_active) = demo_validated" "tr_aliases demo_active = demo_table"
  "residue (mc_os demo_changed) (tr_baseline demo_active) 0 ''/home/dev/repo/out'' StatusPresent"
proof -
  have "is_ok (Capture demo_os no_limits no_timeout (time_of_unix 0) demo_validated)" by code_simp
  from Capture_scope [OF is_ok_projr [OF this]] show "bl_scope (tr_baseline demo_active) = demo_validated"
    by (simp add: demo_active_def)
  then have "path_rel (rt_path (vs_roots (bl_scope (tr_baseline demo_active)) ! 0)) ''/home/dev/repo/out'' = Inr ''out''"
    by (simp add: demo_validated_def) code_simp
  moreover have "bl_entries (tr_baseline demo_active) = []" by code_simp
  ultimately show "residue (mc_os demo_changed) (tr_baseline demo_active) 0 ''/home/dev/repo/out'' StatusPresent"
    by (simp add: residue_def demo_changed_def demo_os_def)
  show "tr_aliases demo_active = demo_table" by (simp add: demo_active_def)
qed

theorem End_reports_residue_witness:
  "\<exists>r c. fst (End demo_endlib demo_store demo_changed demo_handle demo_live) = Inr r \<and> c \<in> set (r_candidates r)
     \<and> Project demo_table ''/home/dev/repo/out'' = Inr (c_path c) \<and> c_current_status c = StatusPresent"
proof (rule demo_end_result)
  fix r
  assume r: "fst (End demo_endlib demo_store demo_changed demo_handle demo_live) = Inr r"
    "End demo_endlib demo_store demo_changed demo_handle demo_live
       = (Inr r, snd (End demo_endlib demo_store demo_changed demo_handle demo_live))"
    "distinct (map c_id (r_candidates r))" "r_status r \<noteq> ReportObservationFailed"
  have tree: "scope_ok (mc_os demo_changed) (bl_scope (tr_baseline demo_active))"
    unfolding demo_active_tree by (rule demo_scope_ok) (simp add: demo_changed_def demo_os_def)
  have ls: "listings_ok (mc_os demo_changed) (vs_roots (bl_scope (tr_baseline demo_active)))"
    unfolding demo_active_tree by (simp add: demo_changed_def listings_ok_def demo_validated_def proper_def)
  note main = End_reports_residue [OF demo_end_setting(1,2) r(2) demo_end_setting(3) r(3,4) tree ls, unfolded demo_active_tree]
  from main obtain rr :: report_record where all: "\<forall>j q st. j < length (vs_roots demo_validated)
         \<and> q \<in> set (root_paths (mc_os demo_changed) (vs_roots demo_validated ! j))
         \<and> q \<noteq> rt_path (vs_roots demo_validated ! j) \<and> residue (mc_os demo_changed) (tr_baseline demo_active) j q st
         \<longrightarrow> (\<exists>c \<in> set (r_candidates r). map_of (rr_exact_targets rr) (c_id c) = Some q
               \<and> Project demo_table q = Inr (c_path c) \<and> c_current_status c = st)"
    by (elim exE conjE) (rule that, assumption)
  have "0 < length (vs_roots demo_validated) \<and> ''/home/dev/repo/out'' \<in> set (root_paths (mc_os demo_changed) (vs_roots demo_validated ! 0))
      \<and> ''/home/dev/repo/out'' \<noteq> rt_path (vs_roots demo_validated ! 0)"
    by code_simp
  then have "\<exists>c \<in> set (r_candidates r). map_of (rr_exact_targets rr) (c_id c) = Some ''/home/dev/repo/out''
      \<and> Project demo_table ''/home/dev/repo/out'' = Inr (c_path c) \<and> c_current_status c = StatusPresent"
    using demo_active_tree(3) by (intro all [rule_format]) (elim conjE, intro conjI)
  then obtain c :: candidate where "c \<in> set (r_candidates r)" "Project demo_table ''/home/dev/repo/out'' = Inr (c_path c)" "c_current_status c = StatusPresent"
    by (elim bexE conjE) (rule that, assumption)
  with r(1) show ?thesis by (intro exI conjI)
qed

end
