(* ===== verification/Service_Retro.thy ===== *)
theory Service_Retro
  imports Service_Report
begin

text \<open>
  Retrospective inspection, end to end: a grant yields one report, whose file candidates are
  exactly the objects below the granted roots that were modified in the granted window, never
  claimed as observed against a baseline; the grant is consumed by it.
\<close>

section \<open>Consuming a grant\<close>

text \<open>
  Completing a grant changes nothing, or stores the report; after a success the grant is gone.
\<close>

lemma CompleteRetrospectiveGrant_states:
  assumes "sound_setting L s ow" "ParseOwner L h = Inr ow" "CompleteRetrospectiveGrant L s h r ev w = (res, w')"
  shows "(\<exists>e. res = Inl e) \<and> view L s ow (file_at w') = view L s ow (file_at w)
    \<or> (\<exists>now d. reportDigest L r = Inr d \<and> validate_report r = Inr ()
         \<and> ov_report (view L s ow (file_at w')) = stored_report L (new_report_record r now d [ev])
         \<and> ov_task (view L s ow (file_at w')) = ov_task (view L s ow (file_at w))
         \<and> (ov_grant (view L s ow (file_at w')) = None
            \<or> (\<exists>e. res = Inl e) \<and> ov_grant (view L s ow (file_at w')) = ov_grant (view L s ow (file_at w))))"
proof -
  let ?v = "view L s ow (file_at w)"
  define G where "G r' v' \<longleftrightarrow> (\<exists>e. r' = Inl e) \<and> v' = ?v
    \<or> (\<exists>now d. reportDigest L r = Inr d \<and> validate_report r = Inr ()
         \<and> ov_report v' = stored_report L (new_report_record r now d [ev]) \<and> ov_task v' = ov_task ?v
         \<and> (ov_grant v' = None \<or> (\<exists>e. r' = Inl e) \<and> ov_grant v' = ov_grant ?v))" for r' :: "unit res" and v'
  have err: "G (Inl e) ?v" for e by (simp add: G_def)
  have tail: "seen (view L s ow) (?v\<lparr>ov_report := stored_report L (new_report_record r now d [ev])\<rparr>)
      (io_bind (os_remove (ownedGrantPath s (o_opaque_id ow))) (\<lambda>_. syncDirectory (st_grants_dir s))) G"
    if "reportDigest L r = Inr d" "validate_report r = Inr ()" for now d
  proof (rule seen_then [OF seen_remove(3) [OF assms(1)]])
    let ?u = "?v\<lparr>ov_report := stored_report L (new_report_record r now d [ev])\<rparr>"
    show "G (Inl e) ?u" for e using that unfolding G_def by (intro disjI2 exI [of _ now] exI [of _ d]) auto
    have fin: "G r' (?u\<lparr>ov_grant := None\<rparr>)" for r' using that unfolding G_def by (intro disjI2 exI [of _ now] exI [of _ d]) auto
    show "G (Inl e) (?u\<lparr>ov_grant := None\<rparr>)" for e by (rule fin)
    show "seen (view L s ow) (?u\<lparr>ov_grant := None\<rparr>) (syncDirectory (st_grants_dir s)) G"
      by (intro seen_keeps [OF keeps_sync] fin)
  qed
  have "seen (view L s ow) ?v (CompleteRetrospectiveGrant L s h r ev) G"
    unfolding CompleteRetrospectiveGrant_def writeOwned_def
  proof (intro seen_owner [OF assms(2)] seen_open_grant seen_if seen_stop seen_clock seen_lift err)
    fix g now d assume ok: "\<not> (r_task_id r \<noteq> s_task_id (rg_scope g) \<or> validate_report r \<noteq> Inr ())" "reportDigest L r = Inr d"
    show "seen (view L s ow) ?v (io_bind (writeOwnedProtected L (ownedReportPath s (o_opaque_id ow)) ''report'' ow 0 now
        (time_add now (cf_retention (st_config s))) False (json_report_record L (new_report_record r now d [ev]))) (\<lambda>_.
       io_bind (os_remove (ownedGrantPath s (o_opaque_id ow))) (\<lambda>_. syncDirectory (st_grants_dir s)))) G"
    proof (rule seen_then [OF seen_write(2) [OF assms(1)]])
      show "G (Inl e) (?v\<lparr>ov_report := stored_report L (new_report_record r now d [ev])\<rparr>)" for e
        using ok unfolding G_def by auto
    qed (use tail ok err in auto)
  qed
  then have "after (file_at w) (CompleteRetrospectiveGrant L s h r ev) (\<lambda>r' fm'. G r' (view L s ow fm'))" by (simp add: seen_def)
  from afterD [OF this refl assms(3)] show ?thesis unfolding G_def .
qed

text \<open>A grant that is not there is not opened, whatever else the machine does.\<close>

lemma open_grant_denied: "cf_clock (st_config s) \<noteq> None \<Longrightarrow> fails_with (\<lambda>e. e = ErrAccessDenied) (open_grant L s ow)"
  unfolding open_grant_def by (auto intro!: fails_with_bind fails_with_denied fails_with_clock)

lemma Inspect_without_grant:
  assumes "cf_clock (st_config s) \<noteq> None" "ParseOwner L h = Inr ow" "ov_grant (view L s ow (file_at w)) = None"
  shows "fst (InspectCompletedAuthorized L s M h events w) = Inl ErrAccessDenied"
proof -
  obtain r w' where o: "open_grant L s ow w = (r, w')" by (cases "open_grant L s ow w")
  then have "r = Inl ErrAccessDenied"
    using open_grant_denied [OF assms(1), of L ow] open_grant_view [of L s ow w] assms(3) by (cases r) (auto simp: fails_with_def)
  with o assms(2) show ?thesis
    by (simp add: InspectCompletedAuthorized_def LoadRetrospectiveGrant_def io_bind_def or_denied_def io_lift_def)
qed

section \<open>What the window selects\<close>

text \<open>An object that was last modified in a window, both ends included.\<close>

definition modified_within :: "os_view \<Rightarrow> gtime \<Rightarrow> gtime \<Rightarrow> string \<Rightarrow> bool" where
  "modified_within os a b q \<longleftrightarrow>
     (\<exists>info. lstat os q = Inr info \<and> t_ns a \<le> t_ns (fi_mtime info) \<and> t_ns (fi_mtime info) \<le> t_ns b)"

text \<open>
  A stored report that shows a window: every object met below the roots that was modified in it is
  a candidate, under the alias of its path and with its exact path recorded; every candidate with
  a path is such an object, strictly below a root.
\<close>

definition shows_window :: "os_view \<Rightarrow> root list \<Rightarrow> gtime \<Rightarrow> gtime \<Rightarrow> alias_table \<Rightarrow> report_record \<Rightarrow> bool" where
  "shows_window os roots a b al rr \<longleftrightarrow>
     (\<forall>j q. j < length roots \<and> q \<in> set (root_paths os (roots ! j)) \<and> q \<noteq> rt_path (roots ! j) \<and> modified_within os a b q
        \<longrightarrow> (\<exists>c \<in> set (r_candidates (rr_report rr)). map_of (rr_exact_targets rr) (c_id c) = Some q \<and> Project al q = Inr (c_path c)))
     \<and> (\<forall>c \<in> set (r_candidates (rr_report rr)). c_path c \<noteq> [] \<longrightarrow> alias_text al (c_path c)
        \<and> (\<exists>q. map_of (rr_exact_targets rr) (c_id c) = Some q \<and> Project al q = Inr (c_path c) \<and> modified_within os a b q
             \<and> (\<exists>root \<in> set roots. below (rt_path root) q \<and> q \<noteq> rt_path root)))"

lemma retro_exact:
  assumes "Capture os (NewObserver l) ctx now v = Inr b" "scope_ok os v" "listings_ok os (vs_roots v)"
  shows "j < length (vs_roots v) \<Longrightarrow> q \<in> set (root_paths os (vs_roots v ! j)) \<Longrightarrow> q \<noteq> rt_path (vs_roots v ! j) \<Longrightarrow>
      modified_within os t0 t1 q \<Longrightarrow>
      \<exists>c \<in> set (retrospectiveCandidates sha b (time_utc t0) (time_utc t1)). c_path c = q"
    "c \<in> set (retrospectiveCandidates sha b (time_utc t0) (time_utc t1)) \<Longrightarrow>
      modified_within os t0 t1 (c_path c) \<and> c_path c \<noteq> [] \<and> c_current_status c = StatusPresent
      \<and> (\<exists>root \<in> set (vs_roots v). below (rt_path root) (c_path c) \<and> c_path c \<noteq> rt_path root)"
proof -
  have pos: "0 \<le> lm_max_entries (NewObserver l)" "0 \<le> lm_max_bytes (NewObserver l)"
    using NewObserver_pos [of l] by simp_all
  from assms(1) obtain ids where s: "snapshot os (NewObserver l) ctx v = Inr (bl_entries b, ids)"
    by (auto simp: Capture_def res_simps)
  have mem: "c \<in> set (retrospectiveCandidates sha b (time_utc t0) (time_utc t1)) \<longleftrightarrow>
      (\<exists>k e. (k, e) \<in> set (bl_entries b) \<and> c = retro_candidate sha e
         \<and> t_ns t0 \<le> t_ns (en_mod_time e) \<and> t_ns (en_mod_time e) \<le> t_ns t1)" for c
    by (auto simp: retrospectiveCandidates_def time_before_def time_after_def time_utc_def not_less)
  have info: "modified_within os t0 t1 (en_path e) \<longleftrightarrow> t_ns t0 \<le> t_ns (en_mod_time e) \<and> t_ns (en_mod_time e) \<le> t_ns t1"
    if "entry_ok os i r k e" for i r k e
    using that by (auto simp: entry_ok_def modified_within_def time_utc_def)
  { assume j: "j < length (vs_roots v)" "q \<in> set (root_paths os (vs_roots v ! j))" "q \<noteq> rt_path (vs_roots v ! j)"
      and m: "modified_within os t0 t1 q"
    from snapshot_complete [OF s assms(2,3) pos j] obtain e rel where e: "map_of (bl_entries b) (entryKey (int j) rel) = Some e"
        "en_path e = q" "entry_in os (vs_roots v) (entryKey (int j) rel) e" by blast
    then obtain i r where "entry_ok os i r (entryKey (int j) rel) e" by (auto simp: entry_in_def)
    with info m e(2) map_of_SomeD [OF e(1)] have "retro_candidate sha e \<in> set (retrospectiveCandidates sha b (time_utc t0) (time_utc t1))"
      unfolding mem by blast
    moreover have "c_path (retro_candidate sha e) = q" using e(2) by (simp add: retro_candidate_def)
    ultimately show "\<exists>c \<in> set (retrospectiveCandidates sha b (time_utc t0) (time_utc t1)). c_path c = q" by blast }
  assume "c \<in> set (retrospectiveCandidates sha b (time_utc t0) (time_utc t1))"
  then obtain k e where e: "(k, e) \<in> set (bl_entries b)" "c = retro_candidate sha e"
      "t_ns t0 \<le> t_ns (en_mod_time e)" "t_ns (en_mod_time e) \<le> t_ns t1" unfolding mem by blast
  with snapshot_facts(3) [OF s assms(2,3) pos] obtain i where i: "i < length (vs_roots v)"
      "entry_ok os (int i) (rt_path (vs_roots v ! i)) k e" by (auto simp: entry_in_def)
  have "canonical (en_path e)" using i(2) by (simp add: entry_ok_def)
  then have "en_path e \<noteq> []" by (auto simp: canonical_def abs_path_def)
  moreover have "below (rt_path (vs_roots v ! i)) (en_path e)" "en_path e \<noteq> rt_path (vs_roots v ! i)"
    using i(2) by (auto simp: entry_ok_def below_def)
  moreover have "vs_roots v ! i \<in> set (vs_roots v)" using i(1) by simp
  ultimately show "modified_within os t0 t1 (c_path c) \<and> c_path c \<noteq> [] \<and> c_current_status c = StatusPresent
      \<and> (\<exists>root \<in> set (vs_roots v). below (rt_path root) (c_path c) \<and> c_path c \<noteq> rt_path root)"
    using e info [OF i(2)] by (auto simp: retro_candidate_def)
qed

section \<open>The retrospective report\<close>

lemma unattributed_object:
  "c_path (unattributed c) = c_path c" "c_current_status (unattributed c) = c_current_status c"
  "c_evidence_level (unattributed c) \<noteq> EvidenceBaselineObserved"
  by (simp_all add: unattributed_def)

lemma retro_report_spec:
  assumes "retro_report L M v g ss b now = Inr r0"
  obtains i r1 where "BuildReport (sha256 L) now i = Inr r1" "r_candidates r0 = map unattributed (r_candidates r1)"
    "df_candidates (in_diff i) = retrospectiveCandidates (sha256 L) b (time_utc (rg_started_at g)) (time_utc (rg_ended_at g))"
    "r_task_id r0 = s_task_id (rg_scope g)" "r_status r0 = ReportPartialEvidence"
    "r_observation_mode r0 = ObservationRetrospective" "retro_limitation \<in> set (r_limitations r0)"
proof -
  define diff where "diff = \<lparr>df_candidates = retrospectiveCandidates (sha256 L) b
       (time_utc (rg_started_at g)) (time_utc (rg_ended_at g)), df_removed = [], df_limitations = [retro_limitation]\<rparr>"
  define found where "found = observed_processes M v ((processHints ss)\<lparr>h_candidate_paths := candidatePaths (df_candidates diff)\<rparr>)"
  define i where "i = \<lparr>in_task_id = s_task_id (rg_scope g), in_now = now, in_diff = diff, in_events = ss,
     in_processes = fst found, in_process_limitations = snd found\<rparr>"
  from assms have "and_then (BuildReport (sha256 L) now i) (\<lambda>r. Inr (r\<lparr>r_candidates := map unattributed (r_candidates r),
      r_observation_mode := ObservationRetrospective\<rparr>)) = Inr r0"
    by (simp add: retro_report_def Let_def case_prod_unfold diff_def found_def i_def)
  then obtain r1 where r1: "BuildReport (sha256 L) now i = Inr r1"
      "r0 = r1\<lparr>r_candidates := map unattributed (r_candidates r1), r_observation_mode := ObservationRetrospective\<rparr>"
    by (auto simp: res_simps)
  have "r_task_id r1 = s_task_id (rg_scope g)" "r_status r1 = ReportPartialEvidence" "retro_limitation \<in> set (r_limitations r1)"
    unfolding BuildReport_Inr(1) [OF r1(1)] by (simp_all add: report_of_def Let_def report_limitations_def i_def diff_def)
  with that [OF r1(1)] r1(2) show ?thesis by (simp add: i_def diff_def)
qed

lemma Inspect_Inr:
  assumes "InspectCompletedAuthorized L s M h events w = (Inr r, w')"
    "fst (LoadRetrospectiveGrant L s h w) = Inr g" "scope_validate (mc_os M) (NewGuard (mc_os M)) (rg_scope g) = Inr v"
  obtains ss t b now r0 al ts w1 where "Capture (mc_os M) no_limits (mc_ctx M) t v = Inr b" "retro_report L M v g ss b now = Inr r0"
    "alias_new (mc_os M) v = Inr al" "projectReportPaths r0 al = Inr (r, ts)"
    "CompleteRetrospectiveGrant L s h r \<lparr>oe_exact_targets = ts, oe_aliases = al\<rparr> w1 = (Inr (), w')"
  using assms by (auto simp: InspectCompletedAuthorized_def capture_now_def io_bind_Inr_iff io_lift_def io_return_def)

text \<open>
  The parts of a successful inspection: the report, its links back to the window, and what the
  store holds.
\<close>

lemma Inspect_report:
  assumes "sound_setting L s ow" "ParseOwner L h = Inr ow" "InspectCompletedAuthorized L s M h events w = (Inr r, w')"
    "fst (LoadRetrospectiveGrant L s h w) = Inr g" "scope_validate (mc_os M) (NewGuard (mc_os M)) (rg_scope g) = Inr v"
    "\<And>wd. getwd (mc_os M) = Inr wd \<Longrightarrow> is_abs wd" "listings_ok (mc_os M) (vs_roots v)" "distinct (map c_id (r_candidates r))"
  shows "r_task_id r = s_task_id (rg_scope g) \<and> r_observation_mode r = ObservationRetrospective
    \<and> r_status r = ReportPartialEvidence \<and> retro_limitation \<in> set (r_limitations r)
    \<and> list_all (\<lambda>c. c_evidence_level c \<noteq> EvidenceBaselineObserved) (r_candidates r)
    \<and> ov_grant (view L s ow (file_at w')) = None
    \<and> (\<exists>al rr. alias_new (mc_os M) v = Inr al \<and> ov_report (view L s ow (file_at w')) = stored_report L rr \<and> rr_report rr = r
         \<and> shows_window (mc_os M) (vs_roots v) (rg_started_at g) (rg_ended_at g) al rr)"
proof -
  let ?P = "modified_within (mc_os M) (rg_started_at g) (rg_ended_at g)"
  from assms(3,4,5) obtain ss t b now r0 al ts w1 where cap: "Capture (mc_os M) no_limits (mc_ctx M) t v = Inr b"
    and rep: "retro_report L M v g ss b now = Inr r0" and al: "alias_new (mc_os M) v = Inr al"
    and proj: "projectReportPaths r0 al = Inr (r, ts)"
    and complete: "CompleteRetrospectiveGrant L s h r \<lparr>oe_exact_targets = ts, oe_aliases = al\<rparr> w1 = (Inr (), w')"
    by (rule Inspect_Inr)
  from rep obtain i r1 where r1: "BuildReport (sha256 L) now i = Inr r1" "r_candidates r0 = map unattributed (r_candidates r1)"
    "df_candidates (in_diff i) = retrospectiveCandidates (sha256 L) b (time_utc (rg_started_at g)) (time_utc (rg_ended_at g))"
    and kept: "r_task_id r0 = s_task_id (rg_scope g)" "r_status r0 = ReportPartialEvidence"
    "r_observation_mode r0 = ObservationRetrospective" "retro_limitation \<in> set (r_limitations r0)"
    by (rule retro_report_spec)
  let ?cs = "retrospectiveCandidates (sha256 L) b (time_utc (rg_started_at g)) (time_utc (rg_ended_at g))"
  have sok: "scope_ok (mc_os M) v" by (rule scope_validate_ok [OF assms(5,6)])
  note exact = retro_exact [OF cap [unfolded no_limits_def] sok assms(7)]
  note shown = shown_links [OF r1(1,2) conjI [OF unattributed_object(1,2)] proj assms(8), unfolded r1(3)]
  let ?ev = "\<lparr>oe_exact_targets = ts, oe_aliases = al\<rparr>"
  from CompleteRetrospectiveGrant_states [OF assms(1,2) complete] obtain now' dg where
    rr: "ov_report (view L s ow (file_at w')) = stored_report L (new_report_record r now' dg [?ev])"
    and gone: "ov_grant (view L s ow (file_at w')) = None" by auto
  have tg: "rr_exact_targets (new_report_record r now' dg [?ev]) = cloneTargets ts" "rr_report (new_report_record r now' dg [?ev]) = r"
    by (simp_all add: new_report_record_def)
  have fwd: "\<exists>c \<in> set (r_candidates r). map_of (cloneTargets ts) (c_id c) = Some q \<and> Project al q = Inr (c_path c)"
    if "j < length (vs_roots v)" "q \<in> set (root_paths (mc_os M) (vs_roots v ! j))" "q \<noteq> rt_path (vs_roots v ! j)" "?P q" for j q
  proof -
    from exact(1) [OF that] obtain c0 where "c0 \<in> set ?cs" "c_path c0 = q" by blast
    with shown(1) [of c0] exact(2) [of c0] show ?thesis by auto
  qed
  have bwd: "alias_text al (c_path c) \<and> (\<exists>q. map_of (cloneTargets ts) (c_id c) = Some q \<and> Project al q = Inr (c_path c)
      \<and> ?P q \<and> (\<exists>root \<in> set (vs_roots v). below (rt_path root) q \<and> q \<noteq> rt_path root))"
    if c: "c \<in> set (r_candidates r)" "c_path c \<noteq> []" for c
  proof -
    from shown(2) [OF c] obtain c0 where "c0 \<in> set ?cs" "map_of (cloneTargets ts) (c_id c) = Some (c_path c0)"
        "Project al (c_path c0) = Inr (c_path c)" by blast
    with exact(2) [of c0] projected_traceable(2) [OF proj assms(8) alias_new_table_ok(1) [OF al sok] c] show ?thesis by blast
  qed
  have "c_evidence_level c \<noteq> EvidenceBaselineObserved" if c: "c \<in> set (r_candidates r)" for c
    using project_links(3) [OF proj assms(8) c] projected_status(2) unattributed_object(3) unfolding r1(2) by fastforce
  moreover have "r_task_id r = r_task_id r0" "r_observation_mode r = r_observation_mode r0" "r_status r = r_status r0" "r_limitations r = r_limitations r0"
    using proj by (auto simp: projectReportPaths_def res_simps)
  moreover have "shows_window (mc_os M) (vs_roots v) (rg_started_at g) (rg_ended_at g) al (new_report_record r now' dg [?ev])"
    unfolding shows_window_def tg using fwd bwd by blast
  ultimately show ?thesis using kept gone al rr tg(2) by (auto simp: list_all_iff)
qed

section \<open>Properties\<close>

text \<open>
  C10: A retrospective inspection shows exactly what its grant allows, claims no more than it can
  know, and uses the grant up. When it succeeds, its report is for the granted task, is marked
  retrospective and partial, carries the limitation that no baseline was available, and no
  candidate is called observed against a baseline; the stored record shows exactly the objects
  below the granted roots that were modified in the granted window, as aliases. The grant is gone
  from the store afterwards, and whatever machine and events come later, an inspection with the
  same handle is denied as long as no new file takes the grant's place. Relied on: the working
  directory is an absolute path, listings hold proper file names, candidate ids differ.
\<close>

theorem Inspect_retrospective:
  assumes "sound_setting L s ow" "ParseOwner L h = Inr ow" "InspectCompletedAuthorized L s M h events w = (Inr r, w')"
    "fst (LoadRetrospectiveGrant L s h w) = Inr g" "scope_validate (mc_os M) (NewGuard (mc_os M)) (rg_scope g) = Inr v"
    "\<And>wd. getwd (mc_os M) = Inr wd \<Longrightarrow> is_abs wd" "listings_ok (mc_os M) (vs_roots v)" "distinct (map c_id (r_candidates r))"
    "cf_clock (st_config s) \<noteq> None"
  shows "r_task_id r = s_task_id (rg_scope g) \<and> r_observation_mode r = ObservationRetrospective
    \<and> r_status r = ReportPartialEvidence \<and> retro_limitation \<in> set (r_limitations r)
    \<and> list_all (\<lambda>c. c_evidence_level c \<noteq> EvidenceBaselineObserved) (r_candidates r)
    \<and> (\<exists>al rr. alias_new (mc_os M) v = Inr al \<and> ov_report (view L s ow (file_at w')) = stored_report L rr \<and> rr_report rr = r
         \<and> shows_window (mc_os M) (vs_roots v) (rg_started_at g) (rg_ended_at g) al rr)
    \<and> ov_grant (view L s ow (file_at w')) = None
    \<and> (\<forall>M' events' w2. file_at w2 (ownedGrantPath s (o_opaque_id ow)) = file_at w' (ownedGrantPath s (o_opaque_id ow))
         \<longrightarrow> fst (InspectCompletedAuthorized L s M' h events' w2) = Inl ErrAccessDenied)"
proof -
  note rep = Inspect_report [OF assms(1-8)]
  have "fst (InspectCompletedAuthorized L s M' h events' w2) = Inl ErrAccessDenied"
    if "file_at w2 (ownedGrantPath s (o_opaque_id ow)) = file_at w' (ownedGrantPath s (o_opaque_id ow))" for M' events' w2
  proof (rule Inspect_without_grant [OF assms(9,2)])
    have "ov_grant (view L s ow (file_at w2)) = ov_grant (view L s ow (file_at w'))" by (simp add: view_def that)
    with rep show "ov_grant (view L s ow (file_at w2)) = None" by simp
  qed
  with rep show ?thesis by blast
qed

section \<open>Witness\<close>

definition demo_retro_grant :: retrospective_grant where
  "demo_retro_grant = \<lparr>rg_scope = demo_scope\<lparr>s_observation_mode := ObservationRetrospective, s_recovery_profile := RecoveryRecoverable\<rparr>,
     rg_started_at = time_of_unix 0, rg_ended_at = time_of_unix 1, rg_created_at = time_of_unix 2, rg_expires_at = time_of_unix 602\<rparr>"

definition demo_retrolib :: storelib where
  "demo_retrolib = demo_storelib\<lparr>unjson_grant := (\<lambda>_. Some demo_retro_grant), json_report_record := (\<lambda>_. Inr ''r'')\<rparr>"

definition demo_granted :: "content world" where
  "demo_granted = demo_world\<lparr>w_files := [(ownedGrantPath demo_store (o_opaque_id demo_owner),
     Env (demo_sealed_report\<lparr>en_record_kind := ''retrospective-grant'', en_ciphertext := b64_encode ''g''\<rparr>))]\<rparr>"

lemma demo_retro_setting:
  "sound_setting demo_retrolib demo_store demo_owner" "ParseOwner demo_retrolib demo_handle = Inr demo_owner"
  "fst (LoadRetrospectiveGrant demo_retrolib demo_store demo_handle demo_granted) = Inr demo_retro_grant"
  "scope_validate (mc_os demo_changed) (NewGuard (mc_os demo_changed)) (rg_scope demo_retro_grant) = Inr demo_validated"
  "listings_ok (mc_os demo_changed) (vs_roots demo_validated)"
proof -
  show "sound_setting demo_retrolib demo_store demo_owner"
    using demo_layout by (auto simp: sound_setting_def demo_owner_def proper_def aead_ok_def demo_retrolib_def demo_storelib_def)
  have "ParseOwner demo_retrolib demo_handle = ParseOwner demo_storelib demo_handle"
    by (simp add: ParseOwner_def decode_owner_def demo_retrolib_def demo_storelib_def)
  then show "ParseOwner demo_retrolib demo_handle = Inr demo_owner" by (simp add: demo_parses)
  show "fst (LoadRetrospectiveGrant demo_retrolib demo_store demo_handle demo_granted) = Inr demo_retro_grant"
    "scope_validate (mc_os demo_changed) (NewGuard (mc_os demo_changed)) (rg_scope demo_retro_grant) = Inr demo_validated" by code_simp+
  show "listings_ok (mc_os demo_changed) (vs_roots demo_validated)"
    by (simp add: demo_changed_def listings_ok_def demo_validated_def proper_def)
qed

lemma demo_retro_run:
  "case fst (InspectCompletedAuthorized demo_retrolib demo_store demo_changed demo_handle [] demo_granted) of
     Inl _ \<Rightarrow> False
   | Inr r \<Rightarrow> distinct (map c_id (r_candidates r)) \<and> map c_path (r_candidates r) = [''workspace://out'']"
  by code_simp

theorem Inspect_retrospective_witness:
  "\<exists>r. fst (InspectCompletedAuthorized demo_retrolib demo_store demo_changed demo_handle [] demo_granted) = Inr r
     \<and> r_status r = ReportPartialEvidence \<and> map c_path (r_candidates r) = [''workspace://out'']
     \<and> fst (InspectCompletedAuthorized demo_retrolib demo_store demo_changed demo_handle []
         (snd (InspectCompletedAuthorized demo_retrolib demo_store demo_changed demo_handle [] demo_granted))) = Inl ErrAccessDenied"
proof -
  let ?run = "InspectCompletedAuthorized demo_retrolib demo_store demo_changed demo_handle [] demo_granted"
  obtain r where r: "fst ?run = Inr r" "distinct (map c_id (r_candidates r))" "map c_path (r_candidates r) = [''workspace://out'']"
    using demo_retro_run by (cases "fst ?run") auto
  have run: "?run = (Inr r, snd ?run)" using r(1) by (simp add: prod_eq_iff)
  have wd: "getwd (mc_os demo_changed) = Inr wd \<Longrightarrow> is_abs wd" for wd using demo_getwd by (simp add: demo_changed_def)
  have clock: "cf_clock (st_config demo_store) \<noteq> None" by (simp add: demo_store_def default_config_def)
  note p = Inspect_retrospective [OF demo_retro_setting(1,2) run demo_retro_setting(3,4) _ demo_retro_setting(5) r(2) clock]
  have "r_status r = ReportPartialEvidence"
    by (rule p [THEN conjunct2, THEN conjunct2, THEN conjunct1]) (erule wd)
  moreover have "\<forall>M' events' w2. file_at w2 (ownedGrantPath demo_store (o_opaque_id demo_owner))
        = file_at (snd ?run) (ownedGrantPath demo_store (o_opaque_id demo_owner))
      \<longrightarrow> fst (InspectCompletedAuthorized demo_retrolib demo_store M' demo_handle events' w2) = Inl ErrAccessDenied"
    by (rule p [THEN conjunct2, THEN conjunct2, THEN conjunct2, THEN conjunct2, THEN conjunct2, THEN conjunct2, THEN conjunct2]) (erule wd)
  then have "fst (InspectCompletedAuthorized demo_retrolib demo_store demo_changed demo_handle [] (snd ?run)) = Inl ErrAccessDenied" by blast
  ultimately show ?thesis using r(1,3) by (intro exI conjI)
qed

end
