(* ===== verification/Service_Begin.thy ===== *)
theory Service_Begin
  imports Service_Read
begin

text \<open>
  Beginning an observation: what a successful \<open>Begin\<close> leaves in the store and what the
  returned handle can do.
\<close>

section \<open>Minted owners\<close>

lemma proper_b64: "s \<noteq> [] \<Longrightarrow> proper (b64_encode s)"
  using slash_notin_b64_encode [of s] by (auto simp: proper_def)

text \<open>
  What the service mints: an id of 18 random bytes in base64 and two keys of 32 bytes. Decoding
  what was encoded is relied on for these only, as \<open>encoding/json\<close> replaces invalid UTF-8.
\<close>

definition minted :: "owner \<Rightarrow> bool" where
  "minted ow \<longleftrightarrow> (\<exists>raw. length raw = 18 \<and> o_opaque_id ow = b64_encode raw)
     \<and> length (o_record_key ow) = 32 \<and> length (o_signing_seed ow) = 32"

definition owner_json_ok :: "'z caplib_scheme \<Rightarrow> bool" where
  "owner_json_ok L \<longleftrightarrow> (\<forall>ow. minted ow \<longrightarrow> unjson_owner L (json_owner L ow) = Some ow)"

lemma minted_proper: "minted ow \<Longrightarrow> proper (o_opaque_id ow)"
  by (auto simp: minted_def intro!: proper_b64)

lemma mint_owner_Inr:
  assumes "mint_owner w = (Inr ow, w')"
  shows "minted ow" "file_at w' = file_at w"
proof -
  from assms obtain f g k where "ow = \<lparr>o_opaque_id = b64_encode (map f [0..<18]), o_record_key = map g [0..<32], o_signing_seed = map k [0..<32]\<rparr>"
    by (auto simp: mint_owner_def io_bind_Inr_iff draw_random_def NewOwner_def io_lift_def split: sum.splits)
  then show "minted ow" unfolding minted_def by (intro conjI exI [of _ "map f [0..<18]"]) simp_all
  have "preserves {} mint_owner" unfolding mint_owner_def by (intro preserves_bind) simp_all
  from keeps_files [OF this assms] show "file_at w' = file_at w" .
qed

section \<open>The created task\<close>

lemma require_absent_None: "require_absent p w = (Inr u, w') \<Longrightarrow> file_at w p = None"
  by (auto simp: require_absent_def io_bind_Inr_iff io_try_def os_stat_def sys_def io_fail_def io_return_def
      split: option.splits if_splits prod.splits sum.splits)

lemma CreateOwnedTask_Inr:
  assumes "store_layout s hs" "proper (o_opaque_id ow)" "ParseOwner L h = Inr ow"
    "CreateOwnedTaskWithMetadata L s h tid b p m w = (Inr (), w')"
  obtains now e where "file_at w (ownedTaskPath s (o_opaque_id ow)) = None"
    "file_at w' = (file_at w)(ownedTaskPath s (o_opaque_id ow) \<mapsto> Env e)"
    "sealed_as L ''task'' (o_opaque_id ow) 0 now (time_add now (cf_interruption (st_config s))) (ownerPublicKey L ow) False
       (o_record_key ow) (json_task L (new_task tid now b p m)) e"
proof -
  let ?path = "ownedTaskPath s (o_opaque_id ow)"
  have nt: "\<not> is_temp (path_dir ?path) ?path" using record_path_facts [OF assms(1,2)] by simp
  from assms(3,4) obtain w1 now w2 where st: "require_absent ?path w = (Inr (), w1)" "store_clock s w1 = (Inr now, w2)"
    and wr: "writeOwned L ?path ''task'' ow 0 now (time_add now (cf_interruption (st_config s))) (json_task L (new_task tid now b p m)) w2
        = (Inr (), w')"
    by (auto simp: CreateOwnedTaskWithMetadata_def Let_def io_bind_Inr_iff)
  have f: "file_at w2 = file_at w"
    using keeps_files [OF preserves_require_absent st(1)] keeps_files [OF preserves_store_clock st(2)] by simp
  obtain e where "sealed_as L ''task'' (o_opaque_id ow) 0 now (time_add now (cf_interruption (st_config s))) (ownerPublicKey L ow) False
      (o_record_key ow) (json_task L (new_task tid now b p m)) e" "file_at w' = (file_at w2)(?path \<mapsto> Env e)"
    by (rule writeOwned_Inr [OF wr nt])
  with that require_absent_None [OF st(1)] f show ?thesis by metis
qed

text \<open>The steps of \<open>Begin\<close> before the task is created read only.\<close>

lemma Begin_Inr:
  assumes "Begin L s M scope w = (Inr b, w')"
  obtains v base procs aliases ow w1 where
    "ValidateMetadata scope = Inr ()"
    "scope_validate (mc_os M) (NewGuard (mc_os M)) (with_defaults scope) = Inr v"
    "bl_scope base = v" "alias_new (mc_os M) v = Inr aliases" "minted ow" "file_at w1 = file_at w"
    "CreateOwnedTaskWithMetadata L s (owner_string L ow) (s_task_id scope) base procs
       \<lparr>om_aliases = aliases, om_observation_mode = s_observation_mode (with_defaults scope),
        om_recovery_profile = s_recovery_profile (with_defaults scope)\<rparr> w1 = (Inr (), w')"
    "b = \<lparr>br_observation_id = ''observation-'' @ o_opaque_id ow, br_task_id = s_task_id scope,
          br_started_at = bl_captured_at base, br_owner_handle = owner_string L ow,
          br_recovery_profile = s_recovery_profile (with_defaults scope)\<rparr>"
proof -
  have tid: "s_task_id (with_defaults scope) = s_task_id scope" by (simp add: with_defaults_def)
  from assms obtain v base w2 procs w3 aliases ow w4 where st: "ValidateMetadata scope = Inr ()"
      "scope_validate (mc_os M) (NewGuard (mc_os M)) (with_defaults scope) = Inr v"
      "capture_now M v w = (Inr base, w2)" "io_bind read_clock (\<lambda>t. io_lift (process_baseline (mc_native M) t)) w2 = (Inr procs, w3)"
      "alias_new (mc_os M) v = Inr aliases" "mint_owner w3 = (Inr ow, w4)"
      "CreateOwnedTaskWithMetadata L s (owner_string L ow) (s_task_id scope) base procs
       \<lparr>om_aliases = aliases, om_observation_mode = s_observation_mode (with_defaults scope),
        om_recovery_profile = s_recovery_profile (with_defaults scope)\<rparr> w4 = (Inr (), w')"
      "b = \<lparr>br_observation_id = ''observation-'' @ o_opaque_id ow, br_task_id = s_task_id scope,
          br_started_at = bl_captured_at base, br_owner_handle = owner_string L ow,
          br_recovery_profile = s_recovery_profile (with_defaults scope)\<rparr>"
    unfolding Begin_def Let_def tid io_bind_Inr_iff io_lift_def io_return_def by auto
  have "preserves {} (capture_now M v)" "preserves {} (io_bind read_clock (\<lambda>t. io_lift (process_baseline (mc_native M) t)))"
    unfolding capture_now_def by (intro preserves_bind; simp)+
  with st(3,4) mint_owner_Inr(2) [OF st(6)] have "file_at w4 = file_at w" using keeps_files by metis
  moreover have "bl_scope base = v" using st(3) by (auto simp: capture_now_def io_bind_Inr_iff io_lift_def dest: Capture_scope)
  ultimately show ?thesis using that st mint_owner_Inr(1) [OF st(6)] by blast
qed

section \<open>Properties\<close>

text \<open>
  C8: A successful \<open>Begin\<close> opens exactly one task: the returned handle parses to an owner
  with an id that is a plain file name, no record existed under that id, the one new file is the
  task record of this owner, and all other files are unchanged. The task is for an accepted
  scope, active, without events or executors, its alias table is sound for that scope, and the
  observation id and task id returned belong to it. Relied on: JSON decodes the encoded handle of
  an owner the service can mint (a base64 id, two keys of 32 bytes), the cipher opens what it
  sealed, and the working directory is absolute.
\<close>

theorem Begin_opens_task:
  assumes "store_layout s hs" "aead_ok L" "owner_json_ok L"
    "\<And>wd. getwd (mc_os M) = Inr wd \<Longrightarrow> is_abs wd" "Begin L s M scope w = (Inr b, w')"
  shows "\<exists>ow task e. ParseOwner L (br_owner_handle b) = Inr ow \<and> proper (o_opaque_id ow)
    \<and> br_observation_id b = ''observation-'' @ o_opaque_id ow \<and> br_task_id b = s_task_id scope
    \<and> file_at w (ownedTaskPath s (o_opaque_id ow)) = None
    \<and> file_at w' = (file_at w)(ownedTaskPath s (o_opaque_id ow) \<mapsto> Env e)
    \<and> ov_task (view L s ow (file_at w')) = stored_task L task
    \<and> tr_task_id task = s_task_id scope \<and> tr_state task = TaskActive \<and> tr_events task = [] \<and> tr_executor_grants task = []
    \<and> scope_validate (mc_os M) (NewGuard (mc_os M)) (with_defaults scope) = Inr (bl_scope (tr_baseline task))
    \<and> table_ok (tr_aliases task) \<and> map b_path (tr_aliases task) = map rt_path (vs_roots (bl_scope (tr_baseline task)))
    \<and> br_recovery_profile b = tr_recovery_profile task"
proof -
  from assms(5) obtain v base procs aliases ow w1 where st:
    "scope_validate (mc_os M) (NewGuard (mc_os M)) (with_defaults scope) = Inr v"
    "bl_scope base = v" "alias_new (mc_os M) v = Inr aliases" "minted ow" "file_at w1 = file_at w"
    "CreateOwnedTaskWithMetadata L s (owner_string L ow) (s_task_id scope) base procs
       \<lparr>om_aliases = aliases, om_observation_mode = s_observation_mode (with_defaults scope),
        om_recovery_profile = s_recovery_profile (with_defaults scope)\<rparr> w1 = (Inr (), w')"
    and b: "b = \<lparr>br_observation_id = ''observation-'' @ o_opaque_id ow, br_task_id = s_task_id scope,
          br_started_at = bl_captured_at base, br_owner_handle = owner_string L ow,
          br_recovery_profile = s_recovery_profile (with_defaults scope)\<rparr>"
    by (rule Begin_Inr) blast
  have "\<exists>ow'. ParseOwner L (owner_string L ow) = Inr ow'"
    using st(6) by (auto simp: CreateOwnedTaskWithMetadata_def io_bind_Inr_iff)
  then have parse: "ParseOwner L (owner_string L ow) = Inr ow"
    using assms(3) st(4) by (auto simp: owner_json_ok_def ParseOwner_def owner_string_def decode_owner_def b64_decode_encode split: if_splits)
  obtain now e where e: "file_at w1 (ownedTaskPath s (o_opaque_id ow)) = None"
      "file_at w' = (file_at w1)(ownedTaskPath s (o_opaque_id ow) \<mapsto> Env e)"
      "sealed_as L ''task'' (o_opaque_id ow) 0 now (time_add now (cf_interruption (st_config s))) (ownerPublicKey L ow) False
       (o_record_key ow) (json_task L (new_task (s_task_id scope) now base procs
         \<lparr>om_aliases = aliases, om_observation_mode = s_observation_mode (with_defaults scope),
          om_recovery_profile = s_recovery_profile (with_defaults scope)\<rparr>)) e"
    by (rule CreateOwnedTask_Inr [OF assms(1) minted_proper [OF st(4)] parse st(6)])
  let ?task = "new_task (s_task_id scope) now base procs
         \<lparr>om_aliases = aliases, om_observation_mode = s_observation_mode (with_defaults scope),
          om_recovery_profile = s_recovery_profile (with_defaults scope)\<rparr>"
  have "ov_task (view L s ow (file_at w')) = stored_task L ?task"
    using opened_sealed [where enc = "json_task L", OF e(3) assms(2)] e(2) by (simp add: view_def)
  moreover note alias_new_table_ok [OF st(3) scope_validate_ok [OF st(1) assms(4)]]
  ultimately show ?thesis using parse st e(1,2) b minted_proper [OF st(4)]
    by (intro exI [of _ ow] exI [of _ ?task] exI [of _ e]) (simp add: new_task_def)
qed

section \<open>Witness\<close>

definition demo_beginlib :: servicelib where
  "demo_beginlib = storelib.extend
     (demo_storelib\<lparr>json_owner := (\<lambda>ow. o_record_key ow @ o_signing_seed ow @ o_opaque_id ow),
        unjson_owner := (\<lambda>x. Some \<lparr>o_opaque_id = drop 64 x, o_record_key = take 32 x, o_signing_seed = take 32 (drop 32 x)\<rparr>)\<rparr>)
     \<lparr>json_revision = (\<lambda>_. Inr ''v'')\<rparr>"

definition demo_brief_scope :: task_scope where
  "demo_brief_scope = demo_scope\<lparr>s_recovery_profile := RecoveryEphemeral\<rparr>"

lemma demo_begin_owner_json: "owner_json_ok demo_beginlib"
  by (simp add: owner_json_ok_def minted_def demo_beginlib_def storelib.defs demo_storelib_def)

lemma demo_begins: "is_ok (fst (Begin demo_beginlib demo_store demo_machine demo_brief_scope demo_world))"
  by code_simp

lemma demo_begins_world:
  obtains b where "Begin demo_beginlib demo_store demo_machine demo_brief_scope demo_world
      = (Inr b, snd (Begin demo_beginlib demo_store demo_machine demo_brief_scope demo_world))"
  using is_okE [OF demo_begins] by (metis prod.collapse)

theorem Begin_opens_task_witness:
  "\<exists>b ow. fst (Begin demo_beginlib demo_store demo_machine demo_brief_scope demo_world) = Inr b \<and> br_task_id b = ''t''
     \<and> ParseOwner demo_beginlib (br_owner_handle b) = Inr ow \<and> proper (o_opaque_id ow)"
proof -
  obtain b where b: "Begin demo_beginlib demo_store demo_machine demo_brief_scope demo_world
      = (Inr b, snd (Begin demo_beginlib demo_store demo_machine demo_brief_scope demo_world))" by (rule demo_begins_world)
  have "aead_ok demo_beginlib" by (simp add: aead_ok_def demo_beginlib_def demo_storelib_def storelib.defs)
  moreover note demo_begin_owner_json
  moreover have "is_abs wd" if "getwd (mc_os demo_machine) = Inr wd" for wd using that demo_getwd by (simp add: demo_machine_def)
  ultimately obtain ow where "ParseOwner demo_beginlib (br_owner_handle b) = Inr ow" "proper (o_opaque_id ow)"
      "br_task_id b = s_task_id demo_brief_scope"
    using Begin_opens_task [OF demo_layout, of demo_beginlib demo_machine demo_brief_scope demo_world b] b by blast
  moreover have "fst (Begin demo_beginlib demo_store demo_machine demo_brief_scope demo_world) = Inr b" using b by (metis fst_conv)
  ultimately show ?thesis by (auto simp: demo_brief_scope_def demo_scope_def)
qed

end
