(* ===== verification/Mcp_Server.thy ===== *)
theory Mcp_Server
  imports Service_Begin
begin

text \<open>
  Package \<open>mcpserver\<close> (\<open>server.go\<close>): the eight tools of the MCP server and the table of
  ephemeral owner handles each session keeps. Structs that embed \<open>accessInput\<close> are record
  extensions of it; a session is the pointer the SDK hands to the tool. The table is guarded by
  a mutex in the source; here a call of a tool is one step on the table and the world. The SDK
  (decoding of arguments, transport) is not modelled: a tool starts from its decoded input.
\<close>

section \<open>Types\<close>

record access_input =
  ai_owner_handle :: string
  ai_observation_id :: string
  ai_report_id :: string

record append_events_input = access_input +
  ap_executor_handle :: string
  ap_events :: "task_event list"

record report_input = access_input +
  ri_revision :: int
  ri_cursor :: string
  ri_limit :: int

record delegate_input = access_input +
  de_expires_at :: gtime
  de_allowed_types :: "event_type list"
  de_allowed_roots :: "string list"

record resolve_input = access_input +
  rv_candidate_id :: string

record retrospective_input =
  rt_grant_handle :: string
  rt_events :: "task_event list"

record append_events_output =
  ao_accepted :: bool
  ao_event_count :: int

record resolve_output =
  ro_candidate_id :: string
  ro_exact_path :: string

type_synonym session = nat
type_synonym session_owners = "session \<Rightarrow> (string \<Rightarrow> string option) option"

section \<open>The table of session owners\<close>

definition newSessionOwners :: session_owners where
  "newSessionOwners = (\<lambda>_. None)"

definition put :: "session_owners \<Rightarrow> session \<Rightarrow> string \<Rightarrow> string \<Rightarrow> session_owners" where
  "put owners session observationID ownerHandle =
     owners(session \<mapsto> (case owners session of None \<Rightarrow> Map.empty | Some m \<Rightarrow> m)(observationID \<mapsto> ownerHandle))"

text \<open>A missing key of a Go map reads as the empty string.\<close>

definition resolve :: "session_owners \<Rightarrow> session \<Rightarrow> 'z access_input_scheme \<Rightarrow> string res" where
  "resolve owners session input =
     (if ai_owner_handle input \<noteq> [] then Inr (ai_owner_handle input)
      else case owners session of
        None \<Rightarrow> Inl ErrAccessDenied
      | Some m \<Rightarrow>
          (case m (ai_observation_id input) of
             None \<Rightarrow> Inl ErrAccessDenied
           | Some handle \<Rightarrow> if ai_observation_id input = [] \<or> handle = [] then Inl ErrAccessDenied else Inr handle))"

definition forget :: "session_owners \<Rightarrow> session \<Rightarrow> string \<Rightarrow> session_owners" where
  "forget owners session observationID =
     (case owners session of None \<Rightarrow> owners | Some m \<Rightarrow> owners(session \<mapsto> m(observationID := None)))"

section \<open>The tools\<close>

text \<open>A tool ends with its output or an error, the table and the world.\<close>

type_synonym 'a tool = "session_owners \<Rightarrow> content world \<Rightarrow> 'a res \<times> session_owners \<times> content world"

definition run_service :: "(content, 'a) io \<Rightarrow> 'a tool" where
  "run_service m owners w = (case m w of (r, w') \<Rightarrow> (r, owners, w'))"

definition with_handle :: "session \<Rightarrow> 'z access_input_scheme \<Rightarrow> (string \<Rightarrow> 'a tool) \<Rightarrow> 'a tool" where
  "with_handle session input f owners w =
     (case resolve owners session input of Inl e \<Rightarrow> (Inl e, owners, w) | Inr handle \<Rightarrow> f handle owners w)"

definition begin_task_observation :: "'z storelib_scheme \<Rightarrow> store \<Rightarrow> machine \<Rightarrow> session \<Rightarrow> task_scope \<Rightarrow> begin_result tool" where
  "begin_task_observation L s M session input owners w =
     (case Begin L s M input w of
        (Inl e, w') \<Rightarrow> (Inl e, owners, w')
      | (Inr out, w') \<Rightarrow>
          if br_recovery_profile out = RecoveryEphemeral
          then (Inr (out\<lparr>br_owner_handle := []\<rparr>),
                put owners session (br_observation_id out) (br_owner_handle out), w')
          else (Inr out, owners, w'))"

definition append_task_events ::
    "'z storelib_scheme \<Rightarrow> store \<Rightarrow> machine \<Rightarrow> session \<Rightarrow> append_events_input \<Rightarrow> append_events_output tool" where
  "append_task_events L s M session input owners w =
     (let append = (\<lambda>handle. run_service (io_bind (AppendEvents L s M handle (ap_events input)) (\<lambda>_.
                      io_return \<lparr>ao_accepted = True, ao_event_count = int (length (ap_events input))\<rparr>)))
      in if ap_executor_handle input \<noteq> [] then
           if ai_owner_handle input \<noteq> [] \<or> ai_observation_id input \<noteq> []
           then (Inl ErrAccessDenied, owners, w)
           else append (ap_executor_handle input) owners w
         else if ai_owner_handle input = [] then with_handle session input append owners w
         else append (ai_owner_handle input) owners w)"

definition end_task_observation ::
    "'z storelib_scheme \<Rightarrow> store \<Rightarrow> machine \<Rightarrow> session \<Rightarrow> access_input \<Rightarrow> report_summary tool" where
  "end_task_observation L s M session input =
     with_handle session input (\<lambda>handle owners w.
       case End L s M handle w of
         (Inl e, w1) \<Rightarrow> (Inl e, owners, w1)
       | (Inr _, w1) \<Rightarrow>
           (case Summarize L s handle 0 [] 20 w1 of (r, w2) \<Rightarrow>
              (r, if ai_observation_id input \<noteq> [] then forget owners session (ai_observation_id input) else owners, w2)))"

definition inspect_completed_task ::
    "'z storelib_scheme \<Rightarrow> store \<Rightarrow> machine \<Rightarrow> retrospective_input \<Rightarrow> report_summary tool" where
  "inspect_completed_task L s M input =
     run_service (io_bind (InspectCompletedAuthorized L s M (rt_grant_handle input) (rt_events input)) (\<lambda>_.
       Summarize L s (rt_grant_handle input) 0 [] 20))"

definition get_residue_report :: "'z storelib_scheme \<Rightarrow> store \<Rightarrow> session \<Rightarrow> report_input \<Rightarrow> report_summary tool" where
  "get_residue_report L s session input =
     with_handle session input (\<lambda>handle.
       let limit = (if ri_limit input = 0 then 20 else ri_limit input)
       in run_service (Summarize L s handle (ri_revision input) (ri_cursor input) limit))"

definition verify_task_residue ::
    "'z servicelib_scheme \<Rightarrow> store \<Rightarrow> machine \<Rightarrow> session \<Rightarrow> access_input \<Rightarrow> report_summary tool" where
  "verify_task_residue L s M session input =
     with_handle session input (\<lambda>handle.
       run_service (io_bind (Verify L s M handle) (\<lambda>revision. Summarize L s handle (v_revision revision) [] 20)))"

definition delegate_task_executor :: "'z storelib_scheme \<Rightarrow> store \<Rightarrow> session \<Rightarrow> delegate_input \<Rightarrow> string tool" where
  "delegate_task_executor L s session input =
     with_handle session input (\<lambda>handle.
       run_service (DelegateExecutor L s handle (de_expires_at input) (de_allowed_types input) (de_allowed_roots input)))"

definition resolve_residue_candidate ::
    "'z storelib_scheme \<Rightarrow> store \<Rightarrow> machine \<Rightarrow> session \<Rightarrow> resolve_input \<Rightarrow> resolve_output tool" where
  "resolve_residue_candidate L s M session input =
     with_handle session input (\<lambda>handle.
       run_service (io_bind (ResolveCandidate L s M handle (rv_candidate_id input)) (\<lambda>exact.
         io_return \<lparr>ro_candidate_id = rv_candidate_id input, ro_exact_path = exact\<rparr>)))"

section \<open>The server\<close>

text \<open>The registered tools with their inputs and outputs, as \<open>New\<close> wires them.\<close>

datatype tool_call =
    BeginTaskObservation task_scope
  | AppendTaskEvents append_events_input
  | EndTaskObservation access_input
  | InspectCompletedTask retrospective_input
  | GetResidueReport report_input
  | VerifyTaskResidue access_input
  | DelegateTaskExecutor delegate_input
  | ResolveResidueCandidate resolve_input

datatype tool_output =
    Began begin_result
  | Appended append_events_output
  | Summarized report_summary
  | Delegated string
  | Resolved resolve_output

definition labelled :: "('a \<Rightarrow> tool_output) \<Rightarrow> 'a tool \<Rightarrow> tool_output tool" where
  "labelled f t owners w = (case t owners w of (Inl e, st) \<Rightarrow> (Inl e, st) | (Inr v, st) \<Rightarrow> (Inr (f v), st))"

fun call_tool :: "'z servicelib_scheme \<Rightarrow> store \<Rightarrow> machine \<Rightarrow> session \<Rightarrow> tool_call \<Rightarrow> tool_output tool" where
  "call_tool L s M a (BeginTaskObservation i) = labelled Began (begin_task_observation L s M a i)"
| "call_tool L s M a (AppendTaskEvents i) = labelled Appended (append_task_events L s M a i)"
| "call_tool L s M a (EndTaskObservation i) = labelled Summarized (end_task_observation L s M a i)"
| "call_tool L s M a (InspectCompletedTask i) = labelled Summarized (inspect_completed_task L s M i)"
| "call_tool L s M a (GetResidueReport i) = labelled Summarized (get_residue_report L s a i)"
| "call_tool L s M a (VerifyTaskResidue i) = labelled Summarized (verify_task_residue L s M a i)"
| "call_tool L s M a (DelegateTaskExecutor i) = labelled Delegated (delegate_task_executor L s a i)"
| "call_tool L s M a (ResolveResidueCandidate i) = labelled Resolved (resolve_residue_candidate L s M a i)"

text \<open>The annotation \<open>ReadOnlyHint\<close> the server declares for a tool.\<close>

fun read_only_hint :: "tool_call \<Rightarrow> bool" where
  "read_only_hint (GetResidueReport _) \<longleftrightarrow> True"
| "read_only_hint (ResolveResidueCandidate _) \<longleftrightarrow> True"
| "read_only_hint _ \<longleftrightarrow> False"

text \<open>
  \<open>Run\<close>: the calls the client makes, one after the other, until the connection ends.
  The dispatcher is an argument, so that the laws of the session table below apply to it.
\<close>

fun serve_calls ::
    "('s \<Rightarrow> 'c \<Rightarrow> 'o \<Rightarrow> 'w \<Rightarrow> 'r \<times> 'o \<times> 'w) \<Rightarrow> ('s \<times> 'c) list \<Rightarrow> 'o \<Rightarrow> 'w \<Rightarrow> 'r list \<times> 'o \<times> 'w" where
  "serve_calls tool [] owners w = ([], owners, w)"
| "serve_calls tool ((a, c) # calls) owners w =
     (case tool a c owners w of (r, owners1, w1) \<Rightarrow>
        (case serve_calls tool calls owners1 w1 of (rs, owners', w') \<Rightarrow> (r # rs, owners', w')))"

definition mcp_Run ::
    "'z servicelib_scheme \<Rightarrow> store \<Rightarrow> machine \<Rightarrow> (session \<times> tool_call) list \<Rightarrow> unit res \<Rightarrow> content world
       \<Rightarrow> (tool_output res list \<times> unit res) \<times> content world" where
  "mcp_Run L s M calls ended w =
     (case serve_calls (call_tool L s M) calls newSessionOwners w of (rs, _, w') \<Rightarrow> ((rs, ended), w'))"

section \<open>Sessions\<close>

text \<open>
  The contract of a server that keeps one table entry per session: a call changes only its own
  session's entry, and its result and effects depend on no other entry.
\<close>

locale session_server =
  fixes tool :: "'s \<Rightarrow> 'c \<Rightarrow> ('s \<Rightarrow> 't) \<Rightarrow> 'w \<Rightarrow> 'r \<times> ('s \<Rightarrow> 't) \<times> 'w"
  assumes own_entry: "tool a c owners w = (r, owners', w') \<Longrightarrow> b \<noteq> a \<Longrightarrow> owners' b = owners b"
    and own_view: "tool a c owners w = (r, owners', w') \<Longrightarrow> owners2 a = owners a \<Longrightarrow>
      tool a c owners2 w = (r, owners2(a := owners' a), w')"
begin

lemma others_kept:
  "serve_calls tool calls owners w = (rs, owners', w') \<Longrightarrow> b \<notin> fst ` set calls \<Longrightarrow> owners' b = owners b"
proof (induction calls arbitrary: owners w rs)
  case (Cons ac calls)
  obtain a c where ac: "ac = (a, c)" by force
  obtain r owners1 w1 where t: "tool a c owners w = (r, owners1, w1)" by (metis prod_cases3)
  with Cons.prems ac obtain rs1 where rest: "serve_calls tool calls owners1 w1 = (rs1, owners', w')"
    by (auto split: prod.splits)
  have "owners1 b = owners b" using own_entry [OF t, of b] Cons.prems(2) ac by auto
  with Cons.IH [OF rest] Cons.prems(2) show ?case by simp
qed simp

lemma view_of_sessions:
  "serve_calls tool calls owners w = (rs, owners', w') \<Longrightarrow> A = fst ` set calls \<union> B \<Longrightarrow>
     (\<And>a. a \<in> A \<Longrightarrow> owners2 a = owners a) \<Longrightarrow>
     serve_calls tool calls owners2 w = (rs, \<lambda>a. if a \<in> A then owners' a else owners2 a, w')"
proof (induction calls arbitrary: owners owners2 w rs B)
  case Nil
  then show ?case by auto
next
  case (Cons ac calls)
  obtain a c where ac: "ac = (a, c)" by force
  obtain r owners1 w1 where t: "tool a c owners w = (r, owners1, w1)" by (metis prod_cases3)
  with Cons.prems ac obtain rs1 where rs: "rs = r # rs1"
    and rest: "serve_calls tool calls owners1 w1 = (rs1, owners', w')"
    by (auto split: prod.splits)
  have a: "a \<in> A" using Cons.prems(2) ac by simp
  have t2: "tool a c owners2 w = (r, owners2(a := owners1 a), w1)" by (rule own_view [OF t]) (rule Cons.prems(3) [OF a])
  have "serve_calls tool calls (owners2(a := owners1 a)) w1
      = (rs1, \<lambda>b. if b \<in> A then owners' b else (owners2(a := owners1 a)) b, w')"
  proof (rule Cons.IH [OF rest])
    show "A = fst ` set calls \<union> insert a B" using Cons.prems(2) ac by auto
    show "(owners2(a := owners1 a)) b = owners1 b" if "b \<in> A" for b
      using Cons.prems(3) [OF that] own_entry [OF t, of b] by simp
  qed
  moreover have "(\<lambda>b. if b \<in> A then owners' b else (owners2(a := owners1 a)) b) = (\<lambda>b. if b \<in> A then owners' b else owners2 b)"
    using a by auto
  ultimately show ?case by (simp add: ac rs t2)
qed

end

lemma resolve_own: "owners2 a = owners a \<Longrightarrow> resolve owners2 a i = resolve owners a i"
  by (simp add: resolve_def)

text \<open>The same two laws for the parts of a tool.\<close>

definition session_local :: "session \<Rightarrow> 'a tool \<Rightarrow> bool" where
  "session_local a t \<longleftrightarrow> (\<forall>owners owners2 w r owners' w'. t owners w = (r, owners', w') \<longrightarrow>
     (\<forall>b. b \<noteq> a \<longrightarrow> owners' b = owners b)
     \<and> (owners2 a = owners a \<longrightarrow> t owners2 w = (r, owners2(a := owners' a), w')))"

lemma session_localI:
  assumes "\<And>owners owners2 w r owners' w'. t owners w = (r, owners', w') \<Longrightarrow>
     (\<forall>b. b \<noteq> a \<longrightarrow> owners' b = owners b) \<and> (owners2 a = owners a \<longrightarrow> t owners2 w = (r, owners2(a := owners' a), w'))"
  shows "session_local a t"
  using assms unfolding session_local_def by blast

lemma session_localD:
  assumes "session_local a t" "t owners w = (r, owners', w')"
  shows "\<forall>b. b \<noteq> a \<longrightarrow> owners' b = owners b" "owners2 a = owners a \<longrightarrow> t owners2 w = (r, owners2(a := owners' a), w')"
  using assms unfolding session_local_def by blast+

lemma session_local_fails [simp]: "session_local a (\<lambda>owners w. (Inl e, owners, w))"
  by (rule session_localI) auto

lemma session_local_service [simp]: "session_local a (run_service m)"
  by (rule session_localI) (force simp: run_service_def split: prod.splits)

lemma session_local_handle:
  assumes "\<And>h. session_local a (f h)"
  shows "session_local a (with_handle a i f)"
proof (rule session_localI)
  fix owners owners2 w r owners' w' assume t: "with_handle a i f owners w = (r, owners', w')"
  let ?t = "case resolve owners a i of Inl e \<Rightarrow> \<lambda>owners w. (Inl e, owners, w) | Inr h \<Rightarrow> f h"
  have s: "session_local a ?t" by (cases "resolve owners a i") (simp_all add: assms)
  have "with_handle a i f o2 w = ?t o2 w" if "o2 a = owners a" for o2
    using resolve_own [of o2 a owners i, OF that] by (simp add: with_handle_def split: sum.splits)
  with t session_localD(1) [OF s, of owners w r owners' w'] session_localD(2) [OF s, of owners w r owners' w' owners2]
  show "(\<forall>b. b \<noteq> a \<longrightarrow> owners' b = owners b) \<and> (owners2 a = owners a \<longrightarrow> with_handle a i f owners2 w = (r, owners2(a := owners' a), w'))"
    by simp
qed

lemma session_local_labelled:
  assumes "session_local a t"
  shows "session_local a (labelled f t)"
proof (rule session_localI)
  fix owners owners2 w r owners' w' assume l: "labelled f t owners w = (r, owners', w')"
  obtain r1 where t: "t owners w = (r1, owners', w')" and r: "r = map_sum id f r1"
    using l by (auto simp: labelled_def split: prod.splits sum.splits)
  from session_localD(1) [OF assms t] session_localD(2) [OF assms t, of owners2] show
      "(\<forall>b. b \<noteq> a \<longrightarrow> owners' b = owners b) \<and> (owners2 a = owners a \<longrightarrow> labelled f t owners2 w = (r, owners2(a := owners' a), w'))"
    by (cases r1) (simp_all add: labelled_def r)
qed

lemma session_local_begin: "session_local a (begin_task_observation L s M a i)"
  by (rule session_localI)
    (auto simp: begin_task_observation_def put_def split: prod.splits sum.splits if_splits)

lemma append_task_events_cases:
  "append_task_events L s M a i =
     (let append = (\<lambda>handle. run_service (io_bind (AppendEvents L s M handle (ap_events i)) (\<lambda>_.
                      io_return \<lparr>ao_accepted = True, ao_event_count = int (length (ap_events i))\<rparr>)))
      in if ap_executor_handle i \<noteq> [] then
           if ai_owner_handle i \<noteq> [] \<or> ai_observation_id i \<noteq> [] then \<lambda>owners w. (Inl ErrAccessDenied, owners, w)
           else append (ap_executor_handle i)
         else if ai_owner_handle i = [] then with_handle a i append
         else append (ai_owner_handle i))"
  by (simp add: append_task_events_def Let_def fun_eq_iff)

lemma session_local_append: "session_local a (append_task_events L s M a i)"
  by (simp add: append_task_events_cases Let_def session_local_handle)

lemma session_local_end: "session_local a (end_task_observation L s M a i)"
  unfolding end_task_observation_def
  by (intro session_local_handle session_localI)
    (auto simp: forget_def split: prod.splits sum.splits if_splits option.splits)

lemma session_local_call: "session_local a (call_tool L s M a c)"
  by (cases c)
    (auto intro!: session_local_labelled session_local_begin session_local_append session_local_end session_local_handle
      simp: inspect_completed_task_def get_residue_report_def verify_task_residue_def delegate_task_executor_def
        resolve_residue_candidate_def Let_def)

interpretation mcp: session_server "call_tool L s M" for L s M
proof
  fix a c owners w r owners' w' b owners2
  assume "call_tool L s M a c owners w = (r, owners', w')"
  with session_local_call [of a L s M c] show "b \<noteq> a \<Longrightarrow> owners' b = owners b"
    "owners2 a = owners a \<Longrightarrow> call_tool L s M a c owners2 w = (r, owners2(a := owners' a), w')"
    unfolding session_local_def by blast+
qed

text \<open>
  C16: Sessions are isolated: a run of tool calls changes the owner table of no session that makes
  none of the calls, and every result and every file written is the same whatever the sessions
  that make no call hold. So no ephemeral handle kept for one session authorises a call of
  another, and none is leaked or lost by it.
\<close>

theorem sessions_isolated:
  assumes "serve_calls (call_tool L s M) calls owners w = (rs, owners', w')"
    "\<And>a. a \<in> fst ` set calls \<Longrightarrow> owners2 a = owners a"
  shows "(\<forall>b. b \<notin> fst ` set calls \<longrightarrow> owners' b = owners b)
    \<and> serve_calls (call_tool L s M) calls owners2 w
        = (rs, \<lambda>b. if b \<in> fst ` set calls then owners' b else owners2 b, w')"
  using mcp.others_kept [OF assms(1)] mcp.view_of_sessions [OF assms(1), where B = "{}", OF _ assms(2)] by simp

definition demo_input :: access_input where
  "demo_input = \<lparr>ai_owner_handle = [], ai_observation_id = ''observation-1'', ai_report_id = []\<rparr>"

theorem sessions_isolated_witness:
  "serve_calls (call_tool demo_servicelib demo_store demo_machine) [(1, VerifyTaskResidue demo_input)]
      newSessionOwners demo_done = ([Inl ErrAccessDenied], newSessionOwners, demo_done)
   \<and> serve_calls (call_tool demo_servicelib demo_store demo_machine) [(1, VerifyTaskResidue demo_input)]
       (put newSessionOwners 2 ''observation-1'' demo_handle) demo_done
     = ([Inl ErrAccessDenied], \<lambda>b. if b = 1 then None else put newSessionOwners 2 ''observation-1'' demo_handle b, demo_done)"
proof -
  have run: "serve_calls (call_tool demo_servicelib demo_store demo_machine) [(1, VerifyTaskResidue demo_input)]
      newSessionOwners demo_done = ([Inl ErrAccessDenied], newSessionOwners, demo_done)"
    by (simp add: verify_task_residue_def with_handle_def resolve_def demo_input_def newSessionOwners_def labelled_def)
  moreover have "put newSessionOwners 2 ''observation-1'' demo_handle a = newSessionOwners a"
    if "a \<in> fst ` set [(1::nat, VerifyTaskResidue demo_input)]" for a
    using that by (simp add: put_def newSessionOwners_def)
  ultimately show ?thesis using sessions_isolated [OF run, of "put newSessionOwners 2 ''observation-1'' demo_handle"]
    by (simp add: newSessionOwners_def cong: if_cong)
qed

section \<open>Ephemeral authority\<close>

text \<open>
  A history of calls: the machine and the world may be different at every call, since other
  programs run between them.
\<close>

inductive served ::
    "'z servicelib_scheme \<Rightarrow> store \<Rightarrow> (machine \<times> session \<times> tool_call \<times> content world \<times> tool_output res) list
       \<Rightarrow> session_owners \<Rightarrow> bool" for L s where
  start: "served L s [] newSessionOwners"
| call: "served L s hist owners \<Longrightarrow> call_tool L s M a c owners w = (r, owners', w') \<Longrightarrow>
    served L s (hist @ [(M, a, c, w, r)]) owners'"

definition handle_at :: "session_owners \<Rightarrow> session \<Rightarrow> string \<Rightarrow> string option" where
  "handle_at owners a oid = (case owners a of None \<Rightarrow> None | Some m \<Rightarrow> m oid)"

lemma handle_at_simps [simp]:
  "handle_at newSessionOwners a oid = None"
  "handle_at (put owners b i h) a oid = (if a = b \<and> oid = i then Some h else handle_at owners a oid)"
  "handle_at (forget owners b i) a oid = (if a = b \<and> oid = i then None else handle_at owners a oid)"
  by (auto simp: handle_at_def newSessionOwners_def put_def forget_def split: option.splits)

lemma resolve_handle_at:
  "ai_owner_handle i = [] \<Longrightarrow> resolve owners a i = Inr h \<longleftrightarrow>
     ai_observation_id i \<noteq> [] \<and> h \<noteq> [] \<and> handle_at owners a (ai_observation_id i) = Some h"
  by (auto simp: resolve_def handle_at_def split: option.splits)

text \<open>A call that adds an entry began an ephemeral observation; one that ended it removes it.\<close>

definition begins_ephemeral ::
    "'z servicelib_scheme \<Rightarrow> store \<Rightarrow> string \<Rightarrow> string \<Rightarrow> session \<Rightarrow> machine \<times> session \<times> tool_call \<times> content world \<times> tool_output res \<Rightarrow> bool" where
  "begins_ephemeral L s oid h a e \<longleftrightarrow>
     (\<exists>M scope w b w'. e = (M, a, BeginTaskObservation scope, w, Inr (Began (b\<lparr>br_owner_handle := []\<rparr>)))
        \<and> Begin L s M scope w = (Inr b, w') \<and> br_recovery_profile b = RecoveryEphemeral
        \<and> br_observation_id b = oid \<and> br_owner_handle b = h)"

definition ends :: "string \<Rightarrow> session \<Rightarrow> machine \<times> session \<times> tool_call \<times> content world \<times> tool_output res \<Rightarrow> bool" where
  "ends oid a e \<longleftrightarrow> (\<exists>M i w v. e = (M, a, EndTaskObservation i, w, Inr v) \<and> ai_observation_id i = oid)"

lemma begin_entry:
  "begin_task_observation L s M a i owners w = (r, owners', w') \<Longrightarrow> handle_at owners' b oid = Some h \<Longrightarrow>
     handle_at owners b oid = Some h \<or> b = a \<and> begins_ephemeral L s oid h a (M, a, BeginTaskObservation i, w, map_sum id Began r)"
  unfolding begin_task_observation_def begins_ephemeral_def
  by (auto split: prod.splits sum.splits if_splits)

lemma end_entry:
  "end_task_observation L s M a i owners w = (r, owners', w') \<Longrightarrow> handle_at owners' b oid = Some h \<Longrightarrow> oid \<noteq> [] \<Longrightarrow>
     handle_at owners b oid = Some h \<and> \<not> (b = a \<and> ai_observation_id i = oid \<and> is_ok r)"
  unfolding end_task_observation_def with_handle_def
  by (auto split: prod.splits sum.splits if_splits)

text \<open>The other tools leave the table alone.\<close>

definition table_kept :: "'a tool \<Rightarrow> bool" where
  "table_kept t \<longleftrightarrow> (\<forall>owners w. fst (snd (t owners w)) = owners)"

lemma table_kept_service [simp]: "table_kept (run_service m)"
  by (simp add: table_kept_def run_service_def split: prod.splits)

lemma table_kept_handle: "(\<And>h. table_kept (f h)) \<Longrightarrow> table_kept (with_handle a i f)"
  by (auto simp: table_kept_def with_handle_def split: sum.splits)

lemma table_kept_labelled: "table_kept t \<Longrightarrow> table_kept (labelled f t)"
  by (auto simp: table_kept_def labelled_def split: prod.splits sum.splits) (metis fst_conv snd_conv)+

lemma table_kept_append: "table_kept (append_task_events L s M a i)"
  by (simp add: append_task_events_cases Let_def table_kept_handle) (simp add: table_kept_def)

lemma table_kept_call:
  "(case c of BeginTaskObservation _ \<Rightarrow> False | EndTaskObservation _ \<Rightarrow> False | _ \<Rightarrow> True) \<Longrightarrow> table_kept (call_tool L s M a c)"
  by (cases c)
    (auto intro!: table_kept_labelled table_kept_append table_kept_handle
      simp: inspect_completed_task_def get_residue_report_def verify_task_residue_def delegate_task_executor_def
        resolve_residue_candidate_def Let_def)

lemma table_keptD: "table_kept t \<Longrightarrow> t owners w = (r, owners', w') \<Longrightarrow> owners' = owners"
  unfolding table_kept_def by (metis fst_conv snd_conv)

lemma call_entry:
  assumes "call_tool L s M a c owners w = (r, owners', w')" "handle_at owners' b oid = Some h" "oid \<noteq> []"
  shows "handle_at owners b oid = Some h \<and> \<not> (b = a \<and> ends oid a (M, a, c, w, r))
    \<or> b = a \<and> begins_ephemeral L s oid h a (M, a, c, w, r)"
proof (cases c)
  case (BeginTaskObservation i)
  from assms(1) obtain r1 where "begin_task_observation L s M a i owners w = (r1, owners', w')" "r = map_sum id Began r1"
    by (auto simp: BeginTaskObservation labelled_def split: prod.splits sum.splits)
  moreover note begin_entry [OF this(1) assms(2)]
  ultimately show ?thesis by (auto simp: BeginTaskObservation ends_def)
next
  case (EndTaskObservation i)
  from assms(1) obtain r1 where "end_task_observation L s M a i owners w = (r1, owners', w')" "r = map_sum id Summarized r1"
    by (auto simp: EndTaskObservation labelled_def split: prod.splits sum.splits)
  moreover note end_entry [OF this(1) assms(2,3)]
  ultimately show ?thesis by (cases r1) (auto simp: EndTaskObservation ends_def)
qed (use table_keptD [OF table_kept_call assms(1)] assms(2) in \<open>auto simp: ends_def\<close>)

lemma served_entry:
  assumes "served L s hist owners" "handle_at owners a oid = Some h" "oid \<noteq> []"
  shows "\<exists>before e later. hist = before @ e # later \<and> begins_ephemeral L s oid h a e \<and> (\<forall>e' \<in> set later. \<not> ends oid a e')"
  using assms(1,2)
proof (induction rule: served.induct)
  case (call hist owners M b c w r owners' w')
  from call_entry [OF call.hyps(2) call.prems assms(3)] show ?case
  proof
    assume kept: "handle_at owners a oid = Some h \<and> \<not> (a = b \<and> ends oid b (M, b, c, w, r))"
    then obtain before e later where "hist = before @ e # later" "begins_ephemeral L s oid h a e" "\<forall>e' \<in> set later. \<not> ends oid a e'"
      using call.IH by blast
    moreover have "\<not> ends oid a (M, b, c, w, r)" using kept by (auto simp: ends_def)
    ultimately show ?thesis
      by (intro exI [of _ before] exI [of _ e] exI [of _ "later @ [(M, b, c, w, r)]"]) simp
  next
    assume "a = b \<and> begins_ephemeral L s oid h b (M, b, c, w, r)"
    then show ?thesis by (intro exI [of _ hist] exI [of _ "(M, b, c, w, r)"] exI [of _ "[]"]) simp
  qed
qed simp

text \<open>
  C17: Ephemeral authority: whenever the server accepts a call without an owner handle, the handle
  it acts under was minted by an earlier \<open>begin_task_observation\<close> with profile
  \<open>EPHEMERAL\<close> in this very session, whose output had the handle removed, for exactly the
  presented observation id, and no later \<open>end_task_observation\<close> of that id in the session
  has succeeded. This holds for every history of calls of all sessions.
\<close>

theorem ephemeral_confined:
  assumes "served L s hist owners" "ai_owner_handle i = []" "resolve owners a i = Inr handle"
  shows "\<exists>before M scope w b w' later.
      hist = before @ (M, a, BeginTaskObservation scope, w, Inr (Began (b\<lparr>br_owner_handle := []\<rparr>))) # later
    \<and> Begin L s M scope w = (Inr b, w') \<and> br_recovery_profile b = RecoveryEphemeral
    \<and> br_observation_id b = ai_observation_id i \<and> br_owner_handle b = handle
    \<and> \<not> list_ex (ends (ai_observation_id i) a) later"
proof -
  from assms(2,3) have "handle_at owners a (ai_observation_id i) = Some handle" "ai_observation_id i \<noteq> []"
    by (simp_all add: resolve_handle_at)
  from served_entry [OF assms(1) this] show ?thesis
    unfolding begins_ephemeral_def list_ex_iff by blast
qed

lemma Begin_ephemeral_resolves:
  assumes "Begin L s M scope w = (Inr b, w')" "s_recovery_profile scope = RecoveryEphemeral"
  shows "call_tool L s M a (BeginTaskObservation scope) owners w
      = (Inr (Began (b\<lparr>br_owner_handle := []\<rparr>)), put owners a (br_observation_id b) (br_owner_handle b), w')"
    "resolve (put owners a (br_observation_id b) (br_owner_handle b)) a
       \<lparr>ai_owner_handle = [], ai_observation_id = br_observation_id b, ai_report_id = []\<rparr> = Inr (br_owner_handle b)"
proof -
  from assms(1) obtain ow where "br_observation_id b = ''observation-'' @ o_opaque_id ow" "br_owner_handle b = owner_string L ow"
      "br_recovery_profile b = s_recovery_profile (with_defaults scope)"
    by (rule Begin_Inr) simp
  then have b: "br_recovery_profile b = RecoveryEphemeral" "br_observation_id b \<noteq> []" "br_owner_handle b \<noteq> []"
    using assms(2) by (simp_all add: with_defaults_def owner_string_def ownerPrefix_def)
  show "call_tool L s M a (BeginTaskObservation scope) owners w
      = (Inr (Began (b\<lparr>br_owner_handle := []\<rparr>)), put owners a (br_observation_id b) (br_owner_handle b), w')"
    using assms(1) b by (simp add: begin_task_observation_def labelled_def)
  show "resolve (put owners a (br_observation_id b) (br_owner_handle b)) a
       \<lparr>ai_owner_handle = [], ai_observation_id = br_observation_id b, ai_report_id = []\<rparr> = Inr (br_owner_handle b)"
    using b by (simp add: resolve_handle_at)
qed

theorem ephemeral_confined_witness:
  "\<exists>hist owners (i :: access_input) handle before M scope w b w' later.
      served demo_beginlib demo_store hist owners \<and> ai_owner_handle i = [] \<and> resolve owners 1 i = Inr handle
    \<and> hist = before @ (M, 1, BeginTaskObservation scope, w, Inr (Began (b\<lparr>br_owner_handle := []\<rparr>))) # later
    \<and> Begin demo_beginlib demo_store M scope w = (Inr b, w') \<and> br_owner_handle b = handle"
proof -
  obtain b where b: "Begin demo_beginlib demo_store demo_machine demo_brief_scope demo_world
      = (Inr b, snd (Begin demo_beginlib demo_store demo_machine demo_brief_scope demo_world))" by (rule demo_begins_world)
  have "s_recovery_profile demo_brief_scope = RecoveryEphemeral" by (simp add: demo_brief_scope_def)
  note call = Begin_ephemeral_resolves [OF b this, where a = 1 and owners = newSessionOwners]
  let ?i = "\<lparr>ai_owner_handle = [], ai_observation_id = br_observation_id b, ai_report_id = []\<rparr>"
  note h = served.call [OF served.start call(1)]
  have "ai_owner_handle ?i = []" by simp
  from ephemeral_confined [OF h this call(2)] h call(2) this show ?thesis by blast
qed

section \<open>Annotations\<close>

lemma keeps_ResolveCandidate [simp]: "preserves {} (ResolveCandidate L s M h cid)"
  unfolding ResolveCandidate_def by (intro preserves_bind) (auto split: option.splits)

text \<open>The tools annotated \<open>ReadOnlyHint\<close> change neither a file nor the table.\<close>

lemma read_only_tools:
  assumes "read_only_hint c" "call_tool L s M a c owners w = (r, owners', w')"
  shows "owners' = owners \<and> file_at w' = file_at w"
proof -
  have io: "preserves {} (io_bind (ResolveCandidate L s M h (rv_candidate_id i)) (\<lambda>exact. io_return (f exact)))"
    for h i and f :: "string \<Rightarrow> resolve_output" by (intro preserves_bind) simp_all
  have "file_at w' = file_at w"
    using assms keeps_files [OF keeps_Summarize] keeps_files [OF io]
    by (cases c) (auto simp: labelled_def get_residue_report_def resolve_residue_candidate_def with_handle_def run_service_def
        Let_def split: prod.splits sum.splits)
  moreover have "table_kept (call_tool L s M a c)" using assms(1) by (intro table_kept_call) (cases c; simp)
  ultimately show ?thesis using table_keptD assms(2) by blast
qed

end
