(* ===== verification/Service_Frame.thy ===== *)
theory Service_Frame
  imports Service_Begin
begin

text \<open>
  Where the operations of the service can write: below the home of the store, and at the files
  that the handle they are given names. A handle with plain ids names files below the home only,
  and handles the service mints itself are plain.
\<close>

section \<open>Plain handles\<close>

definition plain_handle :: "'z caplib_scheme \<Rightarrow> string \<Rightarrow> bool" where
  "plain_handle L h \<longleftrightarrow> (\<forall>ow. ParseOwner L h = Inr ow \<longrightarrow> proper (o_opaque_id ow))
     \<and> (\<forall>now x. ParseExecutor L h now = Inr x \<longrightarrow> proper (x_opaque_id x) \<and> sep \<notin> set (x_grant_id x))"

lemma plain_owner_string:
  assumes "unjson_owner L (json_owner L ow) = Some ow" "proper (o_opaque_id ow)"
  shows "plain_handle L (owner_string L ow)"
proof -
  have "ow' = ow" if "ParseOwner L (owner_string L ow) = Inr ow'" for ow'
    using that assms(1) by (auto simp: ParseOwner_def owner_string_def decode_owner_def b64_decode_encode split: if_splits)
  moreover have "has_prefix (owner_string L ow) ownerPrefix" by (simp add: owner_string_def)
  then have "\<not> has_prefix (owner_string L ow) executorPrefix" by (rule prefixes_exclusive)
  then have "ParseExecutor L (owner_string L ow) now \<noteq> Inr x" for now x using ParseExecutor_Inr by blast
  ultimately show ?thesis using assms(2) by (auto simp: plain_handle_def)
qed

lemma minted_plain: "owner_json_ok L \<Longrightarrow> minted ow \<Longrightarrow> plain_handle L (owner_string L ow)"
  by (simp add: plain_owner_string minted_proper owner_json_ok_def)

section \<open>Frames\<close>

definition store_files :: "store \<Rightarrow> string set" where
  "store_files s = (\<Union>i \<in> Collect proper. touched s i)"

lemma store_filesI: "proper i \<Longrightarrow> touched s i \<subseteq> store_files s"
  by (auto simp: store_files_def)

lemma store_files_below:
  assumes "store_layout s hs" "p \<in> store_files s"
  obtains ts where "ts \<noteq> []" "list_all proper ts" "p = abs_path (hs @ ts)"
proof -
  from assms(2) obtain i where "proper i" "p \<in> touched s i" by (auto simp: store_files_def)
  then obtain ts where "list_all proper ts" "p = abs_path (hs @ ts)" "touched_tail i ts" by (rule touched_cases [OF assms(1)])
  moreover from this have "ts \<noteq> []" by (auto simp: touched_tail_def)
  ultimately show ?thesis using that by blast
qed

lemma preserves_void_iff [simp]: "preserves P (io_void m) \<longleftrightarrow> preserves P m"
proof -
  have "snd (io_void m w) = snd (m w)" for w
    by (cases "m w"; cases "fst (m w)") (auto simp: io_void_def io_bind_def io_return_def)
  then show ?thesis by (simp add: preserves_def)
qed

text \<open>A handle that names only files of a given set.\<close>

definition names_in :: "'z caplib_scheme \<Rightarrow> store \<Rightarrow> string set \<Rightarrow> string \<Rightarrow> bool" where
  "names_in L s P h \<longleftrightarrow> handle_files L s h \<subseteq> P"

lemma plain_names_in:
  assumes "store_layout s hs" "store_files s \<subseteq> P" "plain_handle L h"
  shows "names_in L s P h"
proof -
  have "named_files s i \<subseteq> store_files s" if "proper i" for i
    using named_touched [OF assms(1) that] store_filesI [OF that] by blast
  moreover have "batch_files s x \<subseteq> store_files s" if "proper (x_opaque_id x)" "sep \<notin> set (x_grant_id x)" for x
    using batch_events_plain [OF assms(1) that] store_filesI [OF that(1)] by (auto simp: touched_def)
  ultimately show ?thesis using assms(2,3) unfolding names_in_def handle_files_def plain_handle_def by blast
qed

text \<open>Any store operation under such a handle.\<close>

lemma store_ops_confined:
  assumes "names_in L s P h"
  shows "preserves P (CreateOwnedTaskWithMetadata L s h t b p m)"
    "preserves P (AppendOwnedEvents L s h es)"
    "preserves P (AppendOwnedExecutorEvents L s h es)"
    "preserves P (DelegateOwnedExecutor L s h ex ts rs)"
    "preserves P (CompleteOwnedTask L s h r ev)"
    "preserves P (AppendOwnedRevision L s h v)"
    "preserves P (RetainOwnedReport L s h)"
    "preserves P (ForgetOwnedReport L s h)"
    "preserves P (CreateRetrospectiveGrant L s h g)"
    "preserves P (CompleteRetrospectiveGrant L s h r evd)"
proof -
  have op: "preserves P (run_op L s op)" if "op_handle op = h" for op
    by (rule preserves_mono [OF run_op_handle]) (use assms that in \<open>simp add: names_in_def\<close>)
  show "preserves P (CreateOwnedTaskWithMetadata L s h t b p m)"
    "preserves P (AppendOwnedEvents L s h es)"
    "preserves P (AppendOwnedExecutorEvents L s h es)"
    "preserves P (DelegateOwnedExecutor L s h ex ts rs)"
    "preserves P (CompleteOwnedTask L s h r ev)"
    "preserves P (AppendOwnedRevision L s h v)"
    "preserves P (RetainOwnedReport L s h)"
    "preserves P (ForgetOwnedReport L s h)"
    "preserves P (CreateRetrospectiveGrant L s h g)"
    "preserves P (CompleteRetrospectiveGrant L s h r evd)"
    using op [of "OpCreate h t b p m"] op [of "OpAppend h es"] op [of "OpExecutorAppend h es"] op [of "OpDelegate h ex ts rs"]
      op [of "OpComplete h r ev"] op [of "OpRevise h v"] op [of "OpRetain h"] op [of "OpForget h"]
      op [of "OpCreateGrant h g"] op [of "OpCompleteGrant h r evd"]
    by simp_all
qed

lemma keeps_any: "preserves {} m \<Longrightarrow> preserves P m"
  by (rule preserves_mono) auto

lemma keeps_service_steps [simp]:
  "preserves P (LoadOwnedTaskForAppend L s h)" "preserves P (LoadOwnedTaskForEnd L s h)"
  "preserves P (LoadRetrospectiveGrant L s h)" "preserves P (capture_now M v)" "preserves P mint_owner"
  "preserves P (GetOwnedReport L s h)" "preserves P (Summarize L s h revision cursor limit)"
  by (auto simp: LoadOwnedTaskForAppend_def LoadOwnedTask_def LoadOwnedTaskForEnd_def LoadRetrospectiveGrant_def
      capture_now_def mint_owner_def intro!: preserves_bind keeps_any [OF keeps_GetOwnedReport] keeps_any [OF keeps_Summarize])

lemma preserves_mint:
  assumes "owner_json_ok L" "\<And>ow. plain_handle L (owner_string L ow) \<Longrightarrow> preserves P (f ow)"
  shows "preserves P (io_bind mint_owner f)"
  using assms mint_owner_Inr(1) minted_plain by (blast intro: preserves_bind_res keeps_service_steps)

lemma minting_confined:
  assumes "store_layout s hs" "store_files s \<subseteq> P" "owner_json_ok L"
  shows "preserves P (Begin L s M scope)" "preserves P (GrantRetrospective L s M i)"
proof -
  note ops = store_ops_confined [OF plain_names_in [OF assms(1,2)]] preserves_mint [OF assms(3)] preserves_bind
  show "preserves P (Begin L s M scope)"
    unfolding Begin_def Let_def by (rule ops | simp)+
  show "preserves P (GrantRetrospective L s M i)"
    unfolding GrantRetrospective_def Let_def by (rule ops impI | simp)+
qed

lemma service_confined:
  assumes "names_in L s P h"
  shows "preserves P (AppendEvents L s M h events)"
    "preserves P (End L s M h)"
    "preserves P (InspectCompletedAuthorized L s M h events)"
    "preserves P (DelegateExecutor L s h ex types roots)"
proof -
  note ops = store_ops_confined [OF assms]
  show "preserves P (AppendEvents L s M h events)"
    unfolding AppendEvents_def append_as_owner_def loadTaskForAppend_def
    by (auto intro!: preserves_bind ops split: sum.splits)
  show "preserves P (End L s M h)"
    unfolding End_def end_failed_def Let_def
    by (auto intro!: preserves_bind preserves_try ops split: sum.splits prod.splits)
  show "preserves P (InspectCompletedAuthorized L s M h events)"
    unfolding InspectCompletedAuthorized_def by (auto intro!: preserves_bind ops split: prod.splits)
  show "preserves P (DelegateExecutor L s h ex types roots)"
    unfolding DelegateExecutor_def by (auto intro!: preserves_bind ops)
qed

lemma Verify_confined: "names_in L s P h \<Longrightarrow> preserves P (Verify L s M h)"
  unfolding Verify_def Let_def by (auto intro!: preserves_bind store_ops_confined)

end
