(* ===== verification/Cli.thy ===== *)
theory Cli
  imports Mcp_Server Service_Frame
begin

text \<open>
  Packages \<open>cli\<close> (\<open>run.go\<close>) and \<open>versioninfo\<close>, and \<open>main.go\<close> which only calls
  them: the command line, its exit codes and what goes to standard output and standard error.
  The environment variables, the decoder of \<open>encoding/json\<close> and the encoder on standard
  output are parameters. Paths are those of Unix: \<open>runtime.GOOS\<close> is not Windows.
\<close>

section \<open>Types\<close>

record cli_access_input =
  ca_owner_handle :: string
  ca_report_id :: string

record cli_report_input =
  cr_owner_handle :: string
  cr_report_id :: string
  cr_revision :: int
  cr_cursor :: string
  cr_limit :: int

record cli_events_input =
  cv_owner_handle :: string
  cv_events :: "task_event list"

record cli_resolve_input =
  cx_owner_handle :: string
  cx_candidate_id :: string

record doctor_result =
  dr_healthy :: bool
  dr_version :: string
  dr_state_home :: string
  dr_network_access :: bool
  dr_telemetry :: bool

text \<open>The values \<open>result\<close> takes.\<close>

datatype cli_result =
    BeginResult begin_result
  | EventsResult bool int
  | SummaryResult report_summary
  | GrantResult grant_result
  | RetainedResult bool
  | ForgottenResult bool
  | ResolveResult string string
  | DoctorResult doctor_result

text \<open>
  Standard output is a line, one JSON value, or what the MCP server answers, whose messages carry
  the results of its tools. Standard error is the object \<open>{"error": text}\<close> or the trace of a panic.
\<close>

datatype cli_stdout = VersionLine string | Encoded cli_result | Protocol "tool_output res list"

datatype cli_stderr = ErrorLine string | PanicTrace string

record cli_outcome =
  co_code :: int
  co_stdout :: "cli_stdout option"
  co_stderr :: "cli_stderr option"

record cli_env =
  ce_goos :: string
  ce_are_home :: string
  ce_xdg_state_home :: string
  ce_user_home_dir :: "string res"

record clilib = servicelib +
  dec_scope :: "string \<Rightarrow> (task_scope \<times> stream_rest) res"
  dec_events :: "string \<Rightarrow> (cli_events_input \<times> stream_rest) res"
  dec_access :: "string \<Rightarrow> (cli_access_input \<times> stream_rest) res"
  dec_inspect :: "string \<Rightarrow> (inspect_input \<times> stream_rest) res"
  dec_retrospective :: "string \<Rightarrow> (retrospective_input \<times> stream_rest) res"
  dec_report :: "string \<Rightarrow> (cli_report_input \<times> stream_rest) res"
  dec_resolve :: "string \<Rightarrow> (cli_resolve_input \<times> stream_rest) res"
  encode_stdout :: "cli_result \<Rightarrow> unit res"

section \<open>Operations\<close>

definition Version :: string where "Version = ''0.3.0''"
definition Commit :: string where "Commit = ''unknown''"

definition version_string :: string where
  "version_string = ''agent-residue-evidence '' @ Version @ '' ('' @ Commit @ '')''"

text \<open>\<open>filepath.Join\<close> of several elements.\<close>

definition path_join_all :: "string list \<Rightarrow> string" where
  "path_join_all elems =
     (case filter (\<lambda>e. e \<noteq> []) elems of [] \<Rightarrow> [] | es \<Rightarrow> path_clean (join_with sep es))"

definition stateHome :: "cli_env \<Rightarrow> string res \<Rightarrow> string res" where
  "stateHome env cwd =
     (if ce_are_home env \<noteq> [] then path_abs cwd (ce_are_home env)
      else and_then (ce_user_home_dir env) (\<lambda>home.
        if ce_goos env = ''darwin''
        then Inr (path_join_all [home, ''Library'', ''Application Support'', ''AgentResidueEvidence''])
        else if ce_xdg_state_home env \<noteq> [] then Inr (path_join_all [ce_xdg_state_home env, ''agent-residue-evidence''])
        else Inr (path_join_all [home, ''.local'', ''state'', ''agent-residue-evidence''])))"

text \<open>At most 16 MiB of standard input are read.\<close>

definition decodeOne :: "(string \<Rightarrow> ('a \<times> stream_rest) res) \<Rightarrow> string \<Rightarrow> 'a res" where
  "decodeOne decode stdin =
     and_then (decode (take (16 * 1024 * 1024) stdin)) (\<lambda>(v, rest).
       case rest of
         AtEOF \<Rightarrow> Inr v
       | MoreJSON \<Rightarrow> Inl (errors_new ''multiple JSON values are not allowed'')
       | BadJSON e \<Rightarrow> Inl e)"

definition fail :: "machine \<Rightarrow> err \<Rightarrow> cli_outcome" where
  "fail M e = \<lparr>co_code = 1, co_stdout = None, co_stderr = Some (ErrorLine (err_text (na_quote (mc_native M)) e))\<rparr>"

text \<open>How a call that did not succeed ends: an error is printed, a panic ends the process with status 2.\<close>

definition failure :: "machine \<Rightarrow> err \<Rightarrow> cli_outcome" where
  "failure M e =
     (case e of GoPanic m \<Rightarrow> \<lparr>co_code = 2, co_stdout = None, co_stderr = Some (PanicTrace m)\<rparr> | _ \<Rightarrow> fail M e)"

definition usage :: err where
  "usage = errors_new ''usage: agent-residue-evidence begin|event append|end|grant retrospective|inspect-completed|report get|report retain|report forget|verify|candidate resolve|doctor|mcp|--version''"

definition with_input ::
    "(string \<Rightarrow> ('a \<times> stream_rest) res) \<Rightarrow> string \<Rightarrow> ('a \<Rightarrow> (content, cli_result) io) \<Rightarrow> (content, cli_result) io" where
  "with_input decode stdin f = io_bind (io_lift (decodeOne decode stdin)) f"

text \<open>The commands; none for arguments that are no command.\<close>

definition command ::
    "'z clilib_scheme \<Rightarrow> store \<Rightarrow> machine \<Rightarrow> string \<Rightarrow> string list \<Rightarrow> string \<Rightarrow> (content, cli_result) io option" where
  "command L s M home args stdin =
     (if args = [''begin''] then Some (with_input (dec_scope L) stdin (\<lambda>input.
        if s_recovery_profile input = RecoveryEphemeral
        then io_fail (errors_new ''EPHEMERAL requires a persistent MCP session'')
        else io_bind (Begin L s M input) (\<lambda>r. io_return (BeginResult r))))
      else if args = [''event'', ''append''] then Some (with_input (dec_events L) stdin (\<lambda>input.
        io_bind (AppendEvents L s M (cv_owner_handle input) (cv_events input)) (\<lambda>_.
          io_return (EventsResult True (int (length (cv_events input)))))))
      else if args = [''end''] then Some (with_input (dec_access L) stdin (\<lambda>input.
        io_bind (End L s M (ca_owner_handle input)) (\<lambda>_.
        io_bind (Summarize L s (ca_owner_handle input) 0 [] 20) (\<lambda>r. io_return (SummaryResult r)))))
      else if args = [''grant'', ''retrospective''] then Some (with_input (dec_inspect L) stdin (\<lambda>input.
        io_bind (GrantRetrospective L s M input) (\<lambda>r. io_return (GrantResult r))))
      else if args = [''inspect-completed''] then Some (with_input (dec_retrospective L) stdin (\<lambda>input.
        io_bind (InspectCompletedAuthorized L s M (rt_grant_handle input) (rt_events input)) (\<lambda>_.
        io_bind (Summarize L s (rt_grant_handle input) 0 [] 20) (\<lambda>r. io_return (SummaryResult r)))))
      else if args = [''report'', ''get''] then Some (with_input (dec_report L) stdin (\<lambda>input.
        let limit = (if cr_limit input = 0 then 20 else cr_limit input)
        in io_bind (Summarize L s (cr_owner_handle input) (cr_revision input) (cr_cursor input) limit) (\<lambda>r.
             io_return (SummaryResult r))))
      else if args = [''report'', ''retain''] then Some (with_input (dec_access L) stdin (\<lambda>input.
        io_bind (RetainOwnedReport L s (ca_owner_handle input)) (\<lambda>_. io_return (RetainedResult True))))
      else if args = [''report'', ''forget''] then Some (with_input (dec_access L) stdin (\<lambda>input.
        io_bind (ForgetOwnedReport L s (ca_owner_handle input)) (\<lambda>_. io_return (ForgottenResult True))))
      else if args = [''verify''] then Some (with_input (dec_access L) stdin (\<lambda>input.
        io_bind (Verify L s M (ca_owner_handle input)) (\<lambda>revision.
        io_bind (Summarize L s (ca_owner_handle input) (v_revision revision) [] 20) (\<lambda>r. io_return (SummaryResult r)))))
      else if args = [''candidate'', ''resolve''] then Some (with_input (dec_resolve L) stdin (\<lambda>input.
        io_bind (ResolveCandidate L s M (cx_owner_handle input) (cx_candidate_id input)) (\<lambda>exact.
          io_return (ResolveResult (cx_candidate_id input) exact))))
      else if args = [''doctor''] then Some (io_return (DoctorResult
        \<lparr>dr_healthy = True, dr_version = Version, dr_state_home = home, dr_network_access = False, dr_telemetry = False\<rparr>))
      else None)"

text \<open>
  \<open>Run\<close>; \<open>calls\<close> and \<open>ended\<close> are what the client of \<open>mcp\<close> calls and how its
  connection ends. Every successful branch sets \<open>result\<close>, so its default is never used.
\<close>

definition Run ::
    "'z clilib_scheme \<Rightarrow> cli_env \<Rightarrow> machine \<Rightarrow> (session \<times> tool_call) list \<Rightarrow> unit res \<Rightarrow> string list \<Rightarrow> string
       \<Rightarrow> content world \<Rightarrow> cli_outcome \<times> content world" where
  "Run L env M calls ended args stdin w =
     (if args = [''--version''] then (\<lparr>co_code = 0, co_stdout = Some (VersionLine version_string), co_stderr = None\<rparr>, w)
      else case stateHome env (getwd (mc_os M)) of
        Inl e \<Rightarrow> (failure M e, w)
      | Inr home \<Rightarrow>
          (case Open (getwd (mc_os M)) home [] w of
             (Inl e, w1) \<Rightarrow> (failure M e, w1)
           | (Inr s, w1) \<Rightarrow>
               if args = [''mcp''] then
                 (case mcp_Run L s M calls ended w1 of
                    ((rs, Inl e), w2) \<Rightarrow> ((failure M e)\<lparr>co_stdout := Some (Protocol rs)\<rparr>, w2)
                  | ((rs, Inr _), w2) \<Rightarrow> (\<lparr>co_code = 0, co_stdout = Some (Protocol rs), co_stderr = None\<rparr>, w2))
               else case command L s M home args stdin of
                 None \<Rightarrow> ((fail M usage)\<lparr>co_code := 2\<rparr>, w1)
               | Some m \<Rightarrow>
                   (case m w1 of
                      (Inl e, w2) \<Rightarrow> (failure M e, w2)
                    | (Inr result, w2) \<Rightarrow>
                        (case encode_stdout L result of
                           Inl e \<Rightarrow> (failure M e, w2)
                         | Inr _ \<Rightarrow> (\<lparr>co_code = 0, co_stdout = Some (Encoded result), co_stderr = None\<rparr>, w2)))))"

text \<open>\<open>main.go\<close>: the exit code of the process.\<close>

definition main_run ::
    "'z clilib_scheme \<Rightarrow> cli_env \<Rightarrow> machine \<Rightarrow> (session \<times> tool_call) list \<Rightarrow> unit res \<Rightarrow> string list \<Rightarrow> string
       \<Rightarrow> content world \<Rightarrow> int" where
  "main_run L env M calls ended args stdin w = co_code (fst (Run L env M calls ended args stdin w))"

section \<open>Exit codes\<close>

definition known_commands :: "string list list" where
  "known_commands =
     [[''--version''], [''begin''], [''event'', ''append''], [''end''], [''grant'', ''retrospective''], [''inspect-completed''],
      [''report'', ''get''], [''report'', ''retain''], [''report'', ''forget''], [''verify''], [''candidate'', ''resolve''],
      [''doctor''], [''mcp'']]"

definition opens :: "cli_env \<Rightarrow> machine \<Rightarrow> content world \<Rightarrow> bool" where
  "opens env M w \<longleftrightarrow>
     (case stateHome env (getwd (mc_os M)) of Inl _ \<Rightarrow> False | Inr home \<Rightarrow> is_ok (fst (Open (getwd (mc_os M)) home [] w)))"

lemma command_known: "args \<noteq> [''--version''] \<Longrightarrow> args \<noteq> [''mcp''] \<Longrightarrow> command L s M home args stdin = None \<longleftrightarrow> args \<notin> set known_commands"
  by (simp add: command_def known_commands_def)

lemma fail_fields [simp]:
  "co_code (fail M e) = 1" "co_stdout (fail M e) = None" "co_stderr (fail M e) = Some (ErrorLine (err_text (na_quote (mc_native M)) e))"
  by (simp_all add: fail_def)

lemma failure_cases:
  obtains (error) "\<And>m. e \<noteq> GoPanic m" "failure M e = fail M e"
  | (panic) m where "e = GoPanic m" "failure M e = \<lparr>co_code = 2, co_stdout = None, co_stderr = Some (PanicTrace m)\<rparr>"
  by (cases e) (simp_all add: failure_def)

lemma keeps_make_dirs [simp]: "preserves P (make_private_dirs ds)"
  by (induction ds) (auto intro!: preserves_bind)

lemma keeps_Open [simp]: "preserves P (Open cwd home options)"
  unfolding Open_def Let_def by (auto intro!: preserves_bind)

definition outcome :: "'z clilib_scheme \<Rightarrow> machine \<Rightarrow> cli_result res \<Rightarrow> cli_outcome" where
  "outcome L M r =
     (case and_then r (\<lambda>result. and_then (encode_stdout L result) (\<lambda>_. Inr result)) of
        Inl e \<Rightarrow> failure M e
      | Inr result \<Rightarrow> \<lparr>co_code = 0, co_stdout = Some (Encoded result), co_stderr = None\<rparr>)"

lemma Run_cases:
  assumes "Run L env M calls ended args stdin w = (out, w')"
  obtains (version) "args = [''--version'']" "out = \<lparr>co_code = 0, co_stdout = Some (VersionLine version_string), co_stderr = None\<rparr>" "w' = w"
  | (closed) e where "args \<noteq> [''--version'']" "\<not> opens env M w" "out = failure M e" "file_at w' = file_at w"
  | (opened) home s w1 where "args \<noteq> [''--version'']" "opens env M w" "stateHome env (getwd (mc_os M)) = Inr home"
      "Open (getwd (mc_os M)) home [] w = (Inr s, w1)"
      "if args = [''mcp''] then \<exists>rs r. mcp_Run L s M calls ended w1 = ((rs, r), w')
           \<and> out = (case r of Inl e \<Rightarrow> (failure M e)\<lparr>co_stdout := Some (Protocol rs)\<rparr>
               | Inr _ \<Rightarrow> \<lparr>co_code = 0, co_stdout = Some (Protocol rs), co_stderr = None\<rparr>)
       else case command L s M home args stdin of
              None \<Rightarrow> out = (fail M usage)\<lparr>co_code := 2\<rparr> \<and> w' = w1
            | Some m \<Rightarrow> \<exists>r. m w1 = (r, w') \<and> out = outcome L M r"
proof (cases "args = [''--version'']")
  case True
  with assms version show ?thesis by (simp add: Run_def)
next
  case False
  show ?thesis
  proof (cases "stateHome env (getwd (mc_os M))")
    case (Inl e)
    with assms False show ?thesis by (intro closed [of e]) (simp_all add: Run_def opens_def)
  next
    case home: (Inr home)
    obtain r w1 where o: "Open (getwd (mc_os M)) home [] w = (r, w1)" by force
    show ?thesis
    proof (cases r)
      case (Inl e)
      have "file_at w1 = file_at w" by (rule keeps_files [OF keeps_Open o])
      with Inl o assms False home show ?thesis by (intro closed [of e]) (simp_all add: Run_def opens_def)
    next
      case (Inr s)
      show ?thesis
      proof (rule opened [OF False _ home o [unfolded Inr]])
        show "opens env M w" using home o Inr by (simp add: opens_def)
        show "if args = [''mcp''] then \<exists>rs r. mcp_Run L s M calls ended w1 = ((rs, r), w')
           \<and> out = (case r of Inl e \<Rightarrow> (failure M e)\<lparr>co_stdout := Some (Protocol rs)\<rparr>
               | Inr _ \<Rightarrow> \<lparr>co_code = 0, co_stdout = Some (Protocol rs), co_stderr = None\<rparr>)
          else case command L s M home args stdin of
              None \<Rightarrow> out = (fail M usage)\<lparr>co_code := 2\<rparr> \<and> w' = w1
            | Some m \<Rightarrow> \<exists>r. m w1 = (r, w') \<and> out = outcome L M r"
          using assms False home o Inr
          by (auto simp: Run_def outcome_def and_then_def split: prod.splits sum.splits option.splits)
      qed
    qed
  qed
qed

text \<open>What each exit code says about the two streams; the MCP server has answered its client in any case.\<close>

definition well_reported :: "string list \<Rightarrow> cli_outcome \<Rightarrow> bool" where
  "well_reported args out \<longleftrightarrow>
     co_code out = 0 \<and> co_stderr out = None
       \<and> (case co_stdout out of None \<Rightarrow> False
          | Some (VersionLine l) \<Rightarrow> args = [''--version''] | Some (Encoded v) \<Rightarrow> args \<notin> {[''--version''], [''mcp'']}
          | Some (Protocol rs) \<Rightarrow> args = [''mcp''])
     \<or> (co_stdout out = None \<or> args = [''mcp''] \<and> (\<exists>rs. co_stdout out = Some (Protocol rs)))
       \<and> (co_code out = 1 \<and> (\<exists>t. co_stderr out = Some (ErrorLine t))
         \<or> co_code out = 2 \<and> (args \<notin> set known_commands \<and> (\<exists>q. co_stderr out = Some (ErrorLine (err_text q usage)))
              \<or> (\<exists>t. co_stderr out = Some (PanicTrace t))))"

definition panicked :: "cli_outcome \<Rightarrow> bool" where
  "panicked out \<longleftrightarrow> (\<exists>t. co_stderr out = Some (PanicTrace t))"

lemma failure_reported:
  "well_reported args (failure M e)" "args = [''mcp''] \<Longrightarrow> well_reported args ((failure M e)\<lparr>co_stdout := Some (Protocol rs)\<rparr>)"
  "co_code (failure M e) = 2 \<longleftrightarrow> panicked (failure M e)" "panicked (out\<lparr>co_stdout := x\<rparr>) = panicked out"
  by (cases rule: failure_cases [of e M]; simp add: well_reported_def panicked_def)+

lemma outcome_reported:
  "args \<notin> {[''--version''], [''mcp'']} \<Longrightarrow> well_reported args (outcome L M r)
     \<and> (co_code (outcome L M r) = 2 \<longleftrightarrow> panicked (outcome L M r))"
  by (auto simp: outcome_def failure_reported split: sum.splits) (simp_all add: well_reported_def panicked_def)

text \<open>
  C40: What the process reports: exit code 0 comes with nothing on standard error and with the result on
  standard output (the version line, one JSON value, or the answers of the MCP server); code 1 comes
  with an error object on standard error; code 2 with the usage message or the trace of a
  panic. A failing run prints no result, except that the MCP server has answered
  the calls made before. Code 2 means exactly that the state home could be opened and the arguments are
  none of the documented commands, or that a panic ended the process; when the state home cannot be
  opened an unknown command also ends with code 1. Unknown commands write no file.
\<close>

theorem Run_exit:
  assumes "Run L env M calls ended args stdin w = (out, w')"
  shows "well_reported args out
    \<and> (co_code out = 2 \<longleftrightarrow> opens env M w \<and> args \<notin> set known_commands \<or> panicked out)
    \<and> (args \<notin> set known_commands \<longrightarrow> file_at w' = file_at w)"
  using assms
proof (cases rule: Run_cases)
  case (opened home s w1)
  have f: "file_at w1 = file_at w" by (rule keeps_files [OF keeps_Open opened(4)])
  show ?thesis
  proof (cases "args = [''mcp'']")
    case True
    with opened(5) obtain rs and r :: "unit res" where
      "out = (case r of Inl e \<Rightarrow> (failure M e)\<lparr>co_stdout := Some (Protocol rs)\<rparr>
         | Inr _ \<Rightarrow> \<lparr>co_code = 0, co_stdout = Some (Protocol rs), co_stderr = None\<rparr>)"
      unfolding if_P [OF True] by blast
    with True show ?thesis
      by (cases r) (simp_all add: failure_reported known_commands_def, simp add: well_reported_def panicked_def)
  next
    case False
    show ?thesis
    proof (cases "command L s M home args stdin")
      case None
      with opened False f command_known [OF opened(1) False, of L s M home stdin]
      show ?thesis by (auto simp: well_reported_def fail_def)
    next
      case (Some m)
      then have "args \<in> set known_commands" using command_known [OF opened(1) False, of L s M home stdin] by simp
      with opened False Some outcome_reported [of args] show ?thesis by auto
    qed
  qed
qed (auto simp: failure_reported, auto simp: well_reported_def known_commands_def panicked_def)

section \<open>What a run may write\<close>

text \<open>Session tables whose handles name files of a set \<open>P\<close>, and tools that keep that and change no other file.\<close>

definition table_in :: "'z caplib_scheme \<Rightarrow> store \<Rightarrow> string set \<Rightarrow> session_owners \<Rightarrow> bool" where
  "table_in L s P owners \<longleftrightarrow> (\<forall>a oid h. handle_at owners a oid = Some h \<longrightarrow> names_in L s P h)"

definition tool_confined :: "'z caplib_scheme \<Rightarrow> store \<Rightarrow> string set \<Rightarrow> 'a tool \<Rightarrow> bool" where
  "tool_confined L s P t \<longleftrightarrow> (\<forall>owners w r owners' w'. table_in L s P owners \<longrightarrow> t owners w = (r, owners', w') \<longrightarrow>
     table_in L s P owners' \<and> (\<forall>q. q \<notin> P \<longrightarrow> file_at w' q = file_at w q))"

lemma tool_confinedI:
  assumes "\<And>owners w r owners' w'. table_in L s P owners \<Longrightarrow> t owners w = (r, owners', w') \<Longrightarrow>
     table_in L s P owners' \<and> (\<forall>q. q \<notin> P \<longrightarrow> file_at w' q = file_at w q)"
  shows "tool_confined L s P t"
  using assms unfolding tool_confined_def by blast

lemma preservesD: "preserves P m \<Longrightarrow> m w = (r, w') \<Longrightarrow> q \<notin> P \<Longrightarrow> file_at w' q = file_at w q"
  unfolding preserves_def by (metis snd_conv)

lemma tool_confined_service: "preserves P m \<Longrightarrow> tool_confined L s P (run_service m)"
  by (rule tool_confinedI) (auto simp: run_service_def dest: preservesD split: prod.splits)

lemma tool_confined_fails: "tool_confined L s P (\<lambda>owners w. (Inl e, owners, w))"
  by (rule tool_confinedI) simp

lemma resolve_names:
  assumes "table_in L s P owners" "names_in L s P (ai_owner_handle i)" "resolve owners a i = Inr h"
  shows "names_in L s P h"
proof (cases "ai_owner_handle i = []")
  case True
  from assms(3) [unfolded resolve_handle_at [OF True]] assms(1) [unfolded table_in_def] show ?thesis by blast
next
  case False
  with assms(2,3) show ?thesis by (simp add: resolve_def)
qed

lemma tool_confined_handle:
  assumes "names_in L s P (ai_owner_handle i)" "\<And>h. names_in L s P h \<Longrightarrow> tool_confined L s P (f h)"
  shows "tool_confined L s P (with_handle a i f)"
proof (rule tool_confinedI)
  fix owners w r owners' w' assume t: "table_in L s P owners" "with_handle a i f owners w = (r, owners', w')"
  show "table_in L s P owners' \<and> (\<forall>q. q \<notin> P \<longrightarrow> file_at w' q = file_at w q)"
  proof (cases "resolve owners a i")
    case (Inr h)
    with t assms(2) [OF resolve_names [OF t(1) assms(1)]] show ?thesis by (simp add: with_handle_def tool_confined_def)
  qed (use t in \<open>simp add: with_handle_def\<close>)
qed

lemma tool_confined_labelled:
  assumes "tool_confined L s P t"
  shows "tool_confined L s P (labelled f t)"
proof (rule tool_confinedI)
  fix owners w r owners' w' assume o: "table_in L s P owners" and "labelled f t owners w = (r, owners', w')"
  then obtain r1 where "t owners w = (r1, owners', w')" by (auto simp: labelled_def split: prod.splits sum.splits)
  with assms o show "table_in L s P owners' \<and> (\<forall>q. q \<notin> P \<longrightarrow> file_at w' q = file_at w q)"
    unfolding tool_confined_def by blast
qed

lemma table_in_steps:
  "table_in L s P newSessionOwners"
  "table_in L s P owners \<Longrightarrow> names_in L s P h \<Longrightarrow> table_in L s P (put owners a i h)"
  "table_in L s P owners \<Longrightarrow> table_in L s P (forget owners a i)"
  by (auto simp: table_in_def split: if_splits)

lemma begin_tool_confined:
  assumes "store_layout s hs" "store_files s \<subseteq> P" "owner_json_ok L"
  shows "tool_confined L s P (begin_task_observation L s M a i)"
proof (rule tool_confinedI)
  fix owners w r owners' w'
  assume t: "table_in L s P owners" "begin_task_observation L s M a i owners w = (r, owners', w')"
  obtain rb wb where b: "Begin L s M i w = (rb, wb)" by force
  have "wb = w'" using t(2) b by (auto simp: begin_task_observation_def split: sum.splits if_splits)
  moreover have "names_in L s P (br_owner_handle out)" if "Begin L s M i w = (Inr out, wb)" for out
    using that by (rule Begin_Inr) (simp add: plain_names_in [OF assms(1,2) minted_plain [OF assms(3)]])
  then have "table_in L s P owners'"
    using t b by (auto simp: begin_task_observation_def table_in_steps split: sum.splits if_splits)
  ultimately show "table_in L s P owners' \<and> (\<forall>q. q \<notin> P \<longrightarrow> file_at w' q = file_at w q)"
    using preservesD [OF minting_confined(1) [OF assms] b] by simp
qed

lemma end_tool_confined:
  assumes "names_in L s P (ai_owner_handle i)"
  shows "tool_confined L s P (end_task_observation L s M a i)"
  unfolding end_task_observation_def
proof (rule tool_confined_handle [OF assms], rule tool_confinedI)
  fix h owners w r owners' w'
  assume h: "names_in L s P h" and o: "table_in L s P owners" and t: "(case End L s M h w of
         (Inl e, w1) \<Rightarrow> (Inl e, owners, w1)
       | (Inr _, w1) \<Rightarrow>
           (case Summarize L s h 0 [] 20 w1 of (r, w2) \<Rightarrow>
              (r, if ai_observation_id i \<noteq> [] then forget owners a (ai_observation_id i) else owners, w2))) = (r, owners', w')"
  obtain re w1 where e: "End L s M h w = (re, w1)" by force
  have "file_at w' = file_at w1"
    using t e keeps_files [OF keeps_Summarize] by (auto split: sum.splits prod.splits)
  moreover have "table_in L s P owners'" using t e o by (auto simp: table_in_steps split: sum.splits prod.splits if_splits)
  ultimately show "table_in L s P owners' \<and> (\<forall>q. q \<notin> P \<longrightarrow> file_at w' q = file_at w q)"
    using preservesD [OF service_confined(2) [OF h] e] by simp
qed

text \<open>The handles a tool call presents.\<close>

fun call_handles :: "tool_call \<Rightarrow> string list" where
  "call_handles (BeginTaskObservation i) = []"
| "call_handles (AppendTaskEvents i) = [ai_owner_handle i, ap_executor_handle i]"
| "call_handles (EndTaskObservation i) = [ai_owner_handle i]"
| "call_handles (InspectCompletedTask i) = [rt_grant_handle i]"
| "call_handles (GetResidueReport i) = [ai_owner_handle i]"
| "call_handles (VerifyTaskResidue i) = [ai_owner_handle i]"
| "call_handles (DelegateTaskExecutor i) = [ai_owner_handle i]"
| "call_handles (ResolveResidueCandidate i) = [ai_owner_handle i]"

lemma call_confined:
  assumes "store_layout s hs" "store_files s \<subseteq> P" "owner_json_ok L" "list_all (names_in L s P) (call_handles c)"
  shows "tool_confined L s P (call_tool L s M a c)"
  using assms
  by (cases c)
    (auto intro!: tool_confined_labelled begin_tool_confined end_tool_confined tool_confined_handle tool_confined_service
        tool_confined_fails preserves_bind service_confined Verify_confined keeps_any [OF keeps_ResolveCandidate]
      simp: append_task_events_cases inspect_completed_task_def get_residue_report_def verify_task_residue_def
        delegate_task_executor_def resolve_residue_candidate_def Let_def)

lemma serve_calls_confined:
  assumes lay: "store_layout s hs" "store_files s \<subseteq> P" and js: "owner_json_ok L"
  shows "list_all (\<lambda>(a, c). list_all (names_in L s P) (call_handles c)) calls \<Longrightarrow> table_in L s P owners \<Longrightarrow>
    serve_calls (call_tool L s M) calls owners w = (rs, owners', w') \<Longrightarrow> q \<notin> P \<Longrightarrow> file_at w' q = file_at w q"
proof (induction calls arbitrary: owners w rs)
  case (Cons ac calls)
  obtain a c where ac: "ac = (a, c)" by force
  obtain r owners1 w1 where t: "call_tool L s M a c owners w = (r, owners1, w1)" by (metis prod_cases3)
  have step: "table_in L s P owners1 \<and> file_at w1 q = file_at w q"
    using call_confined [OF lay js, of c M a] Cons.prems t ac unfolding tool_confined_def by auto
  from Cons.prems(3) t ac obtain rs1 where "serve_calls (call_tool L s M) calls owners1 w1 = (rs1, owners', w')"
    by (auto split: prod.splits)
  with Cons.IH [of owners1 w1 rs1] Cons.prems ac step show ?case by simp
qed simp

text \<open>The handles a command reads from standard input.\<close>

definition decoded :: "('a \<Rightarrow> string) \<Rightarrow> 'a res \<Rightarrow> string list" where
  "decoded f r = (case r of Inl _ \<Rightarrow> [] | Inr v \<Rightarrow> [f v])"

definition given_handles :: "'z clilib_scheme \<Rightarrow> string list \<Rightarrow> string \<Rightarrow> string list" where
  "given_handles L args stdin =
     (if args = [''event'', ''append''] then decoded cv_owner_handle (decodeOne (dec_events L) stdin)
      else if args \<in> {[''end''], [''report'', ''retain''], [''report'', ''forget''], [''verify'']}
           then decoded ca_owner_handle (decodeOne (dec_access L) stdin)
      else if args = [''inspect-completed''] then decoded rt_grant_handle (decodeOne (dec_retrospective L) stdin)
      else if args = [''report'', ''get''] then decoded cr_owner_handle (decodeOne (dec_report L) stdin)
      else if args = [''candidate'', ''resolve''] then decoded cx_owner_handle (decodeOne (dec_resolve L) stdin)
      else [])"

lemma with_input_confined:
  assumes "\<And>v. decodeOne dec stdin = Inr v \<Longrightarrow> preserves P (f v)"
  shows "preserves P (with_input dec stdin f)"
  unfolding with_input_def
  by (rule preserves_bind_res) (use assms in \<open>auto simp: io_lift_def\<close>)

lemma command_confined:
  assumes "store_layout s hs" "store_files s \<subseteq> P" "owner_json_ok L" "list_all (names_in L s P) (given_handles L args stdin)"
    "command L s M home args stdin = Some m"
  shows "preserves P m"
proof -
  note ops = minting_confined [OF assms(1-3)] service_confined store_ops_confined(7,8)
    Verify_confined keeps_any [OF keeps_ResolveCandidate]
  from assms(4,5) show ?thesis
    by (auto simp: command_def given_handles_def decoded_def Let_def split: if_splits
        intro!: with_input_confined preserves_bind ops)
qed

text \<open>The store below a state home, opened without options, and all handles a run is given.\<close>

definition state_store :: "string \<Rightarrow> store" where
  "state_store root = \<lparr>st_home = root, st_tasks_dir = path_join root ''tasks'', st_reports_dir = path_join root ''reports'',
     st_grants_dir = path_join root ''grants'', st_events_dir = path_join root ''events'', st_config = default_config\<rparr>"

definition presented :: "'z clilib_scheme \<Rightarrow> (session \<times> tool_call) list \<Rightarrow> string list \<Rightarrow> string \<Rightarrow> string set" where
  "presented L calls args stdin =
     (if args = [''mcp''] then \<Union>(a, c) \<in> set calls. set (call_handles c) else set (given_handles L args stdin))"

lemma Open_state_store:
  "Open cwd home [] w = (Inr s, w') \<Longrightarrow> path_abs cwd home = Inr root \<Longrightarrow> s = state_store root"
  by (auto simp: Open_def io_fail_def io_lift_def io_return_def Let_def state_store_def elim!: io_bind_Inr split: if_splits)

lemma store_files_within:
  assumes "store_layout s hs" "p \<in> store_files s"
  shows "within (st_home s) p"
proof -
  obtain ts where "list_all proper ts" "p = abs_path (hs @ ts)" by (rule store_files_below [OF assms])
  then show ?thesis using assms(1) by (simp add: store_layout_def within_def)
qed

text \<open>
  C3: The program cleans up nothing and writes nowhere else: whatever the command, whatever an
  MCP client calls in its sessions, whichever system calls fail and whatever the exit code, a file
  that changed lies below the state home, or is one that a presented handle with an id or grant
  id that is no plain name spells out. The program does not check the ids of handles: such a handle is one
  it never minted, and the files it spells are records (ending in \<open>.are\<close>), the files of one event directory
  and temporary files beside them. Relied on: the working directory is absolute and JSON decodes
  the owner handles it encoded for minted owners.
\<close>

theorem Run_confined:
  assumes "Run L env M calls ended args stdin w = (out, w')"
    "stateHome env (getwd (mc_os M)) = Inr home" "path_abs (getwd (mc_os M)) home = Inr root"
    "owner_json_ok L" "\<And>wd. getwd (mc_os M) = Inr wd \<Longrightarrow> is_abs wd" "file_at w' p \<noteq> file_at w p"
  shows "within root p
    \<or> (\<exists>h \<in> presented L calls args stdin. \<not> plain_handle L h \<and> p \<in> handle_files L (state_store root) h)"
  using assms(1)
proof (cases rule: Run_cases)
  case (opened home' s w1)
  obtain hs where lay: "store_layout s hs" by (rule Open_layout [OF opened(4) assms(5)])
  have s: "s = state_store root" using Open_state_store [OF opened(4)] opened(3) assms(2,3) by simp
  then have home: "st_home s = root" by (simp add: state_store_def)
  define P where "P = store_files s \<union> (\<Union>h \<in> {h \<in> presented L calls args stdin. \<not> plain_handle L h}. handle_files L s h)"
  have sub: "store_files s \<subseteq> P" by (simp add: P_def)
  have named: "names_in L s P h" if "h \<in> presented L calls args stdin" for h
  proof (cases "plain_handle L h")
    case True
    then show ?thesis by (rule plain_names_in [OF lay sub])
  next
    case False
    then show ?thesis using that by (auto simp: P_def names_in_def)
  qed
  have "file_at w' p = file_at w1 p" if p: "p \<notin> P"
  proof (cases "args = [''mcp'']")
    case True
    with opened(5) obtain rs r where "mcp_Run L s M calls ended w1 = ((rs, r), w')" by auto
    then obtain rs owners' where run: "serve_calls (call_tool L s M) calls newSessionOwners w1 = (rs, owners', w')"
      by (auto simp: mcp_Run_def split: prod.splits)
    have "list_all (\<lambda>(a, c). list_all (names_in L s P) (call_handles c)) calls"
      using named True by (auto simp: list_all_iff presented_def)
    from serve_calls_confined [OF lay sub assms(4) this table_in_steps(1) run p] show ?thesis .
  next
    case False
    have "list_all (names_in L s P) (given_handles L args stdin)" using named False by (auto simp: list_all_iff presented_def)
    note confined = command_confined [OF lay sub assms(4) this]
    show ?thesis
    proof (cases "command L s M home' args stdin")
      case (Some m)
      with opened(5) False obtain r where "m w1 = (r, w')" by auto
      from preservesD [OF confined [OF Some] this p] show ?thesis .
    qed (use opened(5) False in simp)
  qed
  with keeps_files [OF keeps_Open opened(4)] assms(6) have "p \<in> P" by auto
  then show ?thesis using store_files_within [OF lay] unfolding P_def home s [symmetric] by blast
qed (use assms(6) in auto)

section \<open>Witnesses\<close>

definition demo_end_handle :: string where
  "demo_end_handle = owner_string demo_beginlib
     \<lparr>o_opaque_id = ''id'', o_record_key = replicate 32 (CHR ''k''), o_signing_seed = replicate 32 (CHR ''s'')\<rparr>"

definition demo_clilib :: clilib where
  "demo_clilib = servicelib.extend demo_beginlib
     \<lparr>dec_scope = (\<lambda>_. Inl ErrAccessDenied), dec_events = (\<lambda>_. Inl ErrAccessDenied),
      dec_access = (\<lambda>_. Inr (\<lparr>ca_owner_handle = demo_end_handle, ca_report_id = []\<rparr>, AtEOF)),
      dec_inspect = (\<lambda>_. Inl ErrAccessDenied), dec_retrospective = (\<lambda>_. Inl ErrAccessDenied),
      dec_report = (\<lambda>_. Inl ErrAccessDenied), dec_resolve = (\<lambda>_. Inl ErrAccessDenied), encode_stdout = (\<lambda>_. Inr ())\<rparr>"

definition demo_env :: cli_env where
  "demo_env = \<lparr>ce_goos = ''linux'', ce_are_home = ''/s'', ce_xdg_state_home = [], ce_user_home_dir = Inr ''/home/u''\<rparr>"

lemma demo_cli_owner_json:
  "length (o_record_key ow) = 32 \<Longrightarrow> length (o_signing_seed ow) = 32 \<Longrightarrow>
     unjson_owner demo_clilib (json_owner demo_clilib ow) = Some ow"
  by (simp add: demo_clilib_def demo_beginlib_def demo_storelib_def storelib.defs servicelib.defs)

lemma demo_cli_json: "owner_json_ok demo_clilib"
  by (simp add: owner_json_ok_def minted_def demo_cli_owner_json)

lemma demo_cli_handle: "owner_string demo_beginlib ow = owner_string demo_clilib ow"
  by (simp add: owner_string_def demo_clilib_def servicelib.defs demo_beginlib_def storelib.defs demo_storelib_def)

lemma demo_abs: "getwd (mc_os demo_machine) = Inr wd \<Longrightarrow> is_abs wd"
  using demo_getwd by (simp add: demo_machine_def)

lemma demo_end_plain: "plain_handle demo_clilib demo_end_handle"
  unfolding demo_end_handle_def demo_cli_handle
  by (rule plain_owner_string [OF demo_cli_owner_json]) (simp_all add: proper_def)

theorem Run_exit_witness:
  "co_code (fst (Run demo_clilib demo_env demo_machine [] (Inr ()) [''clean''] [] demo_world)) = 2
   \<and> file_at (snd (Run demo_clilib demo_env demo_machine [] (Inr ()) [''clean''] [] demo_world)) = file_at demo_world"
proof -
  have "opens demo_env demo_machine demo_world" by code_simp
  moreover have "[''clean''] \<notin> set known_commands" by (simp add: known_commands_def)
  ultimately show ?thesis using Run_exit [OF surjective_pairing [of "Run demo_clilib demo_env demo_machine [] (Inr ()) [''clean''] [] demo_world"]]
    by blast
qed

text \<open>An \<open>end\<close> command that fails after opening the store.\<close>

theorem Run_confined_witness:
  "file_at (snd (Run demo_clilib demo_env demo_machine [] (Inr ()) [''end''] ''in'' demo_world)) ''/home/u/notes''
     = file_at demo_world ''/home/u/notes''"
proof (rule ccontr)
  let ?run = "Run demo_clilib demo_env demo_machine [] (Inr ()) [''end''] ''in'' demo_world"
  assume changed: "file_at (snd ?run) ''/home/u/notes'' \<noteq> file_at demo_world ''/home/u/notes''"
  have home: "stateHome demo_env (getwd (mc_os demo_machine)) = Inr ''/s''" by code_simp
  have root: "path_abs (getwd (mc_os demo_machine)) ''/s'' = Inr ''/s''" by code_simp
  have "\<not> within ''/s'' ''/home/u/notes''" by code_simp
  moreover have "presented demo_clilib [] [''end''] ''in'' = {demo_end_handle}"
    by (simp add: presented_def given_handles_def decoded_def decodeOne_def demo_clilib_def servicelib.defs)
  ultimately show False
    using Run_confined [OF surjective_pairing home root demo_cli_json demo_abs changed] demo_end_plain by simp
qed

end
