(* ===== verification/Spec2Isabelle.thy ===== *)
theory Spec2Isabelle
  imports Capability Path_Alias Correlate Grouping Native_Adapter Windows_Files Service_Retro Cli
begin

text \<open>
  \<^bold>\<open>Agent Residue Evidence.\<close> The program observes what a task of an agent leaves behind on
  a machine: files, directories, processes and ports. A task is begun for a declared scope, a
  baseline is taken, events are appended by the owner or by delegated executors, the end of the
  task compares the machine with the baseline and stores a report, and later verifications append
  revisions to it. Everything is stored encrypted, under handles that are the only authority. The
  program never changes anything it observes. It is a command line and an MCP server over one
  service; this development models the Unix build of its packages under \<open>src/internal\<close>.

  \<^bold>\<open>Theories and the code they model.\<close> Definitions keep the names of the source; a struct is a
  record with a field prefix, an enum a datatype, an error a value of \<^typ>\<open>err\<close>, a fallible
  function returns \<open>err + 'a\<close>, and a loop is a recursive function. Each theory imports the
  ones it uses.

    \<^item> \<open>Prelude\<close>, \<open>Go_Text\<close>, \<open>Go_Time\<close>, \<open>Go_Path\<close>: errors, results, sorting,
      \<open>int64\<close> wrap-around, and what the source uses of \<open>strings\<close>,
      \<open>encoding/base64\<close>, \<open>time\<close> and \<open>path/filepath\<close> (Unix).
    \<^item> \<open>Os_View\<close>: the observed machine as a record of answers of \<open>Lstat\<close>,
      \<open>EvalSymlinks\<close>, \<open>WalkDir\<close> and the like; nothing of it can be written.
    \<^item> \<open>World\<close>: what the program writes to: files, directories and modes, the clock, the random
      source and a schedule of failing system calls. An operation is a function on this state.
    \<^item> \<open>Contract\<close>: \<open>contract/types.go\<close>, \<open>validate.go\<close>.
      \<open>Capability\<close>: \<open>capability/capability.go\<close>.
      \<open>Scope_Guard\<close>: \<open>scope/guard.go\<close>.
      \<open>Path_Alias\<close>: \<open>pathalias/alias.go\<close>, \<open>identity_unix.go\<close>.
      \<open>Fs_Observe\<close>: \<open>fsobserve/observer.go\<close>, \<open>diff.go\<close>, \<open>types.go\<close>.
      \<open>Process_Observe\<close>: \<open>process/observer.go\<close>, \<open>types.go\<close>.
      \<open>Native_Adapter\<close>: \<open>process/native.go\<close>, \<open>connections.go\<close> and the
      \<open>observer_\<close> files of Linux, Windows and macOS, with the C function of the latter.
      \<open>Event_Normalize\<close>: \<open>event/normalize.go\<close>.
      \<open>Correlate\<close>: \<open>correlate/correlate.go\<close>. \<open>Grouping\<close>: \<open>group/group.go\<close>.
    \<^item> \<open>Envelope\<close>: \<open>store/crypto.go\<close>, \<open>store.go\<close> and the atomic write of
      \<open>atomic_unix.go\<close>. \<open>Owned_Store\<close>: \<open>store/owned.go\<close>, \<open>types.go\<close>.
      \<open>Retention\<close>: \<open>store/retention.go\<close>. \<open>Store_Frame\<close>, \<open>Store_Access\<close>
      and \<open>Store_Refine\<close> hold the theory of the store.
      \<open>Windows_Files\<close>: the Windows variants of identities (\<open>identity_windows.go\<close>),
      replacing files (\<open>store/atomic_windows.go\<close>) and access lists
      (\<open>permissions_windows.go\<close>), related to those of Unix the rest uses.
    \<^item> \<open>Service_Parts\<close>, \<open>Service\<close>: \<open>app/service.go\<close>, helpers and operations.
      \<open>Service_Begin\<close>, \<open>Service_Alias\<close>, \<open>Service_Read\<close>, \<open>Service_Frame\<close>,
      \<open>Service_Report\<close> and \<open>Service_Retro\<close> hold what is proved of them.
    \<^item> \<open>Mcp_Server\<close>: \<open>mcpserver/server.go\<close>. \<open>Cli\<close>: \<open>cli/run.go\<close>,
      \<open>versioninfo/version.go\<close> and \<open>main.go\<close>.

  \<^bold>\<open>State and interaction.\<close> The state of the program is the world's file map: one sealed
  envelope per task, report and grant and one per executor batch, named by the opaque id of the
  owner. The store opens and seals them with the owner's key; the service combines the guard,
  the observers, correlation and the store; the MCP server adds one table of ephemeral handles per
  session. Every system call of an operation may fail, at every point; the theorems about the
  store quantify over all such schedules.

  \<^bold>\<open>What is shown.\<close>

    \<^item> Scope: accepted roots are canonical, real, disjoint directories; projected aliases resolve
      back to the same path and never outside a bound root whose identity is unchanged.
    \<^item> Observation: a comparison reports exactly the created, changed and removed entries of an
      observed tree within its limits; the process observer attributes exactly the hinted, in-scope
      and path-holding processes with their descendants, in any order of Go's map iteration, and
      the adapter of every platform lists, and the observer asks about, the own processes only.
    \<^item> Events and reports: batches are accepted exactly when well formed and contained in the
      scope or the delegation; the report holds exactly the observed objects with the matching
      provenance; grouping shows every candidate, conserves counts and sizes, and paging
      enumerates every group once.
    \<^item> Store: every run of operations of an owner refines an abstract life cycle of a task, report
      and grant (\<open>Store_Refine\<close>); an operation changes only files its handle names, so owners
      with plain ids, which are those the program mints, are isolated; completing never loses evidence;
      executor batches are authorised; the revisions form a digest chain; writes are atomic; a
      sweep removes the expired and only what it may, and keeps the batches of live tasks.
    \<^item> Service: beginning opens exactly one task, ending publishes a valid report whose candidates
      show paths by alias only and whose file candidates are exactly what is new or changed below the roots
      (\<open>Service_Report\<close>), a retrospective inspection shows exactly the objects modified in
      the granted window, never claims a baseline and uses its grant up
      (\<open>Service_Retro\<close>), verification states what the machine shows of each
      candidate and never hides a failed query, extends the history
      and succeeds when the machine lets it, a summary panics exactly when a revision is appended
      between its two reads, and one exact path is disclosed only as recorded.
    \<^item> Server and command line: sessions do not influence each other, ephemeral authority stays in
      the session that began it, a run writes outside the state home only where a presented handle
      with an id that is no plain name points, and exit codes agree with what is printed.

  Interfaces are locales, interpreted on the model: Go comparisons and the sort that uses them
  (\<open>comparator\<close>), encodings (\<open>codec\<close>), callbacks of a directory walk
  (\<open>walk_callback\<close>, \<open>walk_marks\<close>), alias tables (\<open>alias_contract\<close>), platform
  files of the adapter (\<open>platform_build\<close>), operations that refine an abstract step
  (\<open>simulation\<close>) and servers with one table entry per session (\<open>session_server\<close>).

  \<^bold>\<open>Parameters.\<close> SHA-256, AES-GCM, Ed25519 and the JSON encoders and decoders of the record types are
  fields of the records \<open>caplib\<close>, \<open>cryptlib\<close>, \<open>storelib\<close>, \<open>servicelib\<close>
  and \<open>clilib\<close>; what a theorem relies on (the cipher opens what it sealed, JSON decodes what
  it encoded, signatures verify) is a hypothesis of it, stated for the values that are written where
  the library documents exceptions (invalid UTF-8, years past 9999). The process table, connections and open
  files are answers of the native adapter. No fuel is used: every loop of the model is structural
  or has a termination proof. Integers are unbounded except where the source can overflow (sizes,
  totals and revision numbers of the store wrap at 64 bits).

  \<^bold>\<open>Not modelled.\<close> The path functions and the state home of a Windows build, the embedded JSON schemas (never interpreted), the MCP SDK
  (transport, argument decoding), and interleavings inside one operation: operations of the store
  hold a mutex, and a tool call is one step. The exception is \<open>Summarize\<close>, whose two reads
  are separated by an argument that stands for whatever other calls do in between; the command line and
  the server use it with nothing in between. A Go panic is an error value \<open>GoPanic\<close> that ends
  the process with status 2; what the SDK does with a panic inside a tool is not modelled. Packaging, scripts and documentation have no
  behaviour of the program.
\<close>

end
